(* ===== verification/Prelude.thy ===== *)
theory Prelude
  imports Main "HOL-Library.Word" "HOL-Library.AList"
begin

text \<open>
  Shared vocabulary of the development: machine integers, Rust's result type with a
  third outcome for a panic, state-passing programs over it, the string operations
  the code uses (\<open>starts_with\<close>, \<open>strip_prefix\<close>, \<open>split\<close>, \<open>replace\<close>,
  \<open>to_lowercase\<close>), big-endian bytes and UTF-8 validity, and the generic lemmas on
  them. Hash maps are association lists with distinct keys: the list order stands for
  the (unspecified) iteration order of the Rust map.
\<close>

named_theorems prog_simps \<open>evaluation rules of state-passing programs\<close>
named_theorems string_simps \<open>the Rust string operations\<close>

section \<open>Machine integers and bytes\<close>

type_synonym u8 = "8 word"
type_synonym u32 = "32 word"
type_synonym u64 = "64 word"
type_synonym bytes = "8 word list"

text \<open>\<open>u32::to_be_bytes\<close>.\<close>

lemma unat_ucast_64: "unat (ucast (x :: u32) :: u64) = unat x"
  by transfer (simp add: take_bit_take_bit)

definition be_bytes32 :: "u32 \<Rightarrow> bytes" where
  "be_bytes32 w = [ucast (drop_bit 24 w), ucast (drop_bit 16 w), ucast (drop_bit 8 w), ucast w]"

definition of_be32 :: "bytes \<Rightarrow> u32" where
  "of_be32 bs = foldl (\<lambda>acc b. push_bit 8 acc + ucast b) 0 bs"

lemma length_be_bytes32 [simp]: "length (be_bytes32 w) = 4"
  by (simp add: be_bytes32_def)

lemma be_split8:
  fixes a :: u32
  shows "push_bit 8 (drop_bit 8 a) + ucast (ucast a :: u8) = a"
proof -
  have "ucast (ucast a :: u8) = take_bit 8 a"
    by (simp add: unsigned_ucast_eq)
  moreover have "push_bit 8 (drop_bit 8 a) + take_bit 8 a = a"
    by (metis bits_ident)
  ultimately show ?thesis by simp
qed

lemma of_be32_be_bytes32 [simp]: "of_be32 (be_bytes32 w) = w"
proof -
  have *: "push_bit 8 (drop_bit (n + 8) w) + ucast (ucast (drop_bit n w) :: u8) = drop_bit n w"
    for n
    using be_split8 [of "drop_bit n w"] by (simp add: drop_bit_drop_bit add.commute)
  have top: "ucast (ucast (drop_bit 24 w) :: u8) = drop_bit 24 w"
  proof -
    have "drop_bit 32 w = 0"
      by (rule bit_word_eqI) (auto simp: bit_drop_bit_eq dest: bit_imp_le_length)
    then show ?thesis using * [of 24] by simp
  qed
  show ?thesis
    using top * [of 16] * [of 8] * [of 0]
    by (simp add: of_be32_def be_bytes32_def)
qed

lemma be_bytes32_inject [simp]: "be_bytes32 a = be_bytes32 b \<longleftrightarrow> a = b"
  by (metis of_be32_be_bytes32)

section \<open>Results, panics and state-passing programs\<close>

text \<open>
  Rust's \<open>Result\<close>, with the panic as a third outcome: \<open>unwrap\<close>, \<open>expect\<close> and
  out-of-range slices end in \<open>Panic\<close>, which no \<open>match\<close> and no \<open>.ok()\<close> catches.
\<close>

datatype ('a, 'e) result = Ok 'a | Err 'e | Panic

fun map_err :: "('e \<Rightarrow> 'f) \<Rightarrow> ('a, 'e) result \<Rightarrow> ('a, 'f) result" where
  "map_err f (Ok v) = Ok v"
| "map_err f (Err e) = Err (f e)"
| "map_err f Panic = Panic"

fun and_then :: "('a, 'e) result \<Rightarrow> ('a \<Rightarrow> ('b, 'e) result) \<Rightarrow> ('b, 'e) result" where
  "and_then (Ok v) k = k v"
| "and_then (Err e) k = Err e"
| "and_then Panic k = Panic"

text \<open>\<open>Result::ok\<close>: the error is dropped, the panic is not.\<close>

fun ok_of :: "('a, 'e) result \<Rightarrow> ('a option, 'f) result" where
  "ok_of (Ok v) = Ok (Some v)"
| "ok_of (Err e) = Ok None"
| "ok_of Panic = Panic"

text \<open>\<open>unwrap\<close> and \<open>expect\<close>.\<close>

fun unwrap_of :: "('a, 'e) result \<Rightarrow> ('a, 'f) result" where
  "unwrap_of (Ok v) = Ok v"
| "unwrap_of (Err e) = Panic"
| "unwrap_of Panic = Panic"

definition of_option :: "'a option \<Rightarrow> ('a, 'e) result" where
  "of_option x = (case x of None \<Rightarrow> Panic | Some v \<Rightarrow> Ok v)"

lemma of_option_simps [simp]: "of_option None = Panic" "of_option (Some v) = Ok v"
  by (simp_all add: of_option_def)

lemma and_then_Ok_iff: "and_then r k = Ok b \<longleftrightarrow> (\<exists>a. r = Ok a \<and> k a = Ok b)"
  by (cases r) auto

lemma map_err_Ok_iff [simp]: "map_err f r = Ok v \<longleftrightarrow> r = Ok v"
  by (cases r) auto

lemma map_err_Panic_iff [simp]: "map_err f r = Panic \<longleftrightarrow> r = Panic"
  by (cases r) auto

lemma ok_of_Some_iff [simp]: "ok_of r = Ok (Some v) \<longleftrightarrow> r = Ok v"
  by (cases r) auto

lemma ok_of_None_iff: "ok_of r = Ok None \<longleftrightarrow> (\<exists>e. r = Err e)"
  by (cases r) auto

lemma ok_of_Panic_iff [simp]: "ok_of r = Panic \<longleftrightarrow> r = Panic"
  by (cases r) auto

lemma ok_of_no_Err [simp]: "ok_of r \<noteq> Err e"
  by (cases r) auto

lemma ok_of_map_err [simp]: "ok_of (map_err f r) = ok_of r"
  by (cases r) auto

lemma unwrap_of_Ok_iff [simp]: "unwrap_of r = Ok v \<longleftrightarrow> r = Ok v"
  by (cases r) auto

lemma unwrap_of_no_Err [simp]: "unwrap_of r \<noteq> Err e"
  by (cases r) auto

text \<open>
  A program on a state returns its outcome with the state it leaves: an error return or
  a panic keeps the writes made before it (the browser's storage outlives a trapped
  module).
\<close>

type_synonym ('s, 'a, 'e) prog = "'s \<Rightarrow> ('a, 'e) result \<times> 's"

definition preturn :: "'a \<Rightarrow> ('s, 'a, 'e) prog" where
  "preturn v s = (Ok v, s)"

definition perr :: "'e \<Rightarrow> ('s, 'a, 'e) prog" where
  "perr e s = (Err e, s)"

text \<open>The \<open>?\<close> operator.\<close>

definition pbind :: "('s, 'a, 'e) prog \<Rightarrow> ('a \<Rightarrow> ('s, 'b, 'e) prog) \<Rightarrow> ('s, 'b, 'e) prog" where
  "pbind m k s = (case m s of
     (Ok v, s') \<Rightarrow> k v s'
   | (Err e, s') \<Rightarrow> (Err e, s')
   | (Panic, s') \<Rightarrow> (Panic, s'))"

definition pmap_err :: "('e \<Rightarrow> 'f) \<Rightarrow> ('s, 'a, 'e) prog \<Rightarrow> ('s, 'a, 'f) prog" where
  "pmap_err f m s = (let (r, s') = m s in (map_err f r, s'))"

text \<open>A read leaves the state as it is.\<close>

definition pread :: "('s \<Rightarrow> ('a, 'e) result) \<Rightarrow> ('s, 'a, 'e) prog" where
  "pread f s = (f s, s)"

definition pmodify :: "('s \<Rightarrow> 's) \<Rightarrow> ('s, unit, 'e) prog" where
  "pmodify f s = (Ok (), f s)"

lemma pbind_simps [prog_simps]:
  "m s = (Ok v, s') \<Longrightarrow> pbind m k s = k v s'"
  "m s = (Err e, s') \<Longrightarrow> pbind m k s = (Err e, s')"
  "m s = (Panic, s') \<Longrightarrow> pbind m k s = (Panic, s')"
  by (simp_all add: pbind_def)

lemma prog_apply [simp, prog_simps]:
  "preturn v s = (Ok v, s)"
  "perr e s = (Err e, s)"
  "pread f s = (f s, s)"
  "pmodify g s = (Ok (), g s)"
  by (simp_all add: preturn_def perr_def pread_def pmodify_def)

lemma pmap_err_apply [prog_simps]: "m s = (r, s') \<Longrightarrow> pmap_err f m s = (map_err f r, s')"
  by (simp add: pmap_err_def)

lemma pmap_err_snd [simp]: "snd (pmap_err f m s) = snd (m s)"
  by (simp add: pmap_err_def split: prod.split)

lemma pbind_pread [simp]:
  "pbind (pread f) k s = (case f s of Ok v \<Rightarrow> k v s | Err e \<Rightarrow> (Err e, s) | Panic \<Rightarrow> (Panic, s))"
  by (simp add: pbind_def split: result.split)

lemma pbind_pmodify [simp]: "pbind (pmodify g) k s = k () (g s)"
  by (simp add: pbind_def)

lemma pbind_preturn [simp]: "pbind (preturn v) k s = k v s"
  by (simp add: pbind_def)

lemma pbind_assoc: "pbind (pbind m f) k = pbind m (\<lambda>v. pbind (f v) k)"
  by (auto simp: pbind_def fun_eq_iff split: prod.split result.split)

lemma pbind_preturn_fun: "pbind (preturn v) k = k v"
  by (simp add: fun_eq_iff)

lemma pbind_Ok_iff:
  "pbind m k s = (Ok b, s'') \<longleftrightarrow> (\<exists>a s'. m s = (Ok a, s') \<and> k a s' = (Ok b, s''))"
  by (auto simp: pbind_def split: prod.splits result.splits)

lemma pbind_OkE:
  assumes "pbind m k s = (Ok b, s'')"
  obtains a s' where "m s = (Ok a, s')" "k a s' = (Ok b, s'')"
  using assms by (auto simp: pbind_Ok_iff)

lemma pmap_err_Ok_iff [simp]: "pmap_err f m s = (Ok b, s') \<longleftrightarrow> m s = (Ok b, s')"
  by (auto simp: pmap_err_def split: prod.splits)

text \<open>
  What holds between the state before and after of every building block of a program holds
  between before and after of the program, when the relation is a preorder.
\<close>

locale run_preorder =
  fixes R :: "'s \<Rightarrow> 's \<Rightarrow> bool"
  assumes R_refl: "R s s"
    and R_trans: "R s t \<Longrightarrow> R t u \<Longrightarrow> R s u"
begin

lemma run_pbind:
  assumes "\<And>s. R s (snd (m s))" "\<And>v s s'. m s = (Ok v, s') \<Longrightarrow> R s' (snd (k v s'))"
  shows "R s (snd (pbind m k s))"
proof (cases "m s")
  case (Pair r s')
  with assms(1) [of s] have step: "R s s'" by simp
  show ?thesis
  proof (cases r)
    case (Ok v)
    with Pair assms(2) R_trans [OF step] show ?thesis by (simp add: pbind_def)
  qed (use Pair step in \<open>simp_all add: pbind_def\<close>)
qed

lemma run_basic:
  "R s (snd (preturn v s))" "R s (snd (perr e s))" "R s (snd (pread f s))"
  by (simp_all add: R_refl)

lemma run_fold: "(\<And>x s. x \<in> set xs \<Longrightarrow> R s (f x s)) \<Longrightarrow> R s (fold f xs s)"
proof (induction xs arbitrary: s)
  case (Cons x xs)
  then have "R s (f x s)" "R (f x s) (fold f xs (f x s))" by simp_all
  then show ?case by (auto intro: R_trans)
qed (simp add: R_refl)

end

section \<open>Strings\<close>

text \<open>
  A Rust \<open>String\<close> is its UTF-8 bytes, here as a list of characters.
\<close>

definition as_bytes :: "string \<Rightarrow> bytes" where
  "as_bytes s = map (\<lambda>c. of_nat (of_char c)) s"

definition of_bytes :: "bytes \<Rightarrow> string" where
  "of_bytes bs = map (\<lambda>b. char_of (unat b)) bs"

lemma of_bytes_as_bytes [simp]: "of_bytes (as_bytes s) = s"
proof -
  have "char_of (unat (of_nat (of_char c) :: u8)) = c" for c
  proof -
    have "(of_char c :: nat) < 256" by simp
    then have "unat (of_nat (of_char c) :: u8) = of_char c"
      by (simp add: unat_of_nat)
    then show ?thesis by simp
  qed
  then show ?thesis by (induction s) (simp_all add: of_bytes_def as_bytes_def)
qed

lemma as_bytes_of_bytes [simp]: "as_bytes (of_bytes bs) = bs"
proof -
  have "word_of_nat (of_char (char_of (unat b) :: char)) = b" for b :: u8
  proof -
    have "unat b < 256" using unsigned_less [of b, where ?'a = nat] by simp
    then have "(of_char (char_of (unat b) :: char) :: nat) = unat b"
      by (simp add: of_char_of)
    then show ?thesis by simp
  qed
  then show ?thesis by (induction bs) (simp_all add: as_bytes_def of_bytes_def)
qed

text \<open>
  Well-formed UTF-8 (what \<open>String::from_utf8\<close> accepts): one to four byte sequences,
  without overlong forms, surrogates or code points above \<open>0x10FFFF\<close>.
\<close>

definition cont_byte :: "u8 \<Rightarrow> bool" where
  "cont_byte b \<longleftrightarrow> 0x80 \<le> b \<and> b \<le> 0xBF"

fun utf8_valid :: "bytes \<Rightarrow> bool" where
  "utf8_valid [] = True"
| "utf8_valid (a # bs) =
    (if a \<le> 0x7F then utf8_valid bs
     else (case bs of
       b # cs \<Rightarrow>
         if 0xC2 \<le> a \<and> a \<le> 0xDF then cont_byte b \<and> utf8_valid cs
         else (case cs of
           c # ds \<Rightarrow>
             if 0xE0 \<le> a \<and> a \<le> 0xEF then
               (if a = 0xE0 then 0xA0 \<le> b \<and> b \<le> 0xBF
                else if a = 0xED then 0x80 \<le> b \<and> b \<le> 0x9F else cont_byte b)
               \<and> cont_byte c \<and> utf8_valid ds
             else (case ds of
               d # es \<Rightarrow>
                 0xF0 \<le> a \<and> a \<le> 0xF4 \<and>
                 (if a = 0xF0 then 0x90 \<le> b \<and> b \<le> 0xBF
                  else if a = 0xF4 then 0x80 \<le> b \<and> b \<le> 0x8F else cont_byte b)
                 \<and> cont_byte c \<and> cont_byte d \<and> utf8_valid es
             | [] \<Rightarrow> False)
         | [] \<Rightarrow> False)
     | [] \<Rightarrow> False))"

declare utf8_valid.simps [simp del]

lemma utf8_valid_Nil [simp]: "utf8_valid []"
  by (simp add: utf8_valid.simps)

lemma utf8_valid_ascii: "\<forall>b \<in> set bs. b \<le> 0x7F \<Longrightarrow> utf8_valid bs"
  by (induction bs) (simp_all add: utf8_valid.simps)

definition starts_with :: "string \<Rightarrow> string \<Rightarrow> bool" where
  "starts_with s p \<longleftrightarrow> take (length p) s = p"

definition ends_with :: "string \<Rightarrow> string \<Rightarrow> bool" where
  "ends_with s p \<longleftrightarrow> length p \<le> length s \<and> drop (length s - length p) s = p"

definition strip_prefix :: "string \<Rightarrow> string \<Rightarrow> string option" where
  "strip_prefix s p = (if starts_with s p then Some (drop (length p) s) else None)"

definition strip_suffix :: "string \<Rightarrow> string \<Rightarrow> string option" where
  "strip_suffix s p = (if ends_with s p then Some (take (length s - length p) s) else None)"

lemma starts_with_append [simp]: "starts_with (p @ s) p"
  by (simp add: starts_with_def)

lemma starts_with_iff: "starts_with s p \<longleftrightarrow> (\<exists>r. s = p @ r)"
  by (metis append_eq_conv_conj append_take_drop_id starts_with_def)

lemma ends_with_append [simp]: "ends_with (s @ p) p"
  by (simp add: ends_with_def)

lemma ends_with_iff: "ends_with s p \<longleftrightarrow> (\<exists>r. s = r @ p)"
  by (metis append_take_drop_id ends_with_append ends_with_def)

lemma strip_prefix_append [simp]: "strip_prefix (p @ s) p = Some s"
  by (simp add: strip_prefix_def)

lemma strip_suffix_append [simp]: "strip_suffix (s @ p) p = Some s"
  by (simp add: strip_suffix_def)

text \<open>\<open>str::split\<close> on one character: always at least one part.\<close>

fun split_on :: "char \<Rightarrow> string \<Rightarrow> string list" where
  "split_on d [] = [[]]"
| "split_on d (c # cs) =
    (if c = d then [] # split_on d cs
     else (case split_on d cs of [] \<Rightarrow> [[c]] | p # ps \<Rightarrow> (c # p) # ps))"

lemma split_on_nonempty [simp]: "split_on d s \<noteq> []"
  by (induction s) (auto split: list.splits)

lemma split_on_no_delim: "d \<notin> set s \<Longrightarrow> split_on d s = [s]"
  by (induction s) auto

lemma split_on_append: "d \<notin> set a \<Longrightarrow> split_on d (a @ d # b) = a # split_on d b"
  by (induction a) auto

lemma split_on_parts: "p \<in> set (split_on d s) \<Longrightarrow> d \<notin> set p"
  by (induction s arbitrary: p) (auto split: list.splits if_splits)

text \<open>\<open>str::replace\<close> of one character by another.\<close>

definition replace_char :: "char \<Rightarrow> char \<Rightarrow> string \<Rightarrow> string" where
  "replace_char a b s = map (\<lambda>c. if c = a then b else c) s"

lemma replace_char_back: "b \<notin> set s \<Longrightarrow> replace_char b a (replace_char a b s) = s"
  by (induction s) (auto simp: replace_char_def)

text \<open>
  \<open>str::to_lowercase\<close> on ASCII letters; other bytes are left as they are (Rust also
  folds non-ASCII letters, which no key, host or URL of the program contains).
\<close>

definition lower_char :: "char \<Rightarrow> char" where
  "lower_char c = (let n = of_char c :: nat in if 65 \<le> n \<and> n \<le> 90 then char_of (n + 32) else c)"

definition to_lowercase :: "string \<Rightarrow> string" where
  "to_lowercase s = map lower_char s"

lemma lower_char_lower: "lower_char (lower_char c) = lower_char c"
proof -
  have "(of_char (char_of (n + 32) :: char) :: nat) = n + 32" if "n \<le> 90" for n
    using that by (simp add: of_char_of)
  then show ?thesis by (auto simp: lower_char_def Let_def)
qed

lemma to_lowercase_idem [simp]: "to_lowercase (to_lowercase s) = to_lowercase s"
  by (simp add: to_lowercase_def lower_char_lower)

text \<open>Decimal rendering of a \<open>usize\<close>.\<close>

fun nat_to_string :: "nat \<Rightarrow> string" where
  "nat_to_string n =
    (if n < 10 then [char_of (48 + n)] else nat_to_string (n div 10) @ [char_of (48 + n mod 10)])"

declare nat_to_string.simps [simp del]

section \<open>Hash maps as association lists\<close>

lemma map_of_filter_key:
  "map_of (filter (\<lambda>(k, v). P k) xs) k = (if P k then map_of xs k else None)"
  by (induction xs) auto

lemma map_of_delete_same [simp]: "map_of (AList.delete k xs) k = None"
  by (simp add: AList.delete_conv')

lemma map_of_update_iff [simp]:
  "map_of (AList.update k v xs) k' = (if k' = k then Some v else map_of xs k')"
  by (simp add: AList.update_conv')

end
