(* ===== verification/Errors.thy ===== *)
theory Errors
  imports Prelude
begin

text \<open>
  The error types of \<open>node-manager/src/error.rs\<close> and the conversions between them that
  \<open>?\<close> and \<open>into()\<close> apply: third-party errors into \<open>MutinyError\<close>, storage errors into
  \<open>bdk::Error\<close>, and everything the browser sees into \<open>MutinyJsError\<close> and its message.
  Constructors of \<open>MutinyJsError\<close> carry the prefix \<open>Js\<close>; payloads that no code inspects
  (\<open>anyhow\<close> errors, the variants of third-party errors) are opaque constructors.
\<close>

section \<open>Third-party errors\<close>

datatype GlooError = GlooSerdeError | KeyNotFound string | GlooJsError

datatype BdkError = BdkSigner | BdkGeneric string | BdkChecksumMismatch | BdkOther

datatype PaymentError = PaymentInvoice | PaymentRouting | PaymentSending

datatype EsploraError = EsploraError

datatype DecodeError = DecodeError

datatype ParseOrSemanticError = ParseOrSemanticError

datatype PeerHandleError = PeerHandleError

section \<open>The program's errors\<close>

datatype MutinyStorageError = StorageError GlooError | SerdeError | OtherStorageError

datatype IoError = IoError

datatype MutinyError =
    AlreadyRunning
  | NotRunning
  | FundingTxCreationFailed
  | ConnectionFailed
  | IncorrectNetwork
  | NonUniquePaymentHash
  | InvoiceInvalid
  | InvoiceCreationFailed
  | RoutingFailed
  | PeerInfoParseFailed
  | ChannelCreationFailed
  | ChannelClosingFailed
  | PersistenceFailed MutinyStorageError
  | ReadError MutinyStorageError
  | LnDecodeError
  | SeedGenerationFailed
  | InvalidMnemonic
  | WalletOperationFailed
  | WalletSigningFailed
  | ChainAccessFailed
  | DLCManagerError
  | Other

datatype MutinyJsError =
    JsAlreadyRunning
  | JsNotRunning
  | JsFundingTxCreationFailed
  | JsConnectionFailed
  | JsIncorrectNetwork
  | JsNonUniquePaymentHash
  | JsInvoiceInvalid
  | JsInvoiceCreationFailed
  | JsRoutingFailed
  | JsPeerInfoParseFailed
  | JsChannelCreationFailed
  | JsChannelClosingFailed
  | JsPersistenceFailed
  | JsReadError
  | JsLnDecodeError
  | JsSeedGenerationFailed
  | JsInvalidMnemonic
  | JsWalletOperationFailed
  | JsWalletSigningFailed
  | JsChainAccessFailed
  | JsJsonReadWriteError
  | JsPubkeyInvalid
  | JsBitcoinPriceError
  | JsBadAmountError
  | JsDLCManagerError
  | JsUnknownError

text \<open>\<open>MutinyError::read_err\<close>.\<close>

definition read_err :: "MutinyStorageError \<Rightarrow> MutinyError" where
  "read_err e = ReadError e"

section \<open>Conversions into MutinyError\<close>

fun mutiny_of_bdk :: "BdkError \<Rightarrow> MutinyError" where
  "mutiny_of_bdk BdkSigner = WalletSigningFailed"
| "mutiny_of_bdk _ = WalletOperationFailed"

definition mutiny_of_decode :: "DecodeError \<Rightarrow> MutinyError" where
  "mutiny_of_decode _ = LnDecodeError"

definition mutiny_of_esplora :: "EsploraError \<Rightarrow> MutinyError" where
  "mutiny_of_esplora _ = ChainAccessFailed"

definition mutiny_of_parse :: "ParseOrSemanticError \<Rightarrow> MutinyError" where
  "mutiny_of_parse _ = InvoiceInvalid"

definition mutiny_of_peer :: "PeerHandleError \<Rightarrow> MutinyError" where
  "mutiny_of_peer _ = ConnectionFailed"

fun mutiny_of_payment :: "PaymentError \<Rightarrow> MutinyError" where
  "mutiny_of_payment PaymentInvoice = InvoiceInvalid"
| "mutiny_of_payment PaymentRouting = RoutingFailed"
| "mutiny_of_payment PaymentSending = RoutingFailed"

definition mutiny_of_io :: "IoError \<Rightarrow> MutinyError" where
  "mutiny_of_io _ = PersistenceFailed OtherStorageError"

text \<open>The \<open>#[from]\<close> attributes: a storage error, and an \<open>anyhow\<close> error.\<close>

definition mutiny_of_storage :: "MutinyStorageError \<Rightarrow> MutinyError" where
  "mutiny_of_storage e = PersistenceFailed e"

definition mutiny_of_anyhow :: "MutinyError" where
  "mutiny_of_anyhow = Other"

text \<open>
  A storage error as \<open>bdk\<close> sees it; \<open>show_gloo\<close> and \<open>show_serde\<close> stand for the
  messages of the third-party errors.
\<close>

fun bdk_of_storage :: "(GlooError \<Rightarrow> string) \<Rightarrow> string \<Rightarrow> MutinyStorageError \<Rightarrow> BdkError" where
  "bdk_of_storage show_gloo show_serde (StorageError e) = BdkGeneric (''Storage error: '' @ show_gloo e)"
| "bdk_of_storage show_gloo show_serde SerdeError = BdkGeneric (''Serde error: '' @ show_serde)"
| "bdk_of_storage show_gloo show_serde OtherStorageError = BdkGeneric ''Unexpected Mutiny storage Error''"

section \<open>What the browser sees\<close>

fun js_of_mutiny :: "MutinyError \<Rightarrow> MutinyJsError" where
  "js_of_mutiny AlreadyRunning = JsAlreadyRunning"
| "js_of_mutiny NotRunning = JsNotRunning"
| "js_of_mutiny FundingTxCreationFailed = JsFundingTxCreationFailed"
| "js_of_mutiny ConnectionFailed = JsConnectionFailed"
| "js_of_mutiny IncorrectNetwork = JsIncorrectNetwork"
| "js_of_mutiny NonUniquePaymentHash = JsNonUniquePaymentHash"
| "js_of_mutiny InvoiceInvalid = JsInvoiceInvalid"
| "js_of_mutiny InvoiceCreationFailed = JsInvoiceCreationFailed"
| "js_of_mutiny RoutingFailed = JsRoutingFailed"
| "js_of_mutiny PeerInfoParseFailed = JsPeerInfoParseFailed"
| "js_of_mutiny ChannelCreationFailed = JsChannelCreationFailed"
| "js_of_mutiny ChannelClosingFailed = JsChannelClosingFailed"
| "js_of_mutiny (PersistenceFailed _) = JsPersistenceFailed"
| "js_of_mutiny (ReadError _) = JsReadError"
| "js_of_mutiny LnDecodeError = JsLnDecodeError"
| "js_of_mutiny SeedGenerationFailed = JsSeedGenerationFailed"
| "js_of_mutiny InvalidMnemonic = JsInvalidMnemonic"
| "js_of_mutiny WalletOperationFailed = JsWalletOperationFailed"
| "js_of_mutiny WalletSigningFailed = JsWalletSigningFailed"
| "js_of_mutiny ChainAccessFailed = JsChainAccessFailed"
| "js_of_mutiny DLCManagerError = JsDLCManagerError"
| "js_of_mutiny Other = JsUnknownError"

text \<open>The errors converted directly: JSON, addresses and hex, payments, chain, invoices, price.\<close>

datatype JsSource =
    FromSerdeWasm
  | FromAddress
  | FromHex
  | FromPayment PaymentError
  | FromEsplora EsploraError
  | FromParse ParseOrSemanticError
  | FromReqwest

fun js_of_source :: "JsSource \<Rightarrow> MutinyJsError" where
  "js_of_source FromSerdeWasm = JsJsonReadWriteError"
| "js_of_source FromAddress = JsJsonReadWriteError"
| "js_of_source FromHex = JsJsonReadWriteError"
| "js_of_source (FromPayment e) = js_of_mutiny (mutiny_of_payment e)"
| "js_of_source (FromEsplora _) = JsChainAccessFailed"
| "js_of_source (FromParse _) = JsInvoiceInvalid"
| "js_of_source FromReqwest = JsBitcoinPriceError"

text \<open>\<open>Display\<close> of \<open>MutinyJsError\<close>, which is the \<open>JsValue\<close> the frontend catches.\<close>

fun js_message :: "MutinyJsError \<Rightarrow> string" where
  "js_message JsAlreadyRunning = ''Mutiny is already running.''"
| "js_message JsNotRunning = ''Mutiny is not running.''"
| "js_message JsFundingTxCreationFailed = ''Funding transaction could not be created.''"
| "js_message JsConnectionFailed = ''Network connection closed.''"
| "js_message JsIncorrectNetwork = ''The invoice or address is on a different network.''"
| "js_message JsNonUniquePaymentHash = ''An invoice must not get payed twice.''"
| "js_message JsInvoiceInvalid = ''The given invoice is invalid.''"
| "js_message JsInvoiceCreationFailed = ''Failed to create invoice.''"
| "js_message JsRoutingFailed = ''Failed to find route.''"
| "js_message JsPeerInfoParseFailed = ''Failed to parse the given peer information.''"
| "js_message JsChannelCreationFailed = ''Failed to create channel.''"
| "js_message JsChannelClosingFailed = ''Failed to close channel.''"
| "js_message JsPersistenceFailed = ''Failed to persist data.''"
| "js_message JsReadError = ''Failed to read data from storage.''"
| "js_message JsLnDecodeError = ''Failed to decode lightning data.''"
| "js_message JsSeedGenerationFailed = ''Failed to generate seed''"
| "js_message JsInvalidMnemonic = ''Invalid mnemonic''"
| "js_message JsWalletOperationFailed = ''Failed to conduct wallet operation.''"
| "js_message JsWalletSigningFailed = ''Failed to sign given transaction.''"
| "js_message JsChainAccessFailed = ''Failed to conduct chain access operation.''"
| "js_message JsJsonReadWriteError = ''Failed to read or write json from the front end''"
| "js_message JsPubkeyInvalid = ''The given node pubkey is invalid.''"
| "js_message JsBitcoinPriceError = ''Failed to get the bitcoin price.''"
| "js_message JsBadAmountError = ''Failed to convert to satoshis''"
| "js_message JsDLCManagerError = ''Failed to execute a dlc function''"
| "js_message JsUnknownError = ''Unknown Error''"

section \<open>Properties\<close>

definition js_errors :: "MutinyJsError list" where
  "js_errors = [JsAlreadyRunning,
    JsNotRunning,
    JsFundingTxCreationFailed,
    JsConnectionFailed,
    JsIncorrectNetwork,
    JsNonUniquePaymentHash,
    JsInvoiceInvalid,
    JsInvoiceCreationFailed,
    JsRoutingFailed,
    JsPeerInfoParseFailed,
    JsChannelCreationFailed,
    JsChannelClosingFailed,
    JsPersistenceFailed,
    JsReadError,
    JsLnDecodeError,
    JsSeedGenerationFailed,
    JsInvalidMnemonic,
    JsWalletOperationFailed,
    JsWalletSigningFailed,
    JsChainAccessFailed,
    JsJsonReadWriteError,
    JsPubkeyInvalid,
    JsBitcoinPriceError,
    JsBadAmountError,
    JsDLCManagerError,
    JsUnknownError]"

lemma js_errors_all: "e \<in> set js_errors"
  by (cases e) (simp_all add: js_errors_def)

lemma js_messages_distinct: "distinct (map js_message js_errors)"
  by code_simp

lemma js_message_inj [simp]: "js_message a = js_message b \<longleftrightarrow> a = b"
  using js_messages_distinct js_errors_all by (auto simp: distinct_map inj_on_def)

lemma js_of_mutiny_eq_source:
  "js_of_mutiny a = js_of_mutiny b \<longleftrightarrow>
     (case a of PersistenceFailed _ \<Rightarrow> (case b of PersistenceFailed _ \<Rightarrow> True | _ \<Rightarrow> False)
      | ReadError _ \<Rightarrow> (case b of ReadError _ \<Rightarrow> True | _ \<Rightarrow> False)
      | _ \<Rightarrow> a = b)"
  by (cases a) (cases b; simp)+

text \<open>Two errors of the library reach the frontend as the same message exactly when they
  are the same error up to the storage error inside a persistence or read failure.\<close>

theorem js_message_identifies:
  "js_message (js_of_mutiny a) = js_message (js_of_mutiny b) \<longleftrightarrow>
     a = b \<or> (\<exists>s t. a = PersistenceFailed s \<and> b = PersistenceFailed t) \<or>
     (\<exists>s t. a = ReadError s \<and> b = ReadError t)"
  by (auto simp: js_of_mutiny_eq_source split: MutinyError.splits)

end
