(* ===== verification/Encrypt.thy ===== *)
theory Encrypt
  imports Prelude
begin

text \<open>
  \<open>node-manager/src/encrypt.rs\<close>: the password encryption of everything the wallet keeps
  in the browser. The ciphers, the key derivation, base64 and the operating system's
  random bytes are parameters, fields of \<open>crypto\<close>; \<open>crypto_ok\<close> states what their
  documentation promises. Random bytes are drawn by number, so a program carries the
  count of draws it has made.
\<close>

record crypto =
  os_fill :: "nat \<Rightarrow> nat \<Rightarrow> bytes"
  salt_b64 :: "bytes \<Rightarrow> string option"
  pbkdf2_hash :: "nat \<Rightarrow> nat \<Rightarrow> bytes \<Rightarrow> string \<Rightarrow> bytes option"
  aes_encrypt :: "bytes \<Rightarrow> bytes \<Rightarrow> bytes \<Rightarrow> bytes option"
  aes_decrypt :: "bytes \<Rightarrow> bytes \<Rightarrow> bytes \<Rightarrow> bytes option"
  base64_encode :: "bytes \<Rightarrow> string"
  base64_decode :: "string \<Rightarrow> bytes option"

definition crypto_ok :: "'x crypto_scheme \<Rightarrow> bool" where
  "crypto_ok C \<longleftrightarrow>
     (\<forall>i n. length (os_fill C i n) = n) \<and>
     (\<forall>b. base64_decode C (base64_encode C b) = Some b) \<and>
     (\<forall>k n m c. aes_encrypt C k n m = Some c \<longrightarrow> aes_decrypt C k n c = Some m)"

text \<open>
  These functions return a \<open>String\<close> or key, not a \<open>Result\<close>: they have no error value and
  every failure inside them is an \<open>unwrap\<close>, \<open>expect\<close> or slice out of range. \<open>None\<close> is
  that panic.
\<close>

definition derive_key :: "'x crypto_scheme \<Rightarrow> string \<Rightarrow> bytes \<Rightarrow> bytes option" where
  "derive_key C password salt =
     Option.bind (salt_b64 C salt) (\<lambda>salt_string.
     pbkdf2_hash C 2048 32 (as_bytes password) salt_string)"

text \<open>\<open>Aes256Gcm::new_from_slice(key).unwrap()\<close>.\<close>

definition new_from_slice :: "bytes \<Rightarrow> bytes option" where
  "new_from_slice key = (if length key = 32 then Some key else None)"

text \<open>
  \<open>draws\<close> random fills have been made before; this makes two more, of 16 and 12 bytes.
\<close>

definition encrypt :: "'x crypto_scheme \<Rightarrow> nat \<Rightarrow> string \<Rightarrow> string \<Rightarrow> string option" where
  "encrypt C draws content password =
     (let salt = os_fill C draws 16 in
      Option.bind (derive_key C password salt) (\<lambda>key.
      let iv = os_fill C (Suc draws) 12 in
      Option.bind (new_from_slice key) (\<lambda>cipher.
      Option.bind (aes_encrypt C cipher iv (as_bytes content)) (\<lambda>bytes.
      Some (base64_encode C (salt @ iv @ bytes))))))"

definition decrypt :: "'x crypto_scheme \<Rightarrow> string \<Rightarrow> string \<Rightarrow> string option" where
  "decrypt C encrypted password =
     Option.bind (base64_decode C encrypted) (\<lambda>buffer.
     if length buffer < 28 then None
     else
       let salt = take 16 buffer; iv = take 12 (drop 16 buffer); data = drop 28 buffer in
       Option.bind (derive_key C password salt) (\<lambda>key.
       Option.bind (new_from_slice key) (\<lambda>cipher.
       Option.bind (aes_decrypt C cipher iv data) (\<lambda>decrypted.
       if utf8_valid decrypted then Some (of_bytes decrypted) else None))))"

section \<open>Properties\<close>

lemma new_from_slice_iff [simp]: "new_from_slice key = Some c \<longleftrightarrow> c = key \<and> length key = 32"
  by (auto simp: new_from_slice_def)

lemma encrypt_Some_iff:
  "encrypt C d content pw = Some e \<longleftrightarrow>
     (\<exists>key data. derive_key C pw (os_fill C d 16) = Some key \<and> length key = 32 \<and>
        aes_encrypt C key (os_fill C (Suc d) 12) (as_bytes content) = Some data \<and>
        e = base64_encode C (os_fill C d 16 @ os_fill C (Suc d) 12 @ data))"
  by (auto simp: encrypt_def Let_def bind_eq_Some_conv)

text \<open>
  \<open>decrypt\<close> returns a text exactly when the input is base64 of at least 28 bytes, the
  key derived from the password and the stored salt is 32 bytes long, and the cipher accepts
  the data under it with well-formed UTF-8 inside; in every other case (a wrong password, a
  text that is no ciphertext) it panics, it never returns some other text.
\<close>

theorem decrypt_Some_iff:
  "decrypt C s pw = Some c \<longleftrightarrow>
     (\<exists>buffer key. base64_decode C s = Some buffer \<and> 28 \<le> length buffer \<and>
        derive_key C pw (take 16 buffer) = Some key \<and> length key = 32 \<and>
        aes_decrypt C key (take 12 (drop 16 buffer)) (drop 28 buffer) = Some (as_bytes c) \<and>
        utf8_valid (as_bytes c))"
proof
  assume "decrypt C s pw = Some c"
  then show "\<exists>buffer key. base64_decode C s = Some buffer \<and> 28 \<le> length buffer \<and>
      derive_key C pw (take 16 buffer) = Some key \<and> length key = 32 \<and>
      aes_decrypt C key (take 12 (drop 16 buffer)) (drop 28 buffer) = Some (as_bytes c) \<and>
      utf8_valid (as_bytes c)"
    by (auto simp: decrypt_def Let_def bind_eq_Some_conv split: if_splits)
qed (auto simp: decrypt_def Let_def new_from_slice_def)

lemma decrypt_encrypt:
  assumes "crypto_ok C" and "utf8_valid (as_bytes content)"
    and "encrypt C draws content password = Some e"
  shows "decrypt C e password = Some content"
proof -
  from assms(3) obtain key data where
    key: "derive_key C password (os_fill C draws 16) = Some key"
    and len: "length key = 32"
    and enc: "aes_encrypt C key (os_fill C (Suc draws) 12) (as_bytes content) = Some data"
    and e: "e = base64_encode C (os_fill C draws 16 @ os_fill C (Suc draws) 12 @ data)"
    by (auto simp: encrypt_Some_iff)
  have "length (os_fill C draws 16) = 16" "length (os_fill C (Suc draws) 12) = 12"
    and "aes_decrypt C key (os_fill C (Suc draws) 12) data = Some (as_bytes content)"
    and "base64_decode C e = Some (os_fill C draws 16 @ os_fill C (Suc draws) 12 @ data)"
    using assms(1) enc e by (auto simp: crypto_ok_def)
  then show ?thesis
    by (simp add: decrypt_def Let_def key new_from_slice_def len assms(2))
qed

text \<open>
  What \<open>encrypt\<close> produces, \<open>decrypt\<close> with the same password gives back, for every
  salt and nonce the operating system hands out; the text is the base64 of the 16 byte salt, the
  12 byte nonce and the ciphertext.
\<close>

theorem encrypt_round_trip:
  assumes "crypto_ok C" and "utf8_valid (as_bytes content)"
    and "encrypt C draws content password = Some e"
  shows "decrypt C e password = Some content \<and>
    (\<exists>salt nonce data. length salt = 16 \<and> length nonce = 12 \<and>
       base64_decode C e = Some (salt @ nonce @ data))"
proof -
  have "\<exists>salt nonce data. length salt = 16 \<and> length nonce = 12 \<and>
      base64_decode C e = Some (salt @ nonce @ data)"
    using assms(1,3) by (force simp: encrypt_Some_iff crypto_ok_def)
  then show ?thesis using decrypt_encrypt [OF assms] by simp
qed

section \<open>A concrete instance\<close>

text \<open>
  An instance of the parameters that satisfies \<open>crypto_ok\<close>, for the witnesses: the key
  is the padded password and salt, the cipher prepends the key and checks it.
\<close>

definition demo_crypto :: crypto where
  "demo_crypto = \<lparr>
     os_fill = (\<lambda>i n. replicate n (of_nat i)),
     salt_b64 = (\<lambda>s. Some (of_bytes s)),
     pbkdf2_hash = (\<lambda>r n pw s. Some (take n (pw @ as_bytes s @ replicate n 0))),
     aes_encrypt = (\<lambda>k n m. Some (k @ m)),
     aes_decrypt = (\<lambda>k n c. if take (length k) c = k then Some (drop (length k) c) else None),
     base64_encode = (\<lambda>b. CHR ''x'' # of_bytes b),
     base64_decode = (\<lambda>s. case s of c # cs \<Rightarrow> if c = CHR ''x'' then Some (as_bytes cs) else None | [] \<Rightarrow> None)\<rparr>"

lemma demo_crypto_ok: "crypto_ok demo_crypto"
  by (simp add: crypto_ok_def demo_crypto_def)

lemma demo_encrypt_Some: "\<exists>e. encrypt demo_crypto d content pw = Some e"
proof -
  obtain key where "derive_key demo_crypto pw (os_fill demo_crypto d 16) = Some key" "length key = 32"
    by (simp add: derive_key_def demo_crypto_def)
  moreover have "aes_encrypt demo_crypto key n m = Some (key @ m)" for n m
    by (simp add: demo_crypto_def)
  ultimately show ?thesis unfolding encrypt_Some_iff by blast
qed

lemma encrypt_round_trip_witness:
  "\<exists>e. encrypt demo_crypto 5 ''hi'' ''pw'' = Some e \<and> decrypt demo_crypto e ''pw'' = Some ''hi''"
proof -
  have v: "utf8_valid (as_bytes ''hi'')"
    by (rule utf8_valid_ascii) (simp add: as_bytes_def)
  obtain e where e: "encrypt demo_crypto 5 ''hi'' ''pw'' = Some e"
    using demo_encrypt_Some by blast
  from encrypt_round_trip [OF demo_crypto_ok v e] e show ?thesis by blast
qed

end
