(* ===== verification/LocalStorage.thy ===== *)
theory LocalStorage
  imports Errors Encrypt
begin

text \<open>
  \<open>node-manager/src/localstorage.rs\<close>: the typed key/value store over the browser's local
  storage, with the password encryption of \<^theory_text>\<open>Encrypt\<close> on top. The browser's storage is
  the list of its items (key and stored text) in index order; \<open>serde_json\<close> is a codec per
  type and the BIP39 word list a pair of functions, parameters whose documented laws are
  \<open>codec_ok\<close> and \<open>web_ok\<close>. The locales state what a typed table over the store promises to
  the components that keep their data in it.
\<close>

section \<open>The browser\<close>

record 'a codec =
  to_json :: "'a \<Rightarrow> string option"
  from_json :: "string \<Rightarrow> 'a option"

definition codec_ok :: "'a codec \<Rightarrow> bool" where
  "codec_ok c \<longleftrightarrow> (\<forall>v s. to_json c v = Some s \<longrightarrow> from_json c s = Some v \<and> utf8_valid (as_bytes s))"

text \<open>
  \<open>items\<close>: the stored texts in index order. \<open>draws\<close>: how many random fills were made.
\<close>

record browser =
  items :: "(string \<times> string) list"
  draws :: nat

text \<open>\<open>NodeIndex\<close> and \<open>NodeStorage\<close>, the list of nodes kept by the wallet.\<close>

record NodeIndex =
  node_uuid :: string
  child_index :: u32

record NodeStorage =
  ns_nodes :: "(string \<times> NodeIndex) list"

datatype Mnemonic = Mnemonic (entropy: bytes)

text \<open>
  \<open>accepts\<close>: whether \<open>setItem\<close> stores a text (it throws when the quota is exceeded).
  An \<open>f64\<close> is its 64 bits.
\<close>

type_synonym f64 = "64 word"

record web = crypto +
  accepts :: "(string \<times> string) list \<Rightarrow> string \<Rightarrow> string \<Rightarrow> bool"
  json_string :: "string codec"
  json_nodes :: "NodeStorage codec"
  json_fees :: "(string \<times> f64) list codec"
  mnemonic_to_string :: "Mnemonic \<Rightarrow> string"
  mnemonic_from_str :: "string \<Rightarrow> Mnemonic option"

definition web_ok :: "'x web_scheme \<Rightarrow> bool" where
  "web_ok W \<longleftrightarrow> crypto_ok W \<and> codec_ok (json_string W) \<and> codec_ok (json_nodes W) \<and>
     codec_ok (json_fees W) \<and> (\<forall>m. mnemonic_from_str W (mnemonic_to_string W m) = Some m)"

definition raw_item :: "browser \<Rightarrow> string \<Rightarrow> string option" where
  "raw_item b key = map_of (items b) key"

text \<open>\<open>LocalStorage::get\<close>, \<open>set\<close> and \<open>delete\<close> of \<open>gloo_storage\<close>.\<close>

definition ls_get :: "'a codec \<Rightarrow> string \<Rightarrow> browser \<Rightarrow> ('a, GlooError) result" where
  "ls_get c key b =
     (case raw_item b key of
        None \<Rightarrow> Err (KeyNotFound key)
      | Some text \<Rightarrow> (case from_json c text of None \<Rightarrow> Err GlooSerdeError | Some v \<Rightarrow> Ok v))"

definition ls_set :: "'x web_scheme \<Rightarrow> 'a codec \<Rightarrow> string \<Rightarrow> 'a \<Rightarrow> (browser, unit, GlooError) prog" where
  "ls_set W c key v b =
     (case to_json c v of
        None \<Rightarrow> (Err GlooSerdeError, b)
      | Some text \<Rightarrow>
          if accepts W (items b) key text
          then (Ok (), b\<lparr>items := AList.update key text (items b)\<rparr>)
          else (Err GlooJsError, b))"

definition ls_delete :: "string \<Rightarrow> browser \<Rightarrow> browser" where
  "ls_delete key b = b\<lparr>items := AList.delete key (items b)\<rparr>"

section \<open>MutinyBrowserStorage\<close>

record MutinyBrowserStorage =
  password :: string

definition mnemonic_key :: string where "mnemonic_key = ''mnemonic''"
definition nodes_key :: string where "nodes_key = ''nodes''"
definition fee_estimates_key :: string where "fee_estimates_key = ''fee_estimates''"

definition mbs_set ::
  "'x web_scheme \<Rightarrow> 'a codec \<Rightarrow> MutinyBrowserStorage \<Rightarrow> string \<Rightarrow> 'a \<Rightarrow>
   (browser, unit, MutinyStorageError) prog" where
  "mbs_set W c self key value b =
     (case to_json c value of
        None \<Rightarrow> (Err SerdeError, b)
      | Some data \<Rightarrow>
          if password self = [] then pmap_err StorageError (ls_set W (json_string W) key data) b
          else (case encrypt W (draws b) data (password self) of
                  None \<Rightarrow> (Panic, b)
                | Some ciphertext \<Rightarrow>
                    pmap_err StorageError (ls_set W (json_string W) key ciphertext)
                      (b\<lparr>draws := draws b + 2\<rparr>)))"

definition mbs_get ::
  "'x web_scheme \<Rightarrow> 'a codec \<Rightarrow> MutinyBrowserStorage \<Rightarrow> string \<Rightarrow> browser \<Rightarrow>
   ('a, MutinyStorageError) result" where
  "mbs_get W c self key b =
     and_then (map_err StorageError (ls_get (json_string W) key b)) (\<lambda>data.
     if password self = [] then
       (case from_json c data of None \<Rightarrow> Err SerdeError | Some v \<Rightarrow> Ok v)
     else
       and_then (of_option (decrypt W data (password self))) (\<lambda>decrypted_data.
       case from_json c decrypted_data of None \<Rightarrow> Err SerdeError | Some v \<Rightarrow> Ok v))"

definition mbs_delete :: "string \<Rightarrow> browser \<Rightarrow> browser" where
  "mbs_delete key b = ls_delete key b"

text \<open>
  \<open>scan\<close> walks the storage by index and reads every key of the given prefix and suffix; a
  value that cannot be read makes it panic (the \<open>unwrap\<close> in the loop; \<open>None\<close>, since the
  function returns a map and no \<open>Result\<close>).
\<close>

definition scan_matches :: "string \<Rightarrow> string option \<Rightarrow> string \<Rightarrow> bool" where
  "scan_matches prefix suffix key \<longleftrightarrow>
     starts_with key prefix \<and> (case suffix of None \<Rightarrow> True | Some s \<Rightarrow> ends_with key s)"

fun scan_loop ::
  "'x web_scheme \<Rightarrow> 'a codec \<Rightarrow> MutinyBrowserStorage \<Rightarrow> string \<Rightarrow> string option \<Rightarrow> browser \<Rightarrow>
   string list \<Rightarrow> (string \<times> 'a) list \<Rightarrow> (string \<times> 'a) list option" where
  "scan_loop W c self prefix suffix b [] m = Some m"
| "scan_loop W c self prefix suffix b (key # keys) m =
    (if scan_matches prefix suffix key then
       (case mbs_get W c self key b of
          Ok value \<Rightarrow> scan_loop W c self prefix suffix b keys (AList.update key value m)
        | _ \<Rightarrow> None)
     else scan_loop W c self prefix suffix b keys m)"

definition mbs_scan ::
  "'x web_scheme \<Rightarrow> 'a codec \<Rightarrow> MutinyBrowserStorage \<Rightarrow> string \<Rightarrow> string option \<Rightarrow> browser \<Rightarrow>
   (string \<times> 'a) list option" where
  "mbs_scan W c self prefix suffix b =
     scan_loop W c self prefix suffix b (map fst (items b)) []"

definition insert_mnemonic ::
  "'x web_scheme \<Rightarrow> MutinyBrowserStorage \<Rightarrow> Mnemonic \<Rightarrow> (browser, Mnemonic, 'e) prog" where
  "insert_mnemonic W self mnemonic b =
     (case mbs_set W (json_string W) self mnemonic_key (mnemonic_to_string W mnemonic) b of
        (Ok _, b') \<Rightarrow> (Ok mnemonic, b')
      | (_, b') \<Rightarrow> (Panic, b'))"

definition get_mnemonic ::
  "'x web_scheme \<Rightarrow> MutinyBrowserStorage \<Rightarrow> browser \<Rightarrow> (Mnemonic, MutinyStorageError) result" where
  "get_mnemonic W self b =
     (case mbs_get W (json_string W) self mnemonic_key b of
        Ok str \<Rightarrow> of_option (mnemonic_from_str W str)
      | Err e \<Rightarrow> Err e
      | Panic \<Rightarrow> Panic)"

definition has_mnemonic :: "'x web_scheme \<Rightarrow> browser \<Rightarrow> bool" where
  "has_mnemonic W b = (case ls_get (json_string W) mnemonic_key b of Ok _ \<Rightarrow> True | _ \<Rightarrow> False)"

definition delete_mnemonic :: "browser \<Rightarrow> browser" where
  "delete_mnemonic b = ls_delete mnemonic_key b"

definition get_nodes :: "'x web_scheme \<Rightarrow> browser \<Rightarrow> (NodeStorage, MutinyStorageError) result" where
  "get_nodes W b =
     (case ls_get (json_nodes W) nodes_key b of
        Ok k \<Rightarrow> Ok k
      | Err (KeyNotFound _) \<Rightarrow> Ok \<lparr>ns_nodes = []\<rparr>
      | Err e \<Rightarrow> Err (StorageError e)
      | Panic \<Rightarrow> Panic)"

definition insert_nodes :: "'x web_scheme \<Rightarrow> NodeStorage \<Rightarrow> (browser, unit, MutinyStorageError) prog" where
  "insert_nodes W ns = pmap_err StorageError (ls_set W (json_nodes W) nodes_key ns)"

definition get_fee_estimates ::
  "'x web_scheme \<Rightarrow> browser \<Rightarrow> ((string \<times> f64) list, MutinyStorageError) result" where
  "get_fee_estimates W b = map_err StorageError (ls_get (json_fees W) fee_estimates_key b)"

definition insert_fee_estimates ::
  "'x web_scheme \<Rightarrow> (string \<times> f64) list \<Rightarrow> (browser, unit, MutinyStorageError) prog" where
  "insert_fee_estimates W fees = pmap_err StorageError (ls_set W (json_fees W) fee_estimates_key fees)"

section \<open>What a typed table promises\<close>

text \<open>
  A table of values under the keys \<open>key k\<close> of the store: \<open>put\<close> stores under its own key
  only and leaves the store alone when it fails, \<open>get\<close> depends on its own key only, \<open>del\<close>
  removes its own key. \<open>contract\<close> is what the third-party parameters must satisfy for a
  stored value to read back.
\<close>

locale kv_table =
  fixes contract :: bool
    and raw :: "'s \<Rightarrow> string \<Rightarrow> string option"
    and key :: "'k \<Rightarrow> string"
    and put :: "'k \<Rightarrow> 'v \<Rightarrow> ('s, unit, 'e) prog"
    and get :: "'k \<Rightarrow> 's \<Rightarrow> ('v, 'e) result"
    and del :: "'k \<Rightarrow> 's \<Rightarrow> 's"
  assumes put_get: "contract \<Longrightarrow> put k v s = (Ok (), s') \<Longrightarrow> get k s' = Ok v"
    and put_frame: "put k v s = (r, s') \<Longrightarrow> x \<noteq> key k \<Longrightarrow> raw s' x = raw s x"
    and put_fail: "put k v s = (r, s') \<Longrightarrow> r \<noteq> Ok () \<Longrightarrow> raw s' = raw s"
    and get_cong: "raw s (key k) = raw s' (key k) \<Longrightarrow> get k s = get k s'"
    and get_absent: "raw s (key k) = None \<Longrightarrow> \<exists>e. get k s = Err e"
    and del_raw: "raw (del k s) x = (if x = key k then None else raw s x)"
begin

lemma put_get_other:
  "put k v s = (r, s') \<Longrightarrow> key k' \<noteq> key k \<Longrightarrow> get k' s' = get k' s"
  by (intro get_cong) (simp add: put_frame)

lemma put_fail_get: "put k v s = (r, s') \<Longrightarrow> r \<noteq> Ok () \<Longrightarrow> get k' s' = get k' s"
  by (intro get_cong) (simp add: put_fail)

lemma del_get: "\<exists>e. get k (del k s) = Err e"
  by (rule get_absent) (simp add: del_raw)

lemma del_get_other: "key k' \<noteq> key k \<Longrightarrow> get k' (del k s) = get k' s"
  by (intro get_cong) (simp add: del_raw)

lemma put_put_get:
  assumes contract "put k v s = (Ok (), s')" "put k' v' s' = (Ok (), s'')" "key k' \<noteq> key k"
  shows "get k s'' = Ok v \<and> get k' s'' = Ok v'"
  using assms put_get put_get_other by metis

end

text \<open>
  The same table behind an interface that looks up an option, deletes by taking the old
  value out, and has its own error type: what \<open>bdk\<close> asks of a database.
\<close>

locale taking_table =
  fixes contract :: bool
    and raw :: "'s \<Rightarrow> string \<Rightarrow> string option"
    and key :: "'k \<Rightarrow> string"
    and put :: "'k \<Rightarrow> 'v \<Rightarrow> ('s, unit, 'e) prog"
    and lookup :: "'k \<Rightarrow> 's \<Rightarrow> ('v option, 'e) result"
    and take_out :: "'k \<Rightarrow> ('s, 'v option, 'e) prog"
  assumes put_lookup: "contract \<Longrightarrow> put k v s = (Ok (), s') \<Longrightarrow> lookup k s' = Ok (Some v)"
    and put_frame: "put k v s = (r, s') \<Longrightarrow> x \<noteq> key k \<Longrightarrow> raw s' x = raw s x"
    and put_fail: "put k v s = (r, s') \<Longrightarrow> r \<noteq> Ok () \<Longrightarrow> raw s' = raw s"
    and lookup_cong: "raw s (key k) = raw s' (key k) \<Longrightarrow> lookup k s = lookup k s'"
    and lookup_absent: "raw s (key k) = None \<Longrightarrow> lookup k s = Ok None"
    and take_result: "fst (take_out k s) = lookup k s"
    and take_raw: "take_out k s = (Ok old, s') \<Longrightarrow> raw s' x = (if x = key k then None else raw s x)"
    and take_fail: "take_out k s = (t, s') \<Longrightarrow> (\<And>old. t \<noteq> Ok old) \<Longrightarrow> raw s' = raw s"
begin

lemma put_lookup_other:
  "put k v s = (r, s') \<Longrightarrow> key k' \<noteq> key k \<Longrightarrow> lookup k' s' = lookup k' s"
  by (intro lookup_cong) (simp add: put_frame)

lemma take_lookup:
  assumes "take_out k s = (Ok old, s')"
  shows "lookup k s = Ok old" and "lookup k s' = Ok None"
  using take_result [of k s] take_raw [OF assms, of "key k"] assms by (auto intro: lookup_absent)

lemma take_lookup_other:
  assumes "take_out k s = (r, s')" "key k' \<noteq> key k"
  shows "lookup k' s' = lookup k' s"
proof (rule lookup_cong)
  show "raw s' (key k') = raw s (key k')"
  proof (cases r)
    case (Ok v)
    with assms show ?thesis by (simp add: take_raw)
  next
    case Err
    with assms(1) take_fail show ?thesis by (metis result.distinct(1))
  next
    case Panic
    with assms(1) take_fail show ?thesis by (metis result.distinct(3))
  qed
qed

text \<open>What was stored last is what is taken out, once.\<close>

lemma put_take:
  assumes contract "put k v s = (Ok (), s')"
  obtains s'' where "take_out k s' = (Ok (Some v), s'')" "lookup k s'' = Ok None"
proof -
  obtain r s'' where t: "take_out k s' = (r, s'')" by fastforce
  have "r = Ok (Some v)"
    using take_result [of k s'] put_lookup [OF assms] t by simp
  with t that take_lookup show ?thesis by blast
qed

end

definition take_with ::
  "('k \<Rightarrow> 's \<Rightarrow> ('v, 'e) result) \<Rightarrow> ('k \<Rightarrow> 's \<Rightarrow> 's) \<Rightarrow> 'k \<Rightarrow> ('s, 'v option, 'f) prog" where
  "take_with get del k s =
     (case ok_of (get k s) of Ok v \<Rightarrow> (Ok v, del k s) | Err e \<Rightarrow> (Err e, s) | Panic \<Rightarrow> (Panic, s))"

locale kv_table_for = kv_table contract raw key put get del
  for contract :: bool
    and raw :: "'s \<Rightarrow> string \<Rightarrow> string option"
    and key :: "'k \<Rightarrow> string"
    and put :: "'k \<Rightarrow> 'v \<Rightarrow> ('s, unit, 'e) prog"
    and get :: "'k \<Rightarrow> 's \<Rightarrow> ('v, 'e) result"
    and del :: "'k \<Rightarrow> 's \<Rightarrow> 's" +
  fixes conv :: "'e \<Rightarrow> 'f"

sublocale kv_table_for \<subseteq> taking: taking_table contract raw key
  "\<lambda>k v. pmap_err conv (put k v)" "\<lambda>k s. ok_of (get k s)" "take_with get del"
proof (unfold_locales, goal_cases)
  case (1 k v s s')
  then show ?case using put_get by simp
next
  case (2 k v s r s' x)
  then show ?case by (auto simp: pmap_err_def split: prod.splits dest: put_frame)
next
  case (3 k v s r s')
  then obtain r' where "put k v s = (r', s')" "r' \<noteq> Ok ()"
    by (auto simp: pmap_err_def split: prod.splits)
  then show ?case by (rule put_fail)
next
  case (4 s k s')
  then show ?case using get_cong by metis
next
  case (5 s k)
  then obtain e where "get k s = Err e" using get_absent by blast
  then show ?case by simp
next
  case (6 k s)
  show ?case by (simp add: take_with_def split: result.split)
next
  case (7 k s old s' x)
  then show ?case by (auto simp: take_with_def del_raw split: result.splits)
next
  case (8 k s t s')
  then show ?case
    by (cases "get k s") (auto simp: take_with_def)
qed

section \<open>The browser storage is such a table\<close>

lemma raw_item_update [simp]:
  "raw_item (b\<lparr>items := AList.update k t (items b)\<rparr>) x = (if x = k then Some t else raw_item b x)"
  by (simp add: raw_item_def)

lemma raw_item_draws [simp]: "raw_item (b\<lparr>draws := n\<rparr>) = raw_item b"
  by (simp add: raw_item_def fun_eq_iff)

lemma raw_item_delete [simp]:
  "raw_item (ls_delete k b) x = (if x = k then None else raw_item b x)"
  by (simp add: raw_item_def ls_delete_def AList.delete_conv')

lemma ls_set_cases:
  assumes "ls_set W c key v b = (r, b')"
  obtains (stored) t where "r = Ok ()" "to_json c v = Some t" "raw_item b' = (raw_item b)(key \<mapsto> t)"
      "draws b' = draws b"
    | (failed) "r \<noteq> Ok ()" "r \<noteq> Panic" "b' = b"
  using assms by (auto simp: ls_set_def fun_eq_iff split: option.splits if_splits)

interpretation ls: kv_table "codec_ok c" raw_item "\<lambda>k. k" "ls_set W c" "ls_get c" ls_delete
  for W :: "'x web_scheme" and c :: "'a codec"
proof (unfold_locales, goal_cases)
  case (1 k v s s')
  then show ?case
    by (auto simp: ls_get_def codec_ok_def elim!: ls_set_cases)
qed (auto simp: ls_get_def elim!: ls_set_cases)

lemma mbs_set_cases:
  assumes "mbs_set W c self key v b = (r, b')"
  obtains (stored) data body where "r = Ok ()" "to_json c v = Some data"
      "body = data \<and> password self = [] \<or>
       encrypt W (draws b) data (password self) = Some body \<and> password self \<noteq> []"
      "ls_set W (json_string W) key body
         (if password self = [] then b else b\<lparr>draws := draws b + 2\<rparr>) = (Ok (), b')"
    | (failed) "r \<noteq> Ok ()" "raw_item b' = raw_item b"
proof (cases "to_json c v")
  case None
  with assms have "r = Err SerdeError" "b' = b" by (auto simp: mbs_set_def)
  then show ?thesis by (intro failed) simp_all
next
  case (Some data)
  show ?thesis
  proof (cases "password self = []")
    case True
    obtain r1 b1 where l: "ls_set W (json_string W) key data b = (r1, b1)" by fastforce
    with assms Some True have r: "r = map_err StorageError r1" "b' = b1"
      by (simp_all add: mbs_set_def pmap_err_def)
    show ?thesis
    proof (cases "r1 = Ok ()")
      case True
      with l r Some \<open>password self = []\<close> show ?thesis by (intro stored [of data data]) simp_all
    next
      case False
      with l r show ?thesis by (intro failed) (auto elim: ls_set_cases)
    qed
  next
    case False
    show ?thesis
    proof (cases "encrypt W (draws b) data (password self)")
      case None
      with assms Some False have "r = Panic" "b' = b" by (auto simp: mbs_set_def)
      then show ?thesis by (intro failed) simp_all
    next
      case ct: (Some ct)
      obtain r1 b1 where
        l: "ls_set W (json_string W) key ct (b\<lparr>draws := draws b + 2\<rparr>) = (r1, b1)" by fastforce
      with assms Some ct False have r: "r = map_err StorageError r1" "b' = b1"
        by (simp_all add: mbs_set_def pmap_err_def)
      show ?thesis
      proof (cases "r1 = Ok ()")
        case True
        with l r Some ct False show ?thesis by (intro stored [of data ct]) simp_all
      next
        case False
        with l r show ?thesis by (intro failed) (auto elim: ls_set_cases)
      qed
    qed
  qed
qed

lemma mbs_get_cong: "raw_item b key = raw_item b' key \<Longrightarrow> mbs_get W c self key b = mbs_get W c self key b'"
  by (simp add: mbs_get_def ls_get_def)

text \<open>
  The text stored under the key decides what \<open>mbs_get\<close> returns: \<open>body\<close> is the serialized
  value, or its ciphertext when a password is set.
\<close>

lemma mbs_get_stored:
  assumes "ls_get (json_string W) key b = Ok body"
  shows "mbs_get W c self key b =
    (case if password self = [] then Some body else decrypt W body (password self) of
       None \<Rightarrow> Panic
     | Some data \<Rightarrow> (case from_json c data of None \<Rightarrow> Err SerdeError | Some v \<Rightarrow> Ok v))"
  by (simp add: mbs_get_def assms of_option_def split: option.split)

interpretation mbs: kv_table_for "web_ok W \<and> codec_ok c" raw_item "\<lambda>k. k" "mbs_set W c self"
    "mbs_get W c self" mbs_delete conv
  for W :: "'x web_scheme" and c :: "'a codec" and self :: MutinyBrowserStorage
    and conv :: "MutinyStorageError \<Rightarrow> 'f"
proof (unfold_locales, goal_cases)
  case (1 k v s s')
  from 1(2) show ?case
  proof (cases rule: mbs_set_cases)
    case (stored data body)
    have js: "codec_ok (json_string W)" and cr: "crypto_ok W" and c: "codec_ok c"
      using 1(1) by (simp_all add: web_ok_def)
    have "ls_get (json_string W) k s' = Ok body"
      using ls.put_get [OF js stored(4)] .
    moreover have "(if password self = [] then Some body else decrypt W body (password self)) = Some data"
      using stored(2,3) c decrypt_encrypt [OF cr] by (auto simp: codec_ok_def)
    moreover have "from_json c data = Some v"
      using stored(2) c by (simp add: codec_ok_def)
    ultimately show ?thesis by (simp add: mbs_get_stored)
  qed simp
next
  case (2 k v s r s' x)
  from 2(1) show ?case
  proof (cases rule: mbs_set_cases)
    case (stored data body)
    with ls.put_frame [OF stored(4) 2(2)] show ?thesis by simp
  qed simp
next
  case (3 k v s r s')
  then show ?case by (auto elim: mbs_set_cases)
next
  case (4 s k s')
  then show ?case by (rule mbs_get_cong)
next
  case (5 s k)
  then show ?case by (simp add: mbs_get_def ls_get_def)
next
  case (6 k s x)
  show ?case by (simp add: mbs_delete_def)
qed

section \<open>Scans\<close>

lemma scan_loop_readable:
  assumes "\<forall>k \<in> set keys. scan_matches p sfx k \<longrightarrow> mbs_get W c self k b = Ok (f k)"
  shows "\<exists>m'. scan_loop W c self p sfx b keys m = Some m' \<and>
    (\<forall>x. map_of m' x = (if x \<in> set keys \<and> scan_matches p sfx x then Some (f x) else map_of m x))"
  using assms
proof (induction keys arbitrary: m)
  case (Cons k ks)
  show ?case
  proof (cases "scan_matches p sfx k")
    case True
    with Cons.prems have "mbs_get W c self k b = Ok (f k)" by simp
    with True Cons.IH [of "AList.update k (f k) m"] Cons.prems show ?thesis by (auto split: if_splits)
  next
    case False
    with Cons.IH [of m] Cons.prems show ?thesis by (auto split: if_splits)
  qed
qed simp

lemma scan_loop_unreadable:
  assumes "k \<in> set keys" "scan_matches p sfx k" "\<And>v. mbs_get W c self k b \<noteq> Ok v"
  shows "scan_loop W c self p sfx b keys m = None"
  using assms
proof (induction keys arbitrary: m)
  case (Cons a ks)
  show ?case
  proof (cases "k = a")
    case True
    with Cons.prems show ?thesis by (cases "mbs_get W c self a b") auto
  next
    case False
    with Cons show ?thesis by (cases "mbs_get W c self a b") auto
  qed
qed simp

lemma scan_loop_distinct:
  "scan_loop W c self p sfx b keys m = Some m' \<Longrightarrow> distinct (map fst m) \<Longrightarrow> distinct (map fst m')"
  by (induction keys arbitrary: m) (auto split: if_splits result.splits intro: distinct_update)

lemma mbs_scan_distinct: "mbs_scan W c self p sfx b = Some m \<Longrightarrow> distinct (map fst m)"
  unfolding mbs_scan_def by (drule scan_loop_distinct) auto

lemma raw_item_keys: "k \<in> set (map fst (items b)) \<longleftrightarrow> raw_item b k \<noteq> None"
  by (auto simp: raw_item_def map_of_eq_None_iff)

lemma mbs_scan_cases:
  obtains (panics) k where "mbs_scan W c self p sfx b = None" "raw_item b k \<noteq> None"
      "scan_matches p sfx k" "\<And>v. mbs_get W c self k b \<noteq> Ok v"
    | (returns) m where "mbs_scan W c self p sfx b = Some m"
      "\<And>k v. map_of m k = Some v \<longleftrightarrow>
        raw_item b k \<noteq> None \<and> scan_matches p sfx k \<and> mbs_get W c self k b = Ok v"
proof (cases "\<exists>k. raw_item b k \<noteq> None \<and> scan_matches p sfx k \<and> (\<forall>v. mbs_get W c self k b \<noteq> Ok v)")
  case True
  then obtain k where k: "raw_item b k \<noteq> None" "scan_matches p sfx k"
      "\<And>v. mbs_get W c self k b \<noteq> Ok v"
    by blast
  then have "k \<in> set (map fst (items b))" by (simp only: raw_item_keys) simp
  from scan_loop_unreadable [OF this k(2,3)] have "mbs_scan W c self p sfx b = None"
    by (simp add: mbs_scan_def)
  with k show ?thesis by (rule_tac panics)
next
  case False
  define f where "f k = (case mbs_get W c self k b of Ok v \<Rightarrow> v)" for k
  have f: "mbs_get W c self k b = Ok (f k)"
    if "raw_item b k \<noteq> None" "scan_matches p sfx k" for k
    using False that by (force simp: f_def)
  obtain m where s: "mbs_scan W c self p sfx b = Some m"
    and m: "\<And>x. map_of m x = (if x \<in> set (map fst (items b)) \<and> scan_matches p sfx x then Some (f x) else None)"
  proof -
    have "\<forall>k \<in> set (map fst (items b)). scan_matches p sfx k \<longrightarrow> mbs_get W c self k b = Ok (f k)"
      using f raw_item_keys by blast
    from scan_loop_readable [OF this, of "[]"] that show ?thesis by (auto simp: mbs_scan_def)
  qed
  have "map_of m k = Some v \<longleftrightarrow>
      raw_item b k \<noteq> None \<and> scan_matches p sfx k \<and> mbs_get W c self k b = Ok v" for k v
    using f unfolding m raw_item_keys by (cases "raw_item b k") auto
  with s show ?thesis by (rule returns)
qed

text \<open>
  A scan returns exactly the readable values of the stored keys with the given prefix and
  suffix; it panics exactly when one of these keys holds a value it cannot read.
\<close>

theorem mbs_scan_spec:
  "case mbs_scan W c self p sfx b of
     Some m \<Rightarrow> \<forall>k v. map_of m k = Some v \<longleftrightarrow>
       raw_item b k \<noteq> None \<and> scan_matches p sfx k \<and> mbs_get W c self k b = Ok v
   | None \<Rightarrow> \<exists>k. raw_item b k \<noteq> None \<and> scan_matches p sfx k \<and> (\<forall>v. mbs_get W c self k b \<noteq> Ok v)"
proof (cases rule: mbs_scan_cases [of W c self p sfx b])
  case (panics k)
  then show ?thesis by auto
next
  case (returns m)
  then show ?thesis by simp
qed

section \<open>Properties\<close>

text \<open>
  C40: a value stored under a key reads back under it, with or without a password, and a store
  under one key changes what no other key reads, whatever its type and password.
\<close>

theorem mbs_set_get:
  assumes "web_ok W" "codec_ok c" "mbs_set W c self key v b = (Ok (), b')"
  shows "mbs_get W c self key b' = Ok v \<and>
    (key' \<noteq> key \<longrightarrow> mbs_get W c' self' key' b' = mbs_get W c' self' key' b)"
proof
  show "mbs_get W c self key b' = Ok v"
    by (rule mbs.put_get [OF _ assms(3)]) (simp add: assms)
  show "key' \<noteq> key \<longrightarrow> mbs_get W c' self' key' b' = mbs_get W c' self' key' b"
    using mbs.put_frame [OF assms(3)] by (auto intro: mbs_get_cong)
qed

text \<open>
  A store that fails (serialization, quota or the cipher) leaves every key as it was.
\<close>

theorem mbs_set_failure_keeps:
  "case mbs_set W c self key v b of
     (Ok _, b') \<Rightarrow> raw_item b' key \<noteq> None
   | (_, b') \<Rightarrow> raw_item b' = raw_item b"
proof (cases "mbs_set W c self key v b")
  case (Pair r b')
  then show ?thesis
  proof (cases rule: mbs_set_cases)
    case (stored data body)
    from stored(4) show ?thesis using Pair stored(1) by (auto elim: ls_set_cases)
  next
    case failed
    with Pair show ?thesis by (auto split: result.split)
  qed
qed

lemma insert_mnemonic_Ok_iff:
  "insert_mnemonic W self m b = (Ok m', b') \<longleftrightarrow>
     m' = m \<and> mbs_set W (json_string W) self mnemonic_key (mnemonic_to_string W m) b = (Ok (), b')"
  by (auto simp: insert_mnemonic_def split: prod.splits result.splits)

lemma has_mnemonic_stored:
  assumes "codec_ok (json_string W)" "mbs_set W (json_string W) self mnemonic_key v b = (Ok (), b')"
  shows "has_mnemonic W b'"
  using assms(2)
proof (cases rule: mbs_set_cases)
  case (stored data body)
  from ls.put_get [OF assms(1) stored(4)] show ?thesis by (simp add: has_mnemonic_def)
qed simp

text \<open>
  After a seed phrase is saved the wallet finds it (\<open>has_mnemonic\<close>), reads the same phrase
  back under the same password, and finds none after \<open>delete_mnemonic\<close>.
\<close>

theorem mnemonic_saved:
  assumes "web_ok W" "insert_mnemonic W self m b = (Ok m', b')"
  shows "m' = m \<and> has_mnemonic W b' \<and> get_mnemonic W self b' = Ok m \<and>
    \<not> has_mnemonic W (delete_mnemonic b')"
proof -
  have s: "mbs_set W (json_string W) self mnemonic_key (mnemonic_to_string W m) b = (Ok (), b')"
    and m: "m' = m"
    using assms(2) by (simp_all add: insert_mnemonic_Ok_iff)
  have c: "codec_ok (json_string W)" and parse: "mnemonic_from_str W (mnemonic_to_string W m) = Some m"
    using assms(1) by (simp_all add: web_ok_def)
  have "mbs_get W (json_string W) self mnemonic_key b' = Ok (mnemonic_to_string W m)"
    by (rule mbs.put_get [OF _ s]) (simp add: assms c)
  then have "get_mnemonic W self b' = Ok m"
    by (simp add: get_mnemonic_def parse)
  moreover have "has_mnemonic W b'"
    using has_mnemonic_stored [OF c s] .
  moreover have "\<not> has_mnemonic W (delete_mnemonic b')"
    by (simp add: has_mnemonic_def delete_mnemonic_def ls_get_def)
  ultimately show ?thesis using m by simp
qed

text \<open>
  The nodes and the fee estimates are kept outside the password: the same table contract at
  one fixed key, with an empty node list where nothing is stored.
\<close>

lemma insert_nodes_get:
  assumes "web_ok W" "insert_nodes W ns b = (Ok (), b')"
  shows "get_nodes W b' = Ok ns"
proof -
  have "ls_get (json_nodes W) nodes_key b' = Ok ns"
    using assms by (intro ls.put_get) (simp_all add: web_ok_def insert_nodes_def)
  then show ?thesis by (simp add: get_nodes_def)
qed

lemma insert_fee_estimates_get:
  assumes "web_ok W" "insert_fee_estimates W fees b = (Ok (), b')"
  shows "get_fee_estimates W b' = Ok fees"
proof -
  have "ls_get (json_fees W) fee_estimates_key b' = Ok fees"
    using assms by (intro ls.put_get) (simp_all add: web_ok_def insert_fee_estimates_def)
  then show ?thesis by (simp add: get_fee_estimates_def)
qed

section \<open>A concrete instance\<close>

text \<open>
  For the witnesses: a codec that knows a list of values (the text is the position in unary),
  strings in quotes, and a storage without a quota.
\<close>

fun index_of :: "'a \<Rightarrow> 'a list \<Rightarrow> nat option" where
  "index_of v [] = None"
| "index_of v (x # xs) = (if v = x then Some 0 else map_option Suc (index_of v xs))"

lemma index_of_Some: "index_of v xs = Some i \<Longrightarrow> i < length xs \<and> xs ! i = v"
  by (induction xs arbitrary: i) (auto split: if_splits)

definition list_codec :: "'a list \<Rightarrow> 'a codec" where
  "list_codec xs = \<lparr>
     to_json = (\<lambda>v. map_option (\<lambda>i. replicate i CHR ''a'') (index_of v xs)),
     from_json = (\<lambda>s. if length s < length xs then Some (xs ! length s) else None)\<rparr>"

lemma utf8_valid_string: "\<forall>c \<in> set s. of_char c < (128 :: nat) \<Longrightarrow> utf8_valid (as_bytes s)"
proof (rule utf8_valid_ascii, rule ballI)
  fix b assume "\<forall>c \<in> set s. of_char c < (128 :: nat)" "b \<in> set (as_bytes s)"
  then obtain c where "b = of_nat (of_char c)" "of_char c < (128 :: nat)"
    by (auto simp: as_bytes_def)
  then have "unat b \<le> 127" by (simp add: unat_of_nat)
  then show "b \<le> 0x7F" by (simp add: word_le_nat_alt)
qed

lemma list_codec_ok: "codec_ok (list_codec xs)"
  by (auto simp: codec_ok_def list_codec_def dest: index_of_Some intro!: utf8_valid_string)

definition ascii :: "string \<Rightarrow> bool" where
  "ascii s \<longleftrightarrow> (\<forall>c \<in> set s. of_char c < (128 :: nat))"

definition quoted_codec :: "string codec" where
  "quoted_codec = \<lparr>
     to_json = (\<lambda>s. if ascii s then Some (CHR 0x22 # s @ [CHR 0x22]) else None),
     from_json = (\<lambda>t. case t of c # cs \<Rightarrow>
        if c = CHR 0x22 \<and> cs \<noteq> [] \<and> last cs = CHR 0x22 then Some (butlast cs) else None | [] \<Rightarrow> None)\<rparr>"

lemma quoted_codec_ok: "codec_ok quoted_codec"
  by (auto simp: codec_ok_def quoted_codec_def ascii_def split: if_splits intro!: utf8_valid_string)

definition demo_web :: web where
  "demo_web = \<lparr>
     os_fill = os_fill demo_crypto, salt_b64 = salt_b64 demo_crypto,
     pbkdf2_hash = pbkdf2_hash demo_crypto, aes_encrypt = aes_encrypt demo_crypto,
     aes_decrypt = aes_decrypt demo_crypto, base64_encode = base64_encode demo_crypto,
     base64_decode = base64_decode demo_crypto,
     accepts = (\<lambda>_ _ _. True),
     json_string = quoted_codec,
     json_nodes = list_codec [\<lparr>ns_nodes = []\<rparr>, \<lparr>ns_nodes = [(''u'', \<lparr>node_uuid = ''u'', child_index = 0\<rparr>)]\<rparr>],
     json_fees = list_codec [[], [(''6'', 0x4014000000000000)]],
     mnemonic_to_string = (\<lambda>m. of_bytes (entropy m)),
     mnemonic_from_str = (\<lambda>s. Some (Mnemonic (as_bytes s)))\<rparr>"

lemma demo_web_ok: "web_ok demo_web"
  using demo_crypto_ok
  by (simp add: web_ok_def demo_web_def crypto_ok_def quoted_codec_ok list_codec_ok)

definition demo_browser :: browser where
  "demo_browser = \<lparr>items = [], draws = 0\<rparr>"

lemma set_plain:
  assumes "accepts W = (\<lambda>_ _ _. True)" "json_string W = quoted_codec"
    and "to_json c v = Some data" "ascii data"
  shows "\<exists>b'. mbs_set W c \<lparr>password = []\<rparr> key v b = (Ok (), b')"
  using assms by (simp add: mbs_set_def ls_set_def pmap_err_def quoted_codec_def)

lemma demo_set_plain:
  "to_json c v = Some data \<Longrightarrow> ascii data \<Longrightarrow> \<exists>b'. mbs_set demo_web c \<lparr>password = []\<rparr> key v b = (Ok (), b')"
  by (rule set_plain) (simp_all add: demo_web_def)

lemma mbs_set_get_witness:
  "\<exists>b'. mbs_set demo_web quoted_codec \<lparr>password = []\<rparr> ''k'' ''v'' demo_browser = (Ok (), b') \<and>
     mbs_get demo_web quoted_codec \<lparr>password = []\<rparr> ''k'' b' = Ok ''v''"
proof -
  obtain b' where b': "mbs_set demo_web quoted_codec \<lparr>password = []\<rparr> ''k'' ''v'' demo_browser = (Ok (), b')"
    using demo_set_plain [of quoted_codec "''v''"] by (force simp: quoted_codec_def ascii_def)
  from mbs_set_get [OF demo_web_ok quoted_codec_ok b', of "''j''"] b' show ?thesis by blast
qed

lemma mnemonic_saved_witness:
  "\<exists>b'. insert_mnemonic demo_web \<lparr>password = []\<rparr> (Mnemonic (as_bytes ''AB'')) demo_browser =
      (Ok (Mnemonic (as_bytes ''AB'')) :: (Mnemonic, unit) result, b') \<and>
     get_mnemonic demo_web \<lparr>password = []\<rparr> b' = Ok (Mnemonic (as_bytes ''AB''))"
proof -
  have "to_json (json_string demo_web) (mnemonic_to_string demo_web (Mnemonic (as_bytes ''AB''))) =
      Some [CHR 0x22, CHR ''A'', CHR ''B'', CHR 0x22]"
    by (simp add: demo_web_def quoted_codec_def ascii_def)
  then obtain b' where "insert_mnemonic demo_web \<lparr>password = []\<rparr> (Mnemonic (as_bytes ''AB'')) demo_browser =
      (Ok (Mnemonic (as_bytes ''AB'')) :: (Mnemonic, unit) result, b')"
    unfolding insert_mnemonic_Ok_iff using demo_set_plain by (fastforce simp: ascii_def)
  from mnemonic_saved [OF demo_web_ok this] this show ?thesis by blast
qed

end
