(* ===== verification/BdkStorage.thy ===== *)
theory BdkStorage
  imports LocalStorage
begin

text \<open>
  \<open>node-manager/src/bdkstorage.rs\<close>: the on-chain wallet's database over the browser storage,
  the implementation of \<open>bdk\<close>'s \<open>BatchOperations\<close>, \<open>Database\<close> and \<open>BatchDatabase\<close> for
  \<open>MutinyBrowserStorage\<close>. Keys are a prefix byte and the consensus encoding of the subject, in
  hex. Consensus encoding, transaction ids, hex and the JSON codecs are parameters
  (\<open>bdk_env\<close>, \<open>bdk_ok\<close>).
\<close>

section \<open>Wallet data\<close>

datatype KeychainKind = External | Internal

datatype Script = Script bytes

datatype Txid = Txid bytes

text \<open>A transaction, by its full consensus encoding (witnesses included).\<close>

datatype Transaction = Transaction bytes

record OutPoint =
  op_txid :: Txid
  op_vout :: u32

record TxOut =
  txout_value :: u64
  txout_script :: Script

record LocalUtxo =
  outpoint :: OutPoint
  txout :: TxOut
  utxo_keychain :: KeychainKind
  is_spent :: bool

record BlockTime =
  bt_height :: u32
  bt_timestamp :: u64

record TransactionDetails =
  td_transaction :: "Transaction option"
  td_txid :: Txid
  td_received :: u64
  td_sent :: u64
  td_fee :: "u64 option"
  td_confirmation_time :: "BlockTime option"

record SyncTime =
  block_time :: BlockTime

record ScriptPubKeyInfo =
  spk_keychain :: KeychainKind
  spk_path :: u32

record bdk_env = web +
  kc_byte :: "KeychainKind \<Rightarrow> u8"
  ser_script :: "Script \<Rightarrow> bytes"
  ser_outpoint :: "OutPoint \<Rightarrow> bytes"
  ser_txid :: "Txid \<Rightarrow> bytes"
  de_txid :: "bytes \<Rightarrow> Txid option"
  txid_of :: "Transaction \<Rightarrow> Txid"
  to_hex :: "bytes \<Rightarrow> string"
  from_hex :: "string \<Rightarrow> bytes option"
  json_script :: "Script codec"
  json_spk :: "ScriptPubKeyInfo codec"
  json_utxo :: "LocalUtxo codec"
  json_tx :: "Transaction codec"
  json_details :: "TransactionDetails codec"
  json_u32 :: "u32 codec"
  json_sync :: "SyncTime codec"
  json_bytes :: "bytes codec"
  show_gloo :: "GlooError \<Rightarrow> string"
  show_serde :: string

definition hex_digits :: string where
  "hex_digits = ''0123456789abcdef''"

text \<open>
  The documented behaviour relied on: encodings are injective, a transaction id reads back,
  hex writes two digits per byte and reads back, JSON reads back what it wrote.
\<close>

definition bdk_ok :: "'x bdk_env_scheme \<Rightarrow> bool" where
  "bdk_ok E \<longleftrightarrow> web_ok E \<and> inj (kc_byte E) \<and> inj (ser_script E) \<and> inj (ser_outpoint E) \<and>
     (\<forall>t. de_txid E (ser_txid E t) = Some t) \<and>
     (\<forall>a b. to_hex E (a @ b) = to_hex E a @ to_hex E b) \<and>
     (\<forall>a. length (to_hex E a) = 2 * length a) \<and>
     (\<forall>a. set (to_hex E a) \<subseteq> set hex_digits) \<and>
     (\<forall>a. from_hex E (to_hex E a) = Some a) \<and>
     codec_ok (json_script E) \<and> codec_ok (json_spk E) \<and> codec_ok (json_utxo E) \<and>
     codec_ok (json_tx E) \<and> codec_ok (json_details E) \<and> codec_ok (json_u32 E) \<and>
     codec_ok (json_sync E) \<and> codec_ok (json_bytes E)"

section \<open>Keys\<close>

datatype MapKey =
    MapPath "KeychainKind option" "u32 option"
  | MapScript "Script option"
  | MapUtxo "OutPoint option"
  | MapRawTx "Txid option"
  | MapTransaction "Txid option"
  | MapLastIndex KeychainKind
  | MapSyncTime
  | MapDescriptorChecksum KeychainKind

fun as_prefix :: "'x bdk_env_scheme \<Rightarrow> MapKey \<Rightarrow> bytes" where
  "as_prefix E (MapPath st _) = 0x70 # (case st of None \<Rightarrow> [] | Some k \<Rightarrow> [kc_byte E k])"
| "as_prefix E (MapScript _) = [0x73]"
| "as_prefix E (MapUtxo _) = [0x75]"
| "as_prefix E (MapRawTx _) = [0x72]"
| "as_prefix E (MapTransaction _) = [0x74]"
| "as_prefix E (MapLastIndex k) = [0x63, kc_byte E k]"
| "as_prefix E MapSyncTime = [0x6c]"
| "as_prefix E (MapDescriptorChecksum k) = [0x64, kc_byte E k]"

fun serialize_content :: "'x bdk_env_scheme \<Rightarrow> MapKey \<Rightarrow> bytes" where
  "serialize_content E (MapPath _ (Some child)) = be_bytes32 child"
| "serialize_content E (MapScript (Some s)) = ser_script E s"
| "serialize_content E (MapUtxo (Some s)) = ser_outpoint E s"
| "serialize_content E (MapRawTx (Some s)) = ser_txid E s"
| "serialize_content E (MapTransaction (Some s)) = ser_txid E s"
| "serialize_content E _ = []"

definition as_map_key :: "'x bdk_env_scheme \<Rightarrow> MapKey \<Rightarrow> string" where
  "as_map_key E k = to_hex E (as_prefix E k @ serialize_content E k)"

section \<open>Operations\<close>

text \<open>\<open>self.set(key, value)?\<close> with the storage error converted into \<open>bdk\<close>'s.\<close>

definition db_error :: "'x bdk_env_scheme \<Rightarrow> MutinyStorageError \<Rightarrow> BdkError" where
  "db_error E = bdk_of_storage (show_gloo E) (show_serde E)"

definition db_set ::
  "'x bdk_env_scheme \<Rightarrow> 'a codec \<Rightarrow> MutinyBrowserStorage \<Rightarrow> MapKey \<Rightarrow> 'a \<Rightarrow> (browser, unit, BdkError) prog"
where
  "db_set E c self k v = pmap_err (db_error E) (mbs_set E c self (as_map_key E k) v)"

definition db_get ::
  "'x bdk_env_scheme \<Rightarrow> 'a codec \<Rightarrow> MutinyBrowserStorage \<Rightarrow> MapKey \<Rightarrow> browser \<Rightarrow> ('a option, BdkError) result"
where
  "db_get E c self k b = ok_of (mbs_get E c self (as_map_key E k) b)"

text \<open>\<open>let res = self.get(&key).ok(); LocalStorage::delete(&key);\<close>\<close>

definition db_take ::
  "'x bdk_env_scheme \<Rightarrow> 'a codec \<Rightarrow> MutinyBrowserStorage \<Rightarrow> MapKey \<Rightarrow> (browser, 'a option, BdkError) prog"
where
  "db_take E c self k =
     pbind (pread (db_get E c self k)) (\<lambda>res.
     pbind (pmodify (ls_delete (as_map_key E k))) (\<lambda>_.
     preturn res))"

definition set_script_pubkey ::
  "'x bdk_env_scheme \<Rightarrow> MutinyBrowserStorage \<Rightarrow> Script \<Rightarrow> KeychainKind \<Rightarrow> u32 \<Rightarrow> (browser, unit, BdkError) prog"
where
  "set_script_pubkey E self script kc path =
     pbind (db_set E (json_script E) self (MapPath (Some kc) (Some path)) script) (\<lambda>_.
     db_set E (json_spk E) self (MapScript (Some script)) \<lparr>spk_keychain = kc, spk_path = path\<rparr>)"

definition set_utxo ::
  "'x bdk_env_scheme \<Rightarrow> MutinyBrowserStorage \<Rightarrow> LocalUtxo \<Rightarrow> (browser, unit, BdkError) prog" where
  "set_utxo E self utxo = db_set E (json_utxo E) self (MapUtxo (Some (outpoint utxo))) utxo"

definition set_raw_tx ::
  "'x bdk_env_scheme \<Rightarrow> MutinyBrowserStorage \<Rightarrow> Transaction \<Rightarrow> (browser, unit, BdkError) prog" where
  "set_raw_tx E self tx = db_set E (json_tx E) self (MapRawTx (Some (txid_of E tx))) tx"

definition set_tx ::
  "'x bdk_env_scheme \<Rightarrow> MutinyBrowserStorage \<Rightarrow> TransactionDetails \<Rightarrow> (browser, unit, BdkError) prog" where
  "set_tx E self td =
     pbind (case td_transaction td of Some tx \<Rightarrow> set_raw_tx E self tx | None \<Rightarrow> preturn ()) (\<lambda>_.
     db_set E (json_details E) self (MapTransaction (Some (td_txid td))) (td\<lparr>td_transaction := None\<rparr>))"

definition set_last_index ::
  "'x bdk_env_scheme \<Rightarrow> MutinyBrowserStorage \<Rightarrow> KeychainKind \<Rightarrow> u32 \<Rightarrow> (browser, unit, BdkError) prog" where
  "set_last_index E self kc value = db_set E (json_u32 E) self (MapLastIndex kc) value"

definition set_sync_time ::
  "'x bdk_env_scheme \<Rightarrow> MutinyBrowserStorage \<Rightarrow> SyncTime \<Rightarrow> (browser, unit, BdkError) prog" where
  "set_sync_time E self data = db_set E (json_sync E) self MapSyncTime data"

definition del_script_pubkey_from_path ::
  "'x bdk_env_scheme \<Rightarrow> MutinyBrowserStorage \<Rightarrow> KeychainKind \<Rightarrow> u32 \<Rightarrow> (browser, Script option, BdkError) prog"
where
  "del_script_pubkey_from_path E self kc path =
     db_take E (json_script E) self (MapPath (Some kc) (Some path))"

definition del_path_from_script_pubkey ::
  "'x bdk_env_scheme \<Rightarrow> MutinyBrowserStorage \<Rightarrow> Script \<Rightarrow> (browser, (KeychainKind \<times> u32) option, BdkError) prog"
where
  "del_path_from_script_pubkey E self script =
     pbind (db_take E (json_spk E) self (MapScript (Some script))) (\<lambda>res.
     preturn (map_option (\<lambda>info. (spk_keychain info, spk_path info)) res))"

definition del_utxo ::
  "'x bdk_env_scheme \<Rightarrow> MutinyBrowserStorage \<Rightarrow> OutPoint \<Rightarrow> (browser, LocalUtxo option, BdkError) prog" where
  "del_utxo E self op = db_take E (json_utxo E) self (MapUtxo (Some op))"

definition del_raw_tx ::
  "'x bdk_env_scheme \<Rightarrow> MutinyBrowserStorage \<Rightarrow> Txid \<Rightarrow> (browser, Transaction option, BdkError) prog" where
  "del_raw_tx E self t = db_take E (json_tx E) self (MapRawTx (Some t))"

definition del_tx ::
  "'x bdk_env_scheme \<Rightarrow> MutinyBrowserStorage \<Rightarrow> Txid \<Rightarrow> bool \<Rightarrow> (browser, TransactionDetails option, BdkError) prog"
where
  "del_tx E self t include_raw =
     pbind (if include_raw then del_raw_tx E self t else preturn None) (\<lambda>raw_tx.
     pbind (db_take E (json_details E) self (MapTransaction (Some t))) (\<lambda>res.
     preturn (map_option (\<lambda>val. val\<lparr>td_transaction := raw_tx\<rparr>) res)))"

definition del_last_index ::
  "'x bdk_env_scheme \<Rightarrow> MutinyBrowserStorage \<Rightarrow> KeychainKind \<Rightarrow> (browser, u32 option, BdkError) prog" where
  "del_last_index E self kc = db_take E (json_u32 E) self (MapLastIndex kc)"

definition del_sync_time ::
  "'x bdk_env_scheme \<Rightarrow> MutinyBrowserStorage \<Rightarrow> (browser, SyncTime option, BdkError) prog" where
  "del_sync_time E self = db_take E (json_sync E) self MapSyncTime"

definition check_descriptor_checksum ::
  "'x bdk_env_scheme \<Rightarrow> MutinyBrowserStorage \<Rightarrow> KeychainKind \<Rightarrow> bytes \<Rightarrow> (browser, unit, BdkError) prog" where
  "check_descriptor_checksum E self kc bs =
     pbind (pread (db_get E (json_bytes E) self (MapDescriptorChecksum kc))) (\<lambda>prev.
     case prev of
       Some val \<Rightarrow> if val = bs then preturn () else perr BdkChecksumMismatch
     | None \<Rightarrow> db_set E (json_bytes E) self (MapDescriptorChecksum kc) bs)"

text \<open>\<open>scan(..).into_values().collect()\<close>; a scan that panics is a panic.\<close>

definition db_scan_values ::
  "'x bdk_env_scheme \<Rightarrow> 'a codec \<Rightarrow> MutinyBrowserStorage \<Rightarrow> MapKey \<Rightarrow> browser \<Rightarrow> ('a list, BdkError) result"
where
  "db_scan_values E c self k b =
     of_option (map_option (map snd) (mbs_scan E c self (as_map_key E k) None b))"

definition iter_script_pubkeys ::
  "'x bdk_env_scheme \<Rightarrow> MutinyBrowserStorage \<Rightarrow> KeychainKind option \<Rightarrow> browser \<Rightarrow> (Script list, BdkError) result"
where
  "iter_script_pubkeys E self kc = db_scan_values E (json_script E) self (MapPath kc None)"

definition iter_utxos ::
  "'x bdk_env_scheme \<Rightarrow> MutinyBrowserStorage \<Rightarrow> browser \<Rightarrow> (LocalUtxo list, BdkError) result" where
  "iter_utxos E self = db_scan_values E (json_utxo E) self (MapUtxo None)"

definition iter_raw_txs ::
  "'x bdk_env_scheme \<Rightarrow> MutinyBrowserStorage \<Rightarrow> browser \<Rightarrow> (Transaction list, BdkError) result" where
  "iter_raw_txs E self = db_scan_values E (json_tx E) self (MapRawTx None)"

definition get_script_pubkey_from_path ::
  "'x bdk_env_scheme \<Rightarrow> MutinyBrowserStorage \<Rightarrow> KeychainKind \<Rightarrow> u32 \<Rightarrow> browser \<Rightarrow> (Script option, BdkError) result"
where
  "get_script_pubkey_from_path E self kc path = db_get E (json_script E) self (MapPath (Some kc) (Some path))"

definition get_path_from_script_pubkey ::
  "'x bdk_env_scheme \<Rightarrow> MutinyBrowserStorage \<Rightarrow> Script \<Rightarrow> browser \<Rightarrow> ((KeychainKind \<times> u32) option, BdkError) result"
where
  "get_path_from_script_pubkey E self script b =
     and_then (db_get E (json_spk E) self (MapScript (Some script)) b) (\<lambda>res.
     Ok (map_option (\<lambda>info. (spk_keychain info, spk_path info)) res))"

definition get_utxo ::
  "'x bdk_env_scheme \<Rightarrow> MutinyBrowserStorage \<Rightarrow> OutPoint \<Rightarrow> browser \<Rightarrow> (LocalUtxo option, BdkError) result" where
  "get_utxo E self op = db_get E (json_utxo E) self (MapUtxo (Some op))"

definition get_raw_tx ::
  "'x bdk_env_scheme \<Rightarrow> MutinyBrowserStorage \<Rightarrow> Txid \<Rightarrow> browser \<Rightarrow> (Transaction option, BdkError) result" where
  "get_raw_tx E self t = db_get E (json_tx E) self (MapRawTx (Some t))"

definition get_tx ::
  "'x bdk_env_scheme \<Rightarrow> MutinyBrowserStorage \<Rightarrow> Txid \<Rightarrow> bool \<Rightarrow> browser \<Rightarrow> (TransactionDetails option, BdkError) result"
where
  "get_tx E self t include_raw b =
     and_then (db_get E (json_details E) self (MapTransaction (Some t)) b) (\<lambda>res.
     case res of
       None \<Rightarrow> Ok None
     | Some txdetails \<Rightarrow>
         if include_raw
         then and_then (unwrap_of (get_raw_tx E self t b)) (\<lambda>raw. Ok (Some (txdetails\<lparr>td_transaction := raw\<rparr>)))
         else Ok (Some txdetails))"

definition get_last_index ::
  "'x bdk_env_scheme \<Rightarrow> MutinyBrowserStorage \<Rightarrow> KeychainKind \<Rightarrow> browser \<Rightarrow> (u32 option, BdkError) result" where
  "get_last_index E self kc = db_get E (json_u32 E) self (MapLastIndex kc)"

definition get_sync_time ::
  "'x bdk_env_scheme \<Rightarrow> MutinyBrowserStorage \<Rightarrow> browser \<Rightarrow> (SyncTime option, BdkError) result" where
  "get_sync_time E self = db_get E (json_sync E) self MapSyncTime"

text \<open>One entry of \<open>iter_txs\<close>: the transaction id is read back from the key.\<close>

definition iter_txs_entry ::
  "'x bdk_env_scheme \<Rightarrow> MutinyBrowserStorage \<Rightarrow> bool \<Rightarrow> browser \<Rightarrow> string \<times> TransactionDetails \<Rightarrow>
   (TransactionDetails, BdkError) result" where
  "iter_txs_entry E self include_raw b = (\<lambda>(key, tx_details).
     if include_raw then
       (if length key < 2 then Err (BdkGeneric ''Error parsing txid from json'')
        else (case from_hex E (drop 2 key) of
            None \<Rightarrow> Err BdkOther
          | Some k_bytes \<Rightarrow> (case de_txid E k_bytes of
              None \<Rightarrow> Err BdkOther
            | Some t \<Rightarrow> and_then (get_raw_tx E self t b) (\<lambda>raw. Ok (tx_details\<lparr>td_transaction := raw\<rparr>)))))
     else Ok tx_details)"

text \<open>\<open>collect\<close> into a \<open>Result\<close>: the first error ends the iteration.\<close>

fun collect_results :: "('a \<Rightarrow> ('b, 'e) result) \<Rightarrow> 'a list \<Rightarrow> ('b list, 'e) result" where
  "collect_results f [] = Ok []"
| "collect_results f (x # xs) =
    and_then (f x) (\<lambda>y. and_then (collect_results f xs) (\<lambda>ys. Ok (y # ys)))"

definition iter_txs ::
  "'x bdk_env_scheme \<Rightarrow> MutinyBrowserStorage \<Rightarrow> bool \<Rightarrow> browser \<Rightarrow> (TransactionDetails list, BdkError) result" where
  "iter_txs E self include_raw b =
     and_then (of_option (mbs_scan E (json_details E) self (as_map_key E (MapTransaction None)) None b))
       (collect_results (iter_txs_entry E self include_raw b))"

text \<open>\<open>s + 1\<close> on a \<open>u32\<close> wraps in the release build the wallet ships.\<close>

definition increment_last_index ::
  "'x bdk_env_scheme \<Rightarrow> MutinyBrowserStorage \<Rightarrow> KeychainKind \<Rightarrow> (browser, u32, BdkError) prog" where
  "increment_last_index E self kc =
     pbind (pread (db_get E (json_u32 E) self (MapLastIndex kc))) (\<lambda>current_opt.
     let value = (case current_opt of None \<Rightarrow> 0 | Some s \<Rightarrow> s + 1) in
     pbind (db_set E (json_u32 E) self (MapLastIndex kc) value) (\<lambda>_.
     preturn value))"

definition begin_batch :: "MutinyBrowserStorage \<Rightarrow> MutinyBrowserStorage" where
  "begin_batch self = \<lparr>password = password self\<rparr>"

definition commit_batch :: "MutinyBrowserStorage \<Rightarrow> MutinyBrowserStorage \<Rightarrow> (browser, unit, BdkError) prog" where
  "commit_batch self batch = preturn ()"

section \<open>Keys never collide\<close>

fun full_key :: "MapKey \<Rightarrow> bool" where
  "full_key (MapPath st ch) = (st \<noteq> None \<and> ch \<noteq> None)"
| "full_key (MapScript s) = (s \<noteq> None)"
| "full_key (MapUtxo s) = (s \<noteq> None)"
| "full_key (MapRawTx s) = (s \<noteq> None)"
| "full_key (MapTransaction s) = (s \<noteq> None)"
| "full_key _ = True"

lemma bdk_okD:
  assumes "bdk_ok E"
  shows "web_ok E"
    and "kc_byte E a = kc_byte E b \<longleftrightarrow> a = b"
    and "ser_script E s = ser_script E s' \<longleftrightarrow> s = s'"
    and "ser_outpoint E p = ser_outpoint E p' \<longleftrightarrow> p = p'"
    and "de_txid E (ser_txid E t) = Some t"
    and "to_hex E (x @ y) = to_hex E x @ to_hex E y"
    and "length (to_hex E x) = 2 * length x"
    and "set (to_hex E x) \<subseteq> set hex_digits"
    and "from_hex E (to_hex E x) = Some x"
  using assms by (auto simp: bdk_ok_def inj_def)

lemma bdk_ok_codecs:
  assumes "bdk_ok E"
  shows "codec_ok (json_script E)" "codec_ok (json_spk E)" "codec_ok (json_utxo E)"
    "codec_ok (json_tx E)" "codec_ok (json_details E)" "codec_ok (json_u32 E)"
    "codec_ok (json_sync E)" "codec_ok (json_bytes E)"
  using assms by (simp_all add: bdk_ok_def)

lemma ser_txid_inject: "bdk_ok E \<Longrightarrow> ser_txid E t = ser_txid E t' \<longleftrightarrow> t = t'"
  by (metis bdk_okD(5) option.inject)

lemma to_hex_inject: "bdk_ok E \<Longrightarrow> to_hex E a = to_hex E b \<longleftrightarrow> a = b"
  by (metis bdk_okD(9) option.inject)

lemma to_hex_starts_with:
  assumes "bdk_ok E"
  shows "starts_with (to_hex E a) (to_hex E p) \<longleftrightarrow> take (length p) a = p"
proof
  assume sw: "starts_with (to_hex E a) (to_hex E p)"
  then have "length (to_hex E p) \<le> length (to_hex E a)"
    by (metis starts_with_iff length_append le_add1)
  then have len: "length p \<le> length a" by (simp add: bdk_okD(7) [OF assms])
  have "to_hex E a = to_hex E (take (length p) a) @ to_hex E (drop (length p) a)"
    by (metis append_take_drop_id assms bdk_okD(6))
  with sw len have "to_hex E (take (length p) a) = to_hex E p"
    by (simp add: starts_with_def bdk_okD(7) [OF assms])
  with assms show "take (length p) a = p" by (simp add: to_hex_inject)
next
  assume "take (length p) a = p"
  then have "to_hex E a = to_hex E p @ to_hex E (drop (length p) a)"
    by (metis append_take_drop_id assms bdk_okD(6))
  then show "starts_with (to_hex E a) (to_hex E p)" by simp
qed

lemma as_map_key_inject:
  assumes "bdk_ok E" "full_key a" "full_key b"
  shows "as_map_key E a = as_map_key E b \<longleftrightarrow> a = b"
  using assms(2,3) unfolding as_map_key_def to_hex_inject [OF assms(1)]
  by (cases a; cases b)
    (auto simp: bdk_okD(2-4) [OF assms(1)] ser_txid_inject [OF assms(1)])

text \<open>
  The keys of the on-chain database are pairwise different for different subjects, and
  none of them is a key the rest of the wallet uses or could use: they consist of hex digits
  only, and every other key contains another character.
\<close>

theorem map_keys_disjoint:
  assumes "bdk_ok E"
  shows "(full_key a \<and> full_key b \<longrightarrow> as_map_key E a = as_map_key E b \<longrightarrow> a = b) \<and>
    as_map_key E a \<notin> {mnemonic_key, nodes_key, fee_estimates_key} \<and>
    (c \<notin> set hex_digits \<longrightarrow> as_map_key E a \<noteq> x @ c # y)"
proof -
  have hex: "set (as_map_key E a) \<subseteq> set hex_digits"
    using bdk_okD(8) [OF assms] by (simp add: as_map_key_def)
  have "CHR ''n'' \<notin> set (as_map_key E a)" "CHR ''s'' \<notin> set (as_map_key E a)"
    using hex by (auto simp: hex_digits_def)
  moreover have "CHR ''n'' \<in> set mnemonic_key" "CHR ''n'' \<in> set nodes_key" "CHR ''s'' \<in> set fee_estimates_key"
    by (simp_all add: mnemonic_key_def nodes_key_def fee_estimates_key_def)
  ultimately have "as_map_key E a \<notin> {mnemonic_key, nodes_key, fee_estimates_key}" by auto
  then show ?thesis using as_map_key_inject [OF assms] hex by auto
qed

text \<open>Which full keys lie under a scan prefix.\<close>

lemma key_under_prefix:
  assumes "bdk_ok E" "full_key k"
  shows "starts_with (as_map_key E k) (as_map_key E (MapUtxo None)) \<longleftrightarrow> (\<exists>op. k = MapUtxo (Some op))"
    and "starts_with (as_map_key E k) (as_map_key E (MapRawTx None)) \<longleftrightarrow> (\<exists>t. k = MapRawTx (Some t))"
    and "starts_with (as_map_key E k) (as_map_key E (MapTransaction None)) \<longleftrightarrow> (\<exists>t. k = MapTransaction (Some t))"
    and "starts_with (as_map_key E k) (as_map_key E (MapPath kc None)) \<longleftrightarrow>
      (\<exists>kc' p. k = MapPath (Some kc') (Some p) \<and> (kc = None \<or> kc = Some kc'))"
  using assms(2) unfolding as_map_key_def to_hex_starts_with [OF assms(1)]
  by (cases k; cases kc; auto simp: bdk_okD(2) [OF assms(1)])+

section \<open>Every table keeps the contract of a database table\<close>

lemma db_take_with: "db_take E c self k = take_with (mbs_get E c self) mbs_delete (as_map_key E k)"
  by (rule ext) (simp add: db_take_def db_get_def take_with_def mbs_delete_def split: result.split)

interpretation db: taking_table "web_ok E \<and> codec_ok c" raw_item "as_map_key E" "db_set E c self"
    "db_get E c self" "db_take E c self"
  for E :: "'x bdk_env_scheme" and c :: "'a codec" and self :: MutinyBrowserStorage
proof (unfold_locales, goal_cases)
  case (1 k v s s')
  then show ?case unfolding db_set_def db_get_def by (rule mbs.taking.put_lookup)
next
  case (2 k v s r s' x)
  then show ?case unfolding db_set_def by (rule mbs.taking.put_frame)
next
  case (3 k v s r s')
  then show ?case unfolding db_set_def by (rule mbs.taking.put_fail)
next
  case (4 s k s')
  then show ?case unfolding db_get_def by (rule mbs.taking.lookup_cong)
next
  case (5 s k)
  then show ?case unfolding db_get_def by (rule mbs.taking.lookup_absent)
next
  case (6 k s)
  show ?case unfolding db_get_def db_take_with by (rule mbs.taking.take_result)
next
  case (7 k s old s' x)
  then show ?case unfolding db_take_with by (rule mbs.taking.take_raw)
next
  case (8 k s t s')
  then show ?case unfolding db_take_with by (rule mbs.taking.take_fail)
qed

text \<open>Writes to one key are invisible at another, across tables of different types.\<close>

lemma db_set_frame:
  "db_set E c self k v b = (r, b') \<Longrightarrow> as_map_key E k' \<noteq> as_map_key E k \<Longrightarrow>
   db_get E c' self' k' b' = db_get E c' self' k' b"
  by (intro db.lookup_cong) (simp add: db.put_frame)

lemma db_take_frame:
  "db_take E c self k b = (Ok old, b') \<Longrightarrow> as_map_key E k' \<noteq> as_map_key E k \<Longrightarrow>
   db_get E c' self' k' b' = db_get E c' self' k' b"
  by (intro db.lookup_cong) (simp add: db.take_raw)

lemma utxo_stored:
  assumes "bdk_ok E" "set_utxo E self u b = (Ok (), b')"
  shows "get_utxo E self (outpoint u) b' = Ok (Some u)"
  using assms db.put_lookup [of E "json_utxo E" self] unfolding set_utxo_def get_utxo_def
  by (simp add: bdk_okD bdk_ok_codecs)

text \<open>
  Unspent outputs: what is stored reads back under its outpoint, other outpoints are not
  touched, and a deletion hands out the stored output and leaves none.
\<close>

theorem utxo_table:
  assumes "bdk_ok E" "set_utxo E self u b = (Ok (), b')"
  shows "get_utxo E self (outpoint u) b' = Ok (Some u) \<and>
    (op \<noteq> outpoint u \<longrightarrow> get_utxo E self op b' = get_utxo E self op b) \<and>
    (\<exists>b''. del_utxo E self (outpoint u) b' = (Ok (Some u), b'') \<and>
       get_utxo E self (outpoint u) b'' = Ok None \<and>
       (op \<noteq> outpoint u \<longrightarrow> get_utxo E self op b'' = get_utxo E self op b))"
proof -
  have ok: "web_ok E \<and> codec_ok (json_utxo E)"
    using assms(1) by (simp add: bdk_okD bdk_ok_codecs)
  have s: "db_set E (json_utxo E) self (MapUtxo (Some (outpoint u))) u b = (Ok (), b')"
    using assms(2) by (simp add: set_utxo_def)
  obtain b'' where t: "db_take E (json_utxo E) self (MapUtxo (Some (outpoint u))) b' = (Ok (Some u), b'')"
      "db_get E (json_utxo E) self (MapUtxo (Some (outpoint u))) b'' = Ok None"
    using db.put_take [OF ok s] .
  have other: "as_map_key E (MapUtxo (Some op)) \<noteq> as_map_key E (MapUtxo (Some (outpoint u)))"
    if "op \<noteq> outpoint u"
    using as_map_key_inject [OF assms(1)] that by simp
  show ?thesis
    using db.put_lookup [OF ok s] db.put_lookup_other [OF s other] t
      db.take_lookup_other [OF t(1) other]
    by (auto simp: get_utxo_def del_utxo_def)
qed

section \<open>Transactions\<close>

lemma get_raw_tx_no_Err [simp]: "get_raw_tx E self t b \<noteq> Err e"
  by (simp add: get_raw_tx_def db_get_def)

text \<open>
  A stored transaction reads back whole when asked with its raw transaction, and with
  the raw transaction left out otherwise; storing details without a raw transaction keeps the
  raw transaction stored before.
\<close>

theorem set_tx_get_tx:
  assumes "bdk_ok E" "set_tx E self td b = (Ok (), b')"
    and "\<forall>tx. td_transaction td = Some tx \<longrightarrow> txid_of E tx = td_txid td"
  shows "get_tx E self (td_txid td) False b' = Ok (Some (td\<lparr>td_transaction := None\<rparr>)) \<and>
    (case td_transaction td of
       Some tx \<Rightarrow> get_tx E self (td_txid td) True b' = Ok (Some td) \<and>
         get_raw_tx E self (td_txid td) b' = Ok (Some tx)
     | None \<Rightarrow> get_raw_tx E self (td_txid td) b' = get_raw_tx E self (td_txid td) b)"
proof -
  have okd: "web_ok E \<and> codec_ok (json_details E)" and okt: "web_ok E \<and> codec_ok (json_tx E)"
    using assms(1) by (simp_all add: bdk_okD bdk_ok_codecs)
  obtain b1 where
    raw: "(case td_transaction td of Some tx \<Rightarrow> set_raw_tx E self tx | None \<Rightarrow> preturn ()) b = (Ok (), b1)"
    and d: "db_set E (json_details E) self (MapTransaction (Some (td_txid td)))
        (td\<lparr>td_transaction := None\<rparr>) b1 = (Ok (), b')"
    using assms(2) by (auto simp: set_tx_def pbind_Ok_iff)
  have details: "get_tx E self (td_txid td) False b' = Ok (Some (td\<lparr>td_transaction := None\<rparr>))"
    using db.put_lookup [OF okd d] by (simp add: get_tx_def)
  have keep: "get_raw_tx E self t b' = get_raw_tx E self t b1" for t
    unfolding get_raw_tx_def
    by (rule db_set_frame [OF d]) (simp add: as_map_key_inject [OF assms(1)])
  show ?thesis
  proof (cases "td_transaction td")
    case None
    with raw keep details show ?thesis by (auto simp: preturn_def)
  next
    case (Some tx)
    with raw have "db_set E (json_tx E) self (MapRawTx (Some (td_txid td))) tx b = (Ok (), b1)"
      using assms(3) by (simp add: set_raw_tx_def)
    from db.put_lookup [OF okt this] keep
    have r: "get_raw_tx E self (td_txid td) b' = Ok (Some tx)"
      by (simp add: get_raw_tx_def)
    have "get_tx E self (td_txid td) True b' = Ok (Some td)"
      using db.put_lookup [OF okd d] r Some by (simp add: get_tx_def)
    with r Some details show ?thesis by simp
  qed
qed

section \<open>Indexes and checksums\<close>

text \<open>
  \<open>increment_last_index\<close> starts at 0, then counts up by one (wrapping after the last
  \<open>u32\<close>), stores what it returns and leaves the other keychain's index alone.
\<close>

theorem increment_last_index_counts:
  assumes "bdk_ok E" "increment_last_index E self kc b = (Ok v, b')"
  shows "get_last_index E self kc b' = Ok (Some v) \<and>
    (get_last_index E self kc b = Ok None \<and> v = 0 \<or>
     (\<exists>s. get_last_index E self kc b = Ok (Some s) \<and> unat v = (unat s + 1) mod 2 ^ 32)) \<and>
    (kc' \<noteq> kc \<longrightarrow> get_last_index E self kc' b' = get_last_index E self kc' b)"
proof -
  have ok: "web_ok E \<and> codec_ok (json_u32 E)"
    using assms(1) by (simp add: bdk_okD bdk_ok_codecs)
  obtain cur where cur: "db_get E (json_u32 E) self (MapLastIndex kc) b = Ok cur"
    and v: "v = (case cur of None \<Rightarrow> 0 | Some s \<Rightarrow> s + 1)"
    and s: "db_set E (json_u32 E) self (MapLastIndex kc) v b = (Ok (), b')"
    using assms(2) by (auto simp: increment_last_index_def Let_def pbind_Ok_iff split: result.splits)
  have "unat (s + 1) = (unat s + 1) mod 2 ^ 32" for s :: u32
    by (simp add: unat_word_ariths)
  moreover have "get_last_index E self kc' b' = get_last_index E self kc' b" if "kc' \<noteq> kc"
    unfolding get_last_index_def
    by (rule db.put_lookup_other [OF s]) (simp add: as_map_key_inject [OF assms(1)] that)
  ultimately show ?thesis
    using db.put_lookup [OF ok s] cur v by (cases cur) (simp_all add: get_last_index_def)
qed

text \<open>
  The first checksum of a keychain is stored; from then on a check succeeds exactly for
  the stored checksum, reports \<open>ChecksumMismatch\<close> for any other, and changes nothing.
\<close>

theorem descriptor_checksum_pinned:
  assumes "bdk_ok E"
    and "db_get E (json_bytes E) self (MapDescriptorChecksum kc) b = Ok None"
    and "check_descriptor_checksum E self kc cs b = (Ok (), b')"
  shows "check_descriptor_checksum E self kc cs' b' =
    (if cs' = cs then Ok () else Err BdkChecksumMismatch, b')"
proof -
  have ok: "web_ok E \<and> codec_ok (json_bytes E)"
    using assms(1) by (simp add: bdk_okD bdk_ok_codecs)
  have "db_set E (json_bytes E) self (MapDescriptorChecksum kc) cs b = (Ok (), b')"
    using assms(2,3) by (simp add: check_descriptor_checksum_def)
  from db.put_lookup [OF ok this] show ?thesis
    by (auto simp: check_descriptor_checksum_def)
qed

section \<open>Scripts\<close>

text \<open>
  A stored script is found by its path and its path by the script, and deleting the path
  entry leaves the script entry (the two directions are separate tables).
\<close>

theorem script_pubkey_both_ways:
  assumes "bdk_ok E" "set_script_pubkey E self script kc path b = (Ok (), b')"
  shows "get_script_pubkey_from_path E self kc path b' = Ok (Some script) \<and>
    get_path_from_script_pubkey E self script b' = Ok (Some (kc, path)) \<and>
    (\<exists>b''. del_script_pubkey_from_path E self kc path b' = (Ok (Some script), b'') \<and>
       get_script_pubkey_from_path E self kc path b'' = Ok None \<and>
       get_path_from_script_pubkey E self script b'' = Ok (Some (kc, path)))"
proof -
  have oks: "web_ok E \<and> codec_ok (json_script E)" and oki: "web_ok E \<and> codec_ok (json_spk E)"
    using assms(1) by (simp_all add: bdk_okD bdk_ok_codecs)
  let ?pk = "MapPath (Some kc) (Some path)" and ?sk = "MapScript (Some script)"
  obtain b1 where s1: "db_set E (json_script E) self ?pk script b = (Ok (), b1)"
    and s2: "db_set E (json_spk E) self ?sk \<lparr>spk_keychain = kc, spk_path = path\<rparr> b1 = (Ok (), b')"
    using assms(2) by (auto simp: set_script_pubkey_def pbind_Ok_iff)
  have ne: "as_map_key E ?pk \<noteq> as_map_key E ?sk"
    by (simp add: as_map_key_inject [OF assms(1)])
  have p: "db_get E (json_script E) self ?pk b' = Ok (Some script)"
    using db_set_frame [OF s2 ne, of "json_script E" self] db.put_lookup [OF oks s1] by simp
  obtain r b'' where t: "db_take E (json_script E) self ?pk b' = (r, b'')" by fastforce
  with p db.take_result have r: "r = Ok (Some script)" by (metis fst_conv)
  have "db_get E (json_spk E) self ?sk b'' = db_get E (json_spk E) self ?sk b'"
    using db_take_frame [OF t [unfolded r]] ne by metis
  with p t r s2 db.put_lookup [OF oki s2] db.take_lookup(2) [OF t [unfolded r]] show ?thesis
    by (auto simp: get_script_pubkey_from_path_def get_path_from_script_pubkey_def
        del_script_pubkey_from_path_def)
qed

section \<open>Batches\<close>

text \<open>
  A batch is not a batch: the handle \<open>begin_batch\<close> returns is the database itself, so an
  output written through it is visible in the database before any commit, and
  \<open>commit_batch\<close> does nothing.
\<close>

theorem batch_writes_through:
  assumes "bdk_ok E" "set_utxo E (begin_batch self) u b = (Ok (), b')"
  shows "get_utxo E self (outpoint u) b' = Ok (Some u) \<and>
    commit_batch self (begin_batch self) b' = (Ok (), b')"
proof -
  have "begin_batch self = self" by (cases self) (simp add: begin_batch_def)
  then show ?thesis using assms utxo_stored by (simp add: commit_batch_def)
qed

section \<open>Iteration and the database invariant\<close>

text \<open>
  The part of the storage under a scan prefix is well formed when each of its keys is the key
  of the value it holds: then a scan cannot panic and lists the table.
\<close>

definition space ::
  "'x bdk_env_scheme \<Rightarrow> 'a codec \<Rightarrow> MutinyBrowserStorage \<Rightarrow> MapKey \<Rightarrow> ('a \<Rightarrow> MapKey) \<Rightarrow> browser \<Rightarrow> bool"
where
  "space E c self pre key_of b \<longleftrightarrow>
     (\<forall>k. raw_item b k \<noteq> None \<and> starts_with k (as_map_key E pre) \<longrightarrow>
        (\<exists>v. k = as_map_key E (key_of v) \<and> mbs_get E c self k b = Ok v))"

abbreviation utxo_space where
  "utxo_space E self \<equiv> space E (json_utxo E) self (MapUtxo None) (\<lambda>u. MapUtxo (Some (outpoint u)))"

abbreviation raw_tx_space where
  "raw_tx_space E self \<equiv> space E (json_tx E) self (MapRawTx None) (\<lambda>tx. MapRawTx (Some (txid_of E tx)))"

abbreviation details_space where
  "details_space E self \<equiv>
     space E (json_details E) self (MapTransaction None) (\<lambda>td. MapTransaction (Some (td_txid td)))"

definition db_inv :: "'x bdk_env_scheme \<Rightarrow> MutinyBrowserStorage \<Rightarrow> browser \<Rightarrow> bool" where
  "db_inv E self b \<longleftrightarrow> utxo_space E self b \<and> raw_tx_space E self b \<and> details_space E self b"

lemma space_set_own:
  assumes "web_ok E \<and> codec_ok c" "db_set E c self k v b = (r, b')" "k = key_of v"
    and "space E c self pre key_of b"
  shows "space E c self pre key_of b'"
proof (cases "r = Ok ()")
  case True
  let ?k = "as_map_key E k"
  have set: "mbs_set E c self ?k v b = (Ok (), b')"
    using assms(2) True by (simp add: db_set_def)
  have "mbs_get E c self ?k b' = Ok v"
    by (rule mbs.put_get [OF assms(1) set])
  moreover have "raw_item b' x = raw_item b x" "mbs_get E c self x b' = mbs_get E c self x b" if "x \<noteq> ?k" for x
    using mbs.put_frame [OF set that] by (auto intro: mbs_get_cong)
  ultimately show ?thesis
    using assms(3,4) unfolding space_def by metis
next
  case False
  from db.put_fail [OF assms(2) False] assms(4) show ?thesis
    unfolding space_def by (metis mbs_get_cong)
qed

lemma space_set_other:
  assumes "db_set E c' self' k v b = (r, b')" "\<not> starts_with (as_map_key E k) (as_map_key E pre)"
    and "space E c self pre key_of b"
  shows "space E c self pre key_of b'"
  using assms(2,3) db.put_frame [OF assms(1)] unfolding space_def by (metis mbs_get_cong)

lemma space_take:
  assumes "db_take E c' self' k b = (r, b')" "space E c self pre key_of b"
  shows "space E c self pre key_of b'"
proof (cases r)
  case (Ok old)
  from assms(1) Ok have "db_take E c' self' k b = (Ok old, b')" by simp
  from db.take_raw [OF this] have "raw_item b' x = (if x = as_map_key E k then None else raw_item b x)" for x .
  with assms(2) show ?thesis unfolding space_def by (metis mbs_get_cong)
next
  case Err
  with db.take_fail [OF assms(1)] have "raw_item b' = raw_item b" by simp
  with assms(2) show ?thesis unfolding space_def by (metis mbs_get_cong)
next
  case Panic
  with db.take_fail [OF assms(1)] have "raw_item b' = raw_item b" by simp
  with assms(2) show ?thesis unfolding space_def by (metis mbs_get_cong)
qed

text \<open>A program keeps the invariant when it leads from a state with it to a state with it.\<close>

definition keeps_inv :: "'x bdk_env_scheme \<Rightarrow> MutinyBrowserStorage \<Rightarrow> (browser, 'a, BdkError) prog \<Rightarrow> bool" where
  "keeps_inv E self m \<longleftrightarrow> (\<forall>b. db_inv E self b \<longrightarrow> db_inv E self (snd (m b)))"

lemma keeps_inv_pbind [intro]:
  assumes "keeps_inv E self m" "\<And>v. keeps_inv E self (k v)"
  shows "keeps_inv E self (pbind m k)"
  using assms unfolding keeps_inv_def pbind_def
  by (auto split: prod.splits result.splits)

lemma keeps_invD: "keeps_inv E self m \<Longrightarrow> db_inv E self b \<Longrightarrow> db_inv E self (snd (m b))"
  by (simp add: keeps_inv_def)

lemma keeps_inv_basic [intro, simp]:
  "keeps_inv E self (preturn v)" "keeps_inv E self (perr e)" "keeps_inv E self (pread f)"
  by (simp_all add: keeps_inv_def)

lemma keeps_inv_take [intro]: "keeps_inv E self (db_take E c self' k)"
  unfolding keeps_inv_def db_inv_def by (metis space_take surjective_pairing)

lemma keeps_inv_set_other:
  assumes "bdk_ok E" "full_key k" "\<And>t. k \<noteq> MapUtxo t" "\<And>t. k \<noteq> MapRawTx t" "\<And>t. k \<noteq> MapTransaction t"
  shows "keeps_inv E self (db_set E c self k v)"
  unfolding keeps_inv_def db_inv_def
  using assms by (auto intro!: space_set_other [OF surjective_pairing] simp: key_under_prefix(1-3))

lemma keeps_inv_set_utxo [intro]:
  assumes "bdk_ok E"
  shows "keeps_inv E self (set_utxo E self u)"
  unfolding keeps_inv_def db_inv_def set_utxo_def
  using assms
  by (auto intro: space_set_own [OF _ surjective_pairing] space_set_other [OF surjective_pairing]
      simp: key_under_prefix(2,3) bdk_okD(1) bdk_ok_codecs)

lemma keeps_inv_set_raw_tx [intro]:
  assumes "bdk_ok E"
  shows "keeps_inv E self (set_raw_tx E self tx)"
  unfolding keeps_inv_def db_inv_def set_raw_tx_def
  using assms
  by (auto intro: space_set_own [OF _ surjective_pairing] space_set_other [OF surjective_pairing]
      simp: key_under_prefix(1,3) bdk_okD(1) bdk_ok_codecs)

lemma keeps_inv_set_details [intro]:
  assumes "bdk_ok E" "t = td_txid td"
  shows "keeps_inv E self (db_set E (json_details E) self (MapTransaction (Some t)) td)"
  unfolding keeps_inv_def db_inv_def
  using assms
  by (auto intro: space_set_own [OF _ surjective_pairing] space_set_other [OF surjective_pairing]
      simp: key_under_prefix(1,2) bdk_okD(1) bdk_ok_codecs)

lemma keeps_inv_set_tx: "bdk_ok E \<Longrightarrow> keeps_inv E self (set_tx E self td)"
  unfolding set_tx_def by (intro keeps_inv_pbind keeps_inv_set_details) (auto split: option.split)

lemmas keeps_inv_intros = keeps_inv_pbind keeps_inv_take keeps_inv_set_other keeps_inv_set_utxo
  keeps_inv_set_raw_tx keeps_inv_set_tx

text \<open>The operations that write, as one step function over a sequence of calls.\<close>

datatype DbCall =
    SetScriptPubkey Script KeychainKind u32
  | SetUtxo LocalUtxo
  | SetRawTx Transaction
  | SetTx TransactionDetails
  | SetLastIndex KeychainKind u32
  | SetSyncTime SyncTime
  | DelScriptPubkey KeychainKind u32
  | DelPath Script
  | DelUtxo OutPoint
  | DelRawTx Txid
  | DelTx Txid bool
  | DelLastIndex KeychainKind
  | DelSyncTime
  | CheckChecksum KeychainKind bytes
  | IncrementLastIndex KeychainKind

fun db_step :: "'x bdk_env_scheme \<Rightarrow> MutinyBrowserStorage \<Rightarrow> DbCall \<Rightarrow> browser \<Rightarrow> browser" where
  "db_step E self (SetScriptPubkey s kc p) b = snd (set_script_pubkey E self s kc p b)"
| "db_step E self (SetUtxo u) b = snd (set_utxo E self u b)"
| "db_step E self (SetRawTx tx) b = snd (set_raw_tx E self tx b)"
| "db_step E self (SetTx td) b = snd (set_tx E self td b)"
| "db_step E self (SetLastIndex kc v) b = snd (set_last_index E self kc v b)"
| "db_step E self (SetSyncTime t) b = snd (set_sync_time E self t b)"
| "db_step E self (DelScriptPubkey kc p) b = snd (del_script_pubkey_from_path E self kc p b)"
| "db_step E self (DelPath s) b = snd (del_path_from_script_pubkey E self s b)"
| "db_step E self (DelUtxo op) b = snd (del_utxo E self op b)"
| "db_step E self (DelRawTx t) b = snd (del_raw_tx E self t b)"
| "db_step E self (DelTx t raw) b = snd (del_tx E self t raw b)"
| "db_step E self (DelLastIndex kc) b = snd (del_last_index E self kc b)"
| "db_step E self DelSyncTime b = snd (del_sync_time E self b)"
| "db_step E self (CheckChecksum kc cs) b = snd (check_descriptor_checksum E self kc cs b)"
| "db_step E self (IncrementLastIndex kc) b = snd (increment_last_index E self kc b)"

lemma keeps_inv_del_tx: "keeps_inv E self (del_tx E self t raw)"
  by (auto simp: del_tx_def del_raw_tx_def)

lemma keeps_inv_checksum: "bdk_ok E \<Longrightarrow> keeps_inv E self (check_descriptor_checksum E self kc cs)"
  unfolding check_descriptor_checksum_def
  by (intro keeps_inv_pbind) (auto split: option.split intro: keeps_inv_set_other)

lemma keeps_inv_set_spk: "bdk_ok E \<Longrightarrow> keeps_inv E self (set_script_pubkey E self s kc p)"
  unfolding set_script_pubkey_def by (intro keeps_inv_pbind keeps_inv_set_other) auto

lemma keeps_inv_increment: "bdk_ok E \<Longrightarrow> keeps_inv E self (increment_last_index E self kc)"
  unfolding increment_last_index_def Let_def
  by (intro keeps_inv_pbind keeps_inv_set_other) auto

lemma db_inv_step: "bdk_ok E \<Longrightarrow> db_inv E self b \<Longrightarrow> db_inv E self (db_step E self call b)"
  by (cases call)
    (auto intro!: keeps_invD keeps_inv_set_spk keeps_inv_set_tx keeps_inv_del_tx keeps_inv_checksum
       keeps_inv_increment keeps_inv_set_utxo keeps_inv_set_raw_tx keeps_inv_set_other keeps_inv_take
       keeps_inv_pbind keeps_inv_basic
      simp: set_last_index_def set_sync_time_def del_script_pubkey_from_path_def
       del_path_from_script_pubkey_def del_utxo_def del_raw_tx_def del_last_index_def del_sync_time_def)

text \<open>Any sequence of calls.\<close>

definition db_run :: "'x bdk_env_scheme \<Rightarrow> MutinyBrowserStorage \<Rightarrow> DbCall list \<Rightarrow> browser \<Rightarrow> browser" where
  "db_run E self calls b = fold (db_step E self) calls b"

lemma db_inv_run: "bdk_ok E \<Longrightarrow> db_inv E self b \<Longrightarrow> db_inv E self (db_run E self calls b)"
  unfolding db_run_def by (induction calls arbitrary: b) (auto intro: db_inv_step)

lemma scan_space:
  assumes sp: "space E c self pre key_of b"
    and pre: "\<And>v. starts_with (as_map_key E (key_of v)) (as_map_key E pre)"
  obtains m where "mbs_scan E c self (as_map_key E pre) None b = Some m" "distinct (map fst m)"
    "\<And>k v. (k, v) \<in> set m \<longleftrightarrow> k = as_map_key E (key_of v) \<and> db_get E c self (key_of v) b = Ok (Some v)"
proof (cases rule: mbs_scan_cases [of E c self "as_map_key E pre" None b])
  case (panics k)
  with sp show ?thesis by (auto simp: space_def scan_matches_def)
next
  case (returns m)
  note d = mbs_scan_distinct [OF returns(1)]
  have "(k, v) \<in> set m \<longleftrightarrow> k = as_map_key E (key_of v) \<and> db_get E c self (key_of v) b = Ok (Some v)" for k v
  proof -
    have "raw_item b k \<noteq> None" if "mbs_get E c self k b = Ok v"
      using that mbs.get_absent [of b k E c self] by (cases "raw_item b k") auto
    then have "map_of m k = Some v \<longleftrightarrow> k = as_map_key E (key_of v) \<and> db_get E c self (key_of v) b = Ok (Some v)"
      using sp pre unfolding returns(2) space_def scan_matches_def db_get_def ok_of_Some_iff
      by (metis option.simps(4) result.inject(1))
    with d show ?thesis by simp
  qed
  with returns(1) d show ?thesis by (rule that)
qed

text \<open>A table whose values name their keys is listed without repetition.\<close>

lemma db_scan_values_space:
  assumes "space E c self pre key_of b"
    and "\<And>v. starts_with (as_map_key E (key_of v)) (as_map_key E pre)"
  shows "\<exists>vs. db_scan_values E c self pre b = Ok vs \<and> distinct vs \<and>
    set vs = {v. db_get E c self (key_of v) b = Ok (Some v)}"
proof -
  obtain m where m: "mbs_scan E c self (as_map_key E pre) None b = Some m" "distinct (map fst m)"
    "\<And>k v. (k, v) \<in> set m \<longleftrightarrow> k = as_map_key E (key_of v) \<and> db_get E c self (key_of v) b = Ok (Some v)"
    using scan_space [OF assms] by blast
  have "inj_on snd (set m)" by (rule inj_onI) (auto simp: m(3))
  with m(2) have "distinct (map snd m)" by (simp add: distinct_map)
  moreover have "set (map snd m) = {v. db_get E c self (key_of v) b = Ok (Some v)}"
  proof -
    have "v \<in> set (map snd m) \<longleftrightarrow> (\<exists>k. (k, v) \<in> set m)" for v by force
    then show ?thesis by (auto simp: m(3))
  qed
  ultimately show ?thesis using m(1) by (simp add: db_scan_values_def)
qed

text \<open>
  After any sequence of calls on the database, listing the unspent outputs and the raw
  transactions never panics and gives each stored value once and nothing else, provided this
  holds at the start (as in a fresh browser): every record stays filed under its own key.
\<close>

theorem listings_are_the_tables:
  assumes "bdk_ok E" "db_inv E self b0" "b = db_run E self calls b0"
  shows "(\<exists>us. iter_utxos E self b = Ok us \<and> distinct us \<and>
      set us = {u. get_utxo E self (outpoint u) b = Ok (Some u)}) \<and>
    (\<exists>txs. iter_raw_txs E self b = Ok txs \<and> distinct txs \<and>
      set txs = {tx. get_raw_tx E self (txid_of E tx) b = Ok (Some tx)})"
proof -
  have inv: "db_inv E self b" using assms by (simp add: db_inv_run)
  have "\<exists>us. iter_utxos E self b = Ok us \<and> distinct us \<and>
      set us = {u. get_utxo E self (outpoint u) b = Ok (Some u)}"
    unfolding iter_utxos_def get_utxo_def
    by (rule db_scan_values_space) (use inv assms(1) in \<open>auto simp: db_inv_def key_under_prefix(1)\<close>)
  moreover have "\<exists>txs. iter_raw_txs E self b = Ok txs \<and> distinct txs \<and>
      set txs = {tx. get_raw_tx E self (txid_of E tx) b = Ok (Some tx)}"
    unfolding iter_raw_txs_def get_raw_tx_def
    by (rule db_scan_values_space) (use inv assms(1) in \<open>auto simp: db_inv_def key_under_prefix(2)\<close>)
  ultimately show ?thesis by blast
qed

section \<open>Listing transactions\<close>

lemma collect_results_Ok:
  "\<forall>x \<in> set xs. f x = Ok (g x) \<Longrightarrow> collect_results f xs = Ok (map g xs)"
  by (induction xs) auto

lemma get_raw_tx_readable:
  assumes "bdk_ok E" "raw_tx_space E self b"
  shows "\<exists>raw. get_raw_tx E self t b = Ok raw"
proof (cases "raw_item b (as_map_key E (MapRawTx (Some t)))")
  case None
  from db.lookup_absent [OF this, of "json_tx E" self] show ?thesis by (auto simp: get_raw_tx_def)
next
  case (Some s)
  have "starts_with (as_map_key E (MapRawTx (Some t))) (as_map_key E (MapRawTx None))"
    using key_under_prefix(2) [OF assms(1), of "MapRawTx (Some t)"] by simp
  with Some assms(2) have "\<exists>tx. mbs_get E (json_tx E) self (as_map_key E (MapRawTx (Some t))) b = Ok tx"
    unfolding space_def by (metis option.distinct(1))
  then obtain tx where "mbs_get E (json_tx E) self (as_map_key E (MapRawTx (Some t))) b = Ok tx" ..
  then show ?thesis by (simp add: get_raw_tx_def db_get_def)
qed

text \<open>The id \<open>iter_txs\<close> cuts out of a key is the id the key was made of.\<close>

lemma as_map_key_tx:
  assumes "bdk_ok E"
  shows "as_map_key E (MapTransaction (Some t)) = to_hex E [0x74] @ to_hex E (ser_txid E t)"
    and "drop 2 (as_map_key E (MapTransaction (Some t))) = to_hex E (ser_txid E t)"
    and "\<not> length (as_map_key E (MapTransaction (Some t))) < 2"
proof -
  show k: "as_map_key E (MapTransaction (Some t)) = to_hex E [0x74] @ to_hex E (ser_txid E t)"
    using bdk_okD(6) [OF assms, of "[0x74]" "ser_txid E t"] by (simp add: as_map_key_def del: append_Cons append.simps)
  have l: "length (to_hex E [0x74]) = 2" by (simp add: bdk_okD(7) [OF assms])
  show "drop 2 (as_map_key E (MapTransaction (Some t))) = to_hex E (ser_txid E t)"
    by (simp add: k l)
  show "\<not> length (as_map_key E (MapTransaction (Some t))) < 2" by (simp add: k l)
qed

text \<open>
  After any sequence of calls, \<open>iter_txs\<close> succeeds with one entry for every stored
  transaction, the one \<open>get_tx\<close> finds under its id, with the raw transaction when asked for.
\<close>

theorem iter_txs_agrees_with_get_tx:
  assumes "bdk_ok E" "db_inv E self b0" "b = db_run E self calls b0"
  shows "\<exists>tds. iter_txs E self include_raw b = Ok tds \<and> distinct (map td_txid tds) \<and>
    (\<forall>td. td \<in> set tds \<longleftrightarrow> get_tx E self (td_txid td) include_raw b = Ok (Some td))"
proof -
  have inv: "db_inv E self b" using assms by (simp add: db_inv_run)
  obtain m where m: "mbs_scan E (json_details E) self (as_map_key E (MapTransaction None)) None b = Some m"
    "distinct (map fst m)"
    and el: "\<And>k v. (k, v) \<in> set m \<longleftrightarrow> k = as_map_key E (MapTransaction (Some (td_txid v))) \<and>
       db_get E (json_details E) self (MapTransaction (Some (td_txid v))) b = Ok (Some v)"
    using scan_space [of E "json_details E" self "MapTransaction None" "\<lambda>td. MapTransaction (Some (td_txid td))" b]
      inv assms(1) by (auto simp: db_inv_def key_under_prefix(3))
  define raw where "raw t = (case get_raw_tx E self t b of Ok r \<Rightarrow> r)" for t
  have raw: "get_raw_tx E self t b = Ok (raw t)" for t
    using get_raw_tx_readable [OF assms(1), of self b t] inv by (auto simp: raw_def db_inv_def)
  define g where "g kv = (if include_raw then snd kv\<lparr>td_transaction := raw (td_txid (snd kv))\<rparr> else snd kv)"
    for kv :: "string \<times> TransactionDetails"
  have "iter_txs_entry E self include_raw b kv = Ok (g kv)" if "kv \<in> set m" for kv
  proof -
    from that have "fst kv = as_map_key E (MapTransaction (Some (td_txid (snd kv))))"
      using el [of "fst kv" "snd kv"] by simp
    then show ?thesis
      by (cases kv) (simp add: iter_txs_entry_def g_def raw as_map_key_tx(2,3) [OF assms(1)]
          bdk_okD(5,9) [OF assms(1)])
  qed
  then have it: "iter_txs E self include_raw b = Ok (map g m)"
    by (simp add: iter_txs_def m(1) collect_results_Ok)
  have id_g: "td_txid (g kv) = td_txid (snd kv)" for kv by (simp add: g_def)
  have "inj_on (td_txid \<circ> g) (set m)"
  proof (rule inj_onI)
    fix x y assume "x \<in> set m" "y \<in> set m" "(td_txid \<circ> g) x = (td_txid \<circ> g) y"
    then show "x = y"
      using el [of "fst x" "snd x"] el [of "fst y" "snd y"] by (simp add: id_g prod_eq_iff)
  qed
  then have "distinct (map (td_txid \<circ> g) m)"
    using m(2) by (simp only: distinct_map)
  then have "distinct (map td_txid (map g m))" by simp
  moreover have "td \<in> set (map g m) \<longleftrightarrow> get_tx E self (td_txid td) include_raw b = Ok (Some td)" for td
  proof -
    have same_id: "v\<lparr>td_transaction := r\<rparr> = td \<Longrightarrow> td_txid v = td_txid td" for v r by auto
    have "td \<in> set (map g m) \<longleftrightarrow> (\<exists>k v. (k, v) \<in> set m \<and> td = g (k, v))"
      unfolding set_map image_iff by (metis surj_pair)
    also have "\<dots> \<longleftrightarrow> (\<exists>v. db_get E (json_details E) self (MapTransaction (Some (td_txid v))) b = Ok (Some v) \<and>
        td = g ([], v))"
      by (simp only: el) (simp add: g_def)
    also have "\<dots> \<longleftrightarrow> (\<exists>v. db_get E (json_details E) self (MapTransaction (Some (td_txid td))) b = Ok (Some v) \<and>
        td = g ([], v))"
      using id_g [of "([], _)"] by (metis snd_conv)
    also have "\<dots> \<longleftrightarrow> (\<exists>v. db_get E (json_details E) self (MapTransaction (Some (td_txid td))) b = Ok (Some v) \<and>
        td = (if include_raw then v\<lparr>td_transaction := raw (td_txid td)\<rparr> else v))"
      unfolding g_def snd_conv by (metis same_id)
    also have "\<dots> \<longleftrightarrow> get_tx E self (td_txid td) include_raw b = Ok (Some td)"
      by (cases "db_get E (json_details E) self (MapTransaction (Some (td_txid td))) b")
        (auto simp: get_tx_def raw split: option.splits if_splits)
    finally show ?thesis .
  qed
  ultimately show ?thesis using it by blast
qed

section \<open>A concrete instance\<close>

text \<open>An instance of the parameters, for the witnesses: hexadecimal with its digits, ids that are encodings.\<close>

definition byte_hex :: "u8 \<Rightarrow> string" where
  "byte_hex x = [hex_digits ! (unat x div 16), hex_digits ! (unat x mod 16)]"

fun unhex :: "string \<Rightarrow> bytes option" where
  "unhex (a # c # r) = (case (index_of a hex_digits, index_of c hex_digits, unhex r) of
     (Some i, Some j, Some bs) \<Rightarrow> Some (of_nat (16 * i + j) # bs) | _ \<Rightarrow> None)"
| "unhex [] = Some []"
| "unhex [_] = None"

lemma hex_digit_index: "i < 16 \<Longrightarrow> index_of (hex_digits ! i) hex_digits = Some i"
proof -
  have "\<forall>i < 16. index_of (hex_digits ! i) hex_digits = Some i" by code_simp
  then show "i < 16 \<Longrightarrow> index_of (hex_digits ! i) hex_digits = Some i" by simp
qed

lemma byte_div_16: "unat (x :: u8) div 16 < 16"
  using unsigned_less [of x, where 'a = nat] by (simp add: less_mult_imp_div_less)

lemma unhex_byte_hex: "unhex (concat (map byte_hex bs)) = Some bs"
proof (induction bs)
  case (Cons x bs)
  have "of_nat (16 * (unat x div 16) + unat x mod 16) = x" by simp
  with Cons show ?case
    by (simp add: byte_hex_def hex_digit_index byte_div_16 del: mult_div_mod_eq)
qed simp

lemma byte_hex_digits: "set (concat (map byte_hex bs)) \<subseteq> set hex_digits"
proof -
  have "length hex_digits = 16" by (simp add: hex_digits_def)
  then show ?thesis by (auto simp: byte_hex_def byte_div_16 intro!: nth_mem)
qed

definition demo_script :: Script where "demo_script = Script [0x51]"

definition demo_tx :: Transaction where "demo_tx = Transaction [2, 0]"

definition demo_utxo :: LocalUtxo where
  "demo_utxo = \<lparr>outpoint = \<lparr>op_txid = Txid [2, 0], op_vout = 1\<rparr>,
     txout = \<lparr>txout_value = 5000, txout_script = demo_script\<rparr>, utxo_keychain = External, is_spent = False\<rparr>"

definition demo_details :: TransactionDetails where
  "demo_details = \<lparr>td_transaction = Some demo_tx, td_txid = Txid [2, 0], td_received = 5000,
     td_sent = 0, td_fee = None, td_confirmation_time = None\<rparr>"

definition demo_bdk :: bdk_env where
  "demo_bdk = \<lparr>
     os_fill = os_fill demo_web, salt_b64 = salt_b64 demo_web,
     pbkdf2_hash = pbkdf2_hash demo_web, aes_encrypt = aes_encrypt demo_web,
     aes_decrypt = aes_decrypt demo_web, base64_encode = base64_encode demo_web,
     base64_decode = base64_decode demo_web, accepts = accepts demo_web,
     json_string = json_string demo_web, json_nodes = json_nodes demo_web,
     json_fees = json_fees demo_web, mnemonic_to_string = mnemonic_to_string demo_web,
     mnemonic_from_str = mnemonic_from_str demo_web,
     kc_byte = (\<lambda>k. case k of External \<Rightarrow> 0 | Internal \<Rightarrow> 1),
     ser_script = (\<lambda>s. case s of Script b \<Rightarrow> b),
     ser_outpoint = (\<lambda>p. be_bytes32 (op_vout p) @ (case op_txid p of Txid b \<Rightarrow> b)),
     ser_txid = (\<lambda>t. case t of Txid b \<Rightarrow> b),
     de_txid = (\<lambda>b. Some (Txid b)),
     txid_of = (\<lambda>t. case t of Transaction b \<Rightarrow> Txid b),
     to_hex = (\<lambda>b. concat (map byte_hex b)),
     from_hex = unhex,
     json_script = list_codec [demo_script],
     json_spk = list_codec [\<lparr>spk_keychain = External, spk_path = 7\<rparr>],
     json_utxo = list_codec [demo_utxo],
     json_tx = list_codec [demo_tx],
     json_details = list_codec [demo_details\<lparr>td_transaction := None\<rparr>],
     json_u32 = list_codec [0, 1],
     json_sync = list_codec [\<lparr>block_time = \<lparr>bt_height = 1, bt_timestamp = 2\<rparr>\<rparr>],
     json_bytes = list_codec [[1, 2]],
     show_gloo = (\<lambda>_. []), show_serde = []\<rparr>"

lemma demo_bdk_ok: "bdk_ok demo_bdk"
proof -
  have web: "web_ok demo_bdk"
    using demo_web_ok by (simp add: web_ok_def crypto_ok_def demo_bdk_def)
  have kc: "inj (kc_byte demo_bdk)"
    by (rule injI) (simp add: demo_bdk_def split: KeychainKind.splits)
  have sc: "inj (ser_script demo_bdk)"
    by (rule injI) (simp add: demo_bdk_def split: Script.splits)
  have op: "inj (ser_outpoint demo_bdk)"
  proof (rule injI)
    fix x y :: OutPoint assume "ser_outpoint demo_bdk x = ser_outpoint demo_bdk y"
    then show "x = y" by (cases x; cases y) (auto simp: demo_bdk_def split: Txid.splits)
  qed
  have hx: "length (concat (map byte_hex a)) = 2 * length a" for a
    by (induction a) (auto simp: byte_hex_def)
  show ?thesis
    unfolding bdk_ok_def
    using web kc sc op hx byte_hex_digits
    by (simp add: demo_bdk_def list_codec_ok unhex_byte_hex split: Txid.split)
qed

abbreviation plain :: MutinyBrowserStorage where
  "plain \<equiv> \<lparr>password = []\<rparr>"

lemma demo_db_set:
  assumes "to_json c v = Some data" "ascii data"
  shows "\<exists>b'. db_set demo_bdk c plain k v b = (Ok (), b')"
proof -
  have "\<exists>b'. mbs_set demo_bdk c plain (as_map_key demo_bdk k) v b = (Ok (), b')"
    by (rule set_plain [OF _ _ assms]) (simp_all add: demo_bdk_def demo_web_def)
  then show ?thesis by (auto simp: db_set_def pmap_err_def)
qed

lemma demo_db_set_list:
  "v \<in> set xs \<Longrightarrow> \<exists>b'. db_set demo_bdk (list_codec xs) plain k v b = (Ok (), b')"
proof -
  assume "v \<in> set xs"
  then have "\<exists>i. index_of v xs = Some i" by (induction xs) auto
  then obtain i where "to_json (list_codec xs) v = Some (replicate i CHR ''a'')"
    by (auto simp: list_codec_def)
  then show ?thesis by (rule demo_db_set) (simp add: ascii_def)
qed

lemma demo_get_absent: "db_get demo_bdk c self k demo_browser = Ok None"
  by (rule db.lookup_absent) (simp add: demo_browser_def raw_item_def)

lemma demo_codecs [simp]:
  "json_script demo_bdk = list_codec [demo_script]"
  "json_spk demo_bdk = list_codec [\<lparr>spk_keychain = External, spk_path = 7\<rparr>]"
  "json_utxo demo_bdk = list_codec [demo_utxo]"
  "json_tx demo_bdk = list_codec [demo_tx]"
  "json_details demo_bdk = list_codec [demo_details\<lparr>td_transaction := None\<rparr>]"
  "json_u32 demo_bdk = list_codec [0, 1]"
  "json_bytes demo_bdk = list_codec [[1, 2]]"
  "txid_of demo_bdk demo_tx = Txid [2, 0]"
  by (simp_all add: demo_bdk_def demo_tx_def)

lemma demo_set_utxo: "\<exists>b'. set_utxo demo_bdk plain demo_utxo b = (Ok (), b')"
  unfolding set_utxo_def demo_codecs by (rule demo_db_set_list) simp

lemma demo_inv: "db_inv demo_bdk plain demo_browser"
  by (simp add: db_inv_def space_def demo_browser_def raw_item_def)

lemma map_keys_disjoint_witness:
  "as_map_key demo_bdk (MapLastIndex External) \<noteq> as_map_key demo_bdk (MapLastIndex Internal) \<and>
   as_map_key demo_bdk MapSyncTime \<noteq> nodes_key"
  using map_keys_disjoint [OF demo_bdk_ok, of "MapLastIndex External" "MapLastIndex Internal" "CHR ''x''"]
    map_keys_disjoint [OF demo_bdk_ok, of MapSyncTime MapSyncTime "CHR ''x''"]
  by auto

lemma utxo_table_witness:
  "\<exists>b'. set_utxo demo_bdk plain demo_utxo demo_browser = (Ok (), b') \<and>
     get_utxo demo_bdk plain (outpoint demo_utxo) b' = Ok (Some demo_utxo)"
proof -
  obtain b' where b': "set_utxo demo_bdk plain demo_utxo demo_browser = (Ok (), b')"
    using demo_set_utxo by blast
  from utxo_table [OF demo_bdk_ok b'] b' show ?thesis by blast
qed

lemma batch_writes_through_witness:
  "\<exists>b'. set_utxo demo_bdk (begin_batch plain) demo_utxo demo_browser = (Ok (), b') \<and>
     get_utxo demo_bdk plain (outpoint demo_utxo) b' = Ok (Some demo_utxo)"
proof -
  obtain b' where b': "set_utxo demo_bdk (begin_batch plain) demo_utxo demo_browser = (Ok (), b')"
    using demo_set_utxo by (auto simp: begin_batch_def)
  from batch_writes_through [OF demo_bdk_ok b'] b' show ?thesis by blast
qed

lemma set_tx_get_tx_witness:
  "\<exists>b'. set_tx demo_bdk plain demo_details demo_browser = (Ok (), b') \<and>
     get_tx demo_bdk plain (Txid [2, 0]) True b' = Ok (Some demo_details)"
proof -
  obtain b1 where "db_set demo_bdk (list_codec [demo_tx]) plain (MapRawTx (Some (Txid [2, 0]))) demo_tx demo_browser = (Ok (), b1)"
    using demo_db_set_list [of demo_tx "[demo_tx]"] by auto
  moreover obtain b2 where "db_set demo_bdk (list_codec [demo_details\<lparr>td_transaction := None\<rparr>]) plain
      (MapTransaction (Some (Txid [2, 0]))) (demo_details\<lparr>td_transaction := None\<rparr>) b1 = (Ok (), b2)"
    using demo_db_set_list [of "demo_details\<lparr>td_transaction := None\<rparr>" "[demo_details\<lparr>td_transaction := None\<rparr>]"]
    by auto
  moreover have d: "td_transaction demo_details = Some demo_tx" "td_txid demo_details = Txid [2, 0]"
    by (simp_all add: demo_details_def)
  ultimately have b': "set_tx demo_bdk plain demo_details demo_browser = (Ok (), b2)"
    by (simp add: set_tx_def set_raw_tx_def pbind_Ok_iff)
  with set_tx_get_tx [OF demo_bdk_ok b'] d show ?thesis by auto
qed

lemma increment_last_index_counts_witness:
  "\<exists>b'. increment_last_index demo_bdk plain External demo_browser = (Ok 0, b') \<and>
     get_last_index demo_bdk plain External b' = Ok (Some 0)"
proof -
  obtain b1 where "db_set demo_bdk (list_codec [0, 1]) plain (MapLastIndex External) (0 :: u32) demo_browser = (Ok (), b1)"
    using demo_db_set_list [of "0 :: u32" "[0, 1]"] by auto
  then have b': "increment_last_index demo_bdk plain External demo_browser = (Ok 0, b1)"
    by (simp add: increment_last_index_def Let_def demo_get_absent pbind_Ok_iff)
  from increment_last_index_counts [OF demo_bdk_ok b'] b' show ?thesis by blast
qed

lemma descriptor_checksum_pinned_witness:
  "\<exists>b'. check_descriptor_checksum demo_bdk plain External [1, 2] demo_browser = (Ok (), b') \<and>
     check_descriptor_checksum demo_bdk plain External [9] b' = (Err BdkChecksumMismatch, b')"
proof -
  obtain b1 where "db_set demo_bdk (list_codec [[1, 2]]) plain (MapDescriptorChecksum External) [1, 2 :: u8] demo_browser = (Ok (), b1)"
    using demo_db_set_list [of "[1, 2 :: u8]" "[[1, 2]]"] by auto
  then have b': "check_descriptor_checksum demo_bdk plain External [1, 2] demo_browser = (Ok (), b1)"
    by (simp add: check_descriptor_checksum_def demo_get_absent)
  from descriptor_checksum_pinned [OF demo_bdk_ok demo_get_absent b', of "[9]"] b' show ?thesis by auto
qed

lemma script_pubkey_both_ways_witness:
  "\<exists>b'. set_script_pubkey demo_bdk plain demo_script External 7 demo_browser = (Ok (), b') \<and>
     get_path_from_script_pubkey demo_bdk plain demo_script b' = Ok (Some (External, 7))"
proof -
  let ?info = "\<lparr>spk_keychain = External, spk_path = 7\<rparr>"
  obtain b1 where "db_set demo_bdk (list_codec [demo_script]) plain (MapPath (Some External) (Some 7)) demo_script demo_browser = (Ok (), b1)"
    using demo_db_set_list [of demo_script "[demo_script]"] by auto
  moreover obtain b2 where "db_set demo_bdk (list_codec [?info]) plain (MapScript (Some demo_script)) ?info b1 = (Ok (), b2)"
    using demo_db_set_list [of ?info "[?info]"] by auto
  ultimately have b': "set_script_pubkey demo_bdk plain demo_script External 7 demo_browser = (Ok (), b2)"
    by (simp add: set_script_pubkey_def pbind_Ok_iff)
  from script_pubkey_both_ways [OF demo_bdk_ok b'] b' show ?thesis by blast
qed

lemma listings_are_the_tables_witness:
  "\<exists>us. iter_utxos demo_bdk plain (db_run demo_bdk plain [SetUtxo demo_utxo] demo_browser) = Ok us \<and> demo_utxo \<in> set us"
proof -
  obtain b' where b': "set_utxo demo_bdk plain demo_utxo demo_browser = (Ok (), b')"
    using demo_set_utxo by blast
  then have run: "b' = db_run demo_bdk plain [SetUtxo demo_utxo] demo_browser" by (simp add: db_run_def)
  from listings_are_the_tables [OF demo_bdk_ok demo_inv run] utxo_stored [OF demo_bdk_ok b'] run
  show ?thesis by auto
qed

lemma iter_txs_agrees_with_get_tx_witness:
  "iter_txs demo_bdk plain True (db_run demo_bdk plain [] demo_browser) = Ok []"
proof -
  have "get_tx demo_bdk plain t True demo_browser = Ok None" for t
    by (simp add: get_tx_def demo_get_absent)
  with iter_txs_agrees_with_get_tx [OF demo_bdk_ok demo_inv, of demo_browser "[]" True]
  show ?thesis by (auto simp: db_run_def)
qed

end
