(* ===== verification/Invoices.thy ===== *)
theory Invoices
  imports BdkStorage
begin

text \<open>
  \<open>node-manager/src/invoice.rs\<close>: choosing route hints among the node's channels and creating
  an invoice that routes through a phantom node. \<open>ChannelDetails\<close> holds the fields of LDK's type
  that the wallet reads. Creating payment secrets, encoding and signing are parameters.
\<close>

section \<open>Data\<close>

datatype PublicKey = PublicKey bytes

datatype PaymentHash = PaymentHash bytes

datatype PaymentSecret = PaymentSecret bytes

record ForwardingInfo =
  fee_base_msat :: u32
  fee_proportional_millionths :: u32
  fwd_cltv_expiry_delta :: "16 word"

record ChannelDetails =
  channel_id :: bytes
  peer_id :: PublicKey
  forwarding_info :: "ForwardingInfo option"
  inbound_payment_scid :: "u64 option"
  is_channel_ready :: bool
  is_usable :: bool
  is_public :: bool
  inbound_capacity_msat :: u64
  outbound_capacity_msat :: u64
  channel_value_satoshis :: u64
  inbound_htlc_minimum_msat :: "u64 option"
  inbound_htlc_maximum_msat :: "u64 option"

record RouteHintHop =
  src_node_id :: PublicKey
  short_channel_id :: u64
  base_msat :: u32
  proportional_millionths :: u32
  cltv_expiry_delta :: "16 word"
  htlc_minimum_msat :: "u64 option"
  htlc_maximum_msat :: "u64 option"

datatype RouteHint = RouteHint (hops: "RouteHintHop list")

record PhantomRouteHints =
  channels :: "ChannelDetails list"
  phantom_scid :: u64
  real_node_pubkey :: PublicKey

section \<open>Choosing the channels\<close>

text \<open>The flags and the map the first loop of \<open>filter_channels\<close> builds.\<close>

record Filtering =
  filtered_channels :: "(PublicKey \<times> ChannelDetails) list"
  min_capacity_channel_exists :: bool
  online_channel_exists :: bool
  online_min_capacity_channel_exists :: bool

definition filtering_new :: Filtering where
  "filtering_new = \<lparr>filtered_channels = [], min_capacity_channel_exists = False,
     online_channel_exists = False, online_min_capacity_channel_exists = False\<rparr>"

text \<open>\<open>match filtered_channels.entry(..)\<close>: a channel replaces one of no more capacity.\<close>

definition keep_best :: "ChannelDetails \<Rightarrow> (PublicKey \<times> ChannelDetails) list \<Rightarrow> (PublicKey \<times> ChannelDetails) list" where
  "keep_best channel m =
     (case map_of m (peer_id channel) of
        Some entry \<Rightarrow>
          if inbound_capacity_msat channel < inbound_capacity_msat entry then m
          else AList.update (peer_id channel) channel m
      | None \<Rightarrow> AList.update (peer_id channel) channel m)"

definition note_channel :: "u64 \<Rightarrow> ChannelDetails \<Rightarrow> Filtering \<Rightarrow> Filtering" where
  "note_channel min_cap channel st =
     st\<lparr>filtered_channels := keep_best channel (filtered_channels st),
        min_capacity_channel_exists := min_capacity_channel_exists st \<or> min_cap \<le> inbound_capacity_msat channel,
        online_min_capacity_channel_exists := online_min_capacity_channel_exists st \<or>
          (min_cap \<le> inbound_capacity_msat channel \<and> is_usable channel),
        online_channel_exists := online_channel_exists st \<or> is_usable channel\<rparr>"

definition skipped :: "ChannelDetails \<Rightarrow> bool" where
  "skipped channel \<longleftrightarrow> inbound_payment_scid channel = None \<or> forwarding_info channel = None"

text \<open>The loop; \<open>None\<close> is the early return at a public channel.\<close>

fun filter_loop :: "u64 \<Rightarrow> ChannelDetails list \<Rightarrow> Filtering \<Rightarrow> Filtering option" where
  "filter_loop min_cap [] st = Some st"
| "filter_loop min_cap (channel # rest) st =
     (if \<not> is_channel_ready channel then filter_loop min_cap rest st
      else if skipped channel then filter_loop min_cap rest st
      else if is_public channel then None
      else filter_loop min_cap rest (note_channel min_cap channel st))"

definition route_hint_from_channel :: "ChannelDetails \<Rightarrow> RouteHint option" where
  "route_hint_from_channel channel =
     (case (forwarding_info channel, inbound_payment_scid channel) of
        (Some info, Some scid) \<Rightarrow>
          Some (RouteHint [\<lparr>src_node_id = peer_id channel, short_channel_id = scid,
            base_msat = fee_base_msat info, proportional_millionths = fee_proportional_millionths info,
            cltv_expiry_delta = fwd_cltv_expiry_delta info,
            htlc_minimum_msat = inbound_htlc_minimum_msat channel,
            htlc_maximum_msat = inbound_htlc_maximum_msat channel\<rparr>])
      | _ \<Rightarrow> None)"

definition include_channel :: "u64 \<Rightarrow> Filtering \<Rightarrow> ChannelDetails \<Rightarrow> bool" where
  "include_channel min_cap st channel =
     (let has_enough_capacity = min_cap \<le> inbound_capacity_msat channel in
      if online_min_capacity_channel_exists st then has_enough_capacity \<and> is_usable channel
      else if min_capacity_channel_exists st \<and> online_channel_exists st then has_enough_capacity
      else if min_capacity_channel_exists st then has_enough_capacity
      else if online_channel_exists st then is_usable channel
      else True)"

text \<open>
  \<open>None\<close> is a panic: the \<open>debug_assert\<close> of the filter, or an \<open>unwrap\<close> in
  \<open>route_hint_from_channel\<close>.
\<close>

fun hints_of :: "u64 \<Rightarrow> Filtering \<Rightarrow> ChannelDetails list \<Rightarrow> RouteHint list option" where
  "hints_of min_cap st [] = Some []"
| "hints_of min_cap st (channel # rest) =
     (if include_channel min_cap st channel then
        (case (route_hint_from_channel channel, hints_of min_cap st rest) of
           (Some h, Some hs) \<Rightarrow> Some (h # hs) | _ \<Rightarrow> None)
      else if \<not> min_cap \<le> inbound_capacity_msat channel then hints_of min_cap st rest
      else if is_usable channel then None
      else hints_of min_cap st rest)"

definition filter_channels :: "ChannelDetails list \<Rightarrow> u64 option \<Rightarrow> RouteHint list option" where
  "filter_channels chans min_inbound_capacity_msat =
     (let min_cap = (case min_inbound_capacity_msat of Some m \<Rightarrow> m | None \<Rightarrow> 0) in
      case filter_loop min_cap chans filtering_new of
        None \<Rightarrow> Some []
      | Some st \<Rightarrow> hints_of min_cap st (map snd (filtered_channels st)))"

section \<open>Creating the invoice\<close>

datatype CreationError = MissingRouteHints | InvalidAmount | OtherCreationError

datatype SignOrCreationError = SignError | CreationError CreationError

datatype Currency = Bitcoin | BitcoinTestnet | Regtest | Simnet | Signet

datatype InvoiceDescription = Direct string | DescriptionHash bytes

text \<open>
  The fields of an invoice that the wallet sets through \<open>InvoiceBuilder\<close> or reads; the payee
  is the explicit field, which \<open>InvoiceBuilder\<close> leaves out unless it is set.
\<close>

record InvoiceFields =
  inv_currency :: Currency
  inv_description :: InvoiceDescription
  inv_timestamp :: u64
  inv_payment_hash :: PaymentHash
  inv_payment_secret :: PaymentSecret
  inv_min_final_cltv :: u64
  inv_expiry_secs :: u64
  inv_amount_msat :: "u64 option"
  inv_payee :: "PublicKey option"
  inv_routes :: "RouteHint list"

datatype Invoice = Invoice (inv_fields: InvoiceFields) (inv_signature: bytes)

text \<open>LDK's key material, its two CLTV constants and the invoice encoder.\<close>

record keys_manager =
  MIN_FINAL_CLTV_EXPIRY :: u64
  MIN_CLTV_EXPIRY_DELTA :: "16 word"
  now_secs :: u64
  secret_from_hash :: "u64 option \<Rightarrow> PaymentHash \<Rightarrow> u32 \<Rightarrow> u64 \<Rightarrow> PaymentSecret option"
  hash_and_secret :: "u64 option \<Rightarrow> u32 \<Rightarrow> u64 \<Rightarrow> (PaymentHash \<times> PaymentSecret) option"
  build_raw_error :: "InvoiceFields \<Rightarrow> CreationError option"
  sign_fields :: "InvoiceFields \<Rightarrow> bytes option"
  from_signed_ok :: "InvoiceFields \<Rightarrow> bytes \<Rightarrow> bool"

definition phantom_hop :: "keys_manager \<Rightarrow> PhantomRouteHints \<Rightarrow> RouteHintHop" where
  "phantom_hop K p = \<lparr>src_node_id = real_node_pubkey p, short_channel_id = phantom_scid p,
     base_msat = 0, proportional_millionths = 0, cltv_expiry_delta = MIN_CLTV_EXPIRY_DELTA K,
     htlc_minimum_msat = None, htlc_maximum_msat = None\<rparr>"

definition phantom_routes :: "keys_manager \<Rightarrow> u64 option \<Rightarrow> PhantomRouteHints \<Rightarrow> RouteHint list option" where
  "phantom_routes K amt_msat p =
     map_option (\<lambda>route_hints.
        map (\<lambda>h. RouteHint (hops h @ [phantom_hop K p]))
          (if route_hints = [] then [RouteHint []] else route_hints))
       (filter_channels (channels p) amt_msat)"

fun all_routes :: "keys_manager \<Rightarrow> u64 option \<Rightarrow> PhantomRouteHints list \<Rightarrow> RouteHint list option" where
  "all_routes K amt_msat [] = Some []"
| "all_routes K amt_msat (p # ps) =
     Option.bind (phantom_routes K amt_msat p) (\<lambda>r. map_option ((@) r) (all_routes K amt_msat ps))"

definition create_phantom_invoice ::
  "keys_manager \<Rightarrow> u64 option \<Rightarrow> PaymentHash option \<Rightarrow> string \<Rightarrow> u32 \<Rightarrow> PhantomRouteHints list \<Rightarrow> Currency \<Rightarrow>
   (Invoice, SignOrCreationError) result" where
  "create_phantom_invoice K amt_msat payment_hash description expiry_secs phantom_route_hints network =
     (if phantom_route_hints = [] then Err (CreationError MissingRouteHints)
      else
        case (case payment_hash of
                Some h \<Rightarrow> map_option (Pair h) (secret_from_hash K amt_msat h expiry_secs (now_secs K))
              | None \<Rightarrow> hash_and_secret K amt_msat expiry_secs (now_secs K)) of
          None \<Rightarrow> Err (CreationError InvalidAmount)
        | Some (hash, secret) \<Rightarrow>
            (case all_routes K amt_msat phantom_route_hints of
               None \<Rightarrow> Panic
             | Some routes \<Rightarrow>
                 (let fields = \<lparr>inv_currency = network, inv_description = Direct description,
                        inv_timestamp = now_secs K, inv_payment_hash = hash, inv_payment_secret = secret,
                        inv_min_final_cltv = MIN_FINAL_CLTV_EXPIRY K, inv_expiry_secs = ucast expiry_secs,
                        inv_amount_msat = amt_msat, inv_payee = None, inv_routes = routes\<rparr>
                  in case build_raw_error K fields of
                       Some e \<Rightarrow> Err (CreationError e)
                     | None \<Rightarrow>
                         (case sign_fields K fields of
                            None \<Rightarrow> Err SignError
                          | Some signature \<Rightarrow>
                              if from_signed_ok K fields signature then Ok (Invoice fields signature)
                              else Panic))))"

section \<open>What the filter keeps\<close>

text \<open>The private channels of a node that could be hinted at, and how hints are preferred.\<close>

definition candidates :: "ChannelDetails list \<Rightarrow> ChannelDetails list" where
  "candidates chans = filter (\<lambda>c. is_channel_ready c \<and> \<not> skipped c) chans"

definition preferred :: "u64 \<Rightarrow> ChannelDetails set \<Rightarrow> ChannelDetails \<Rightarrow> bool" where
  "preferred m cands c \<longleftrightarrow>
     (if \<exists>d \<in> cands. m \<le> inbound_capacity_msat d \<and> is_usable d then m \<le> inbound_capacity_msat c \<and> is_usable c
      else if \<exists>d \<in> cands. m \<le> inbound_capacity_msat d then m \<le> inbound_capacity_msat c
      else if \<exists>d \<in> cands. is_usable d then is_usable c
      else True)"

text \<open>One channel per peer, each of the largest capacity with this peer.\<close>

definition best_per_peer :: "ChannelDetails set \<Rightarrow> ChannelDetails list \<Rightarrow> bool" where
  "best_per_peer cands kept \<longleftrightarrow> set kept \<subseteq> cands \<and> distinct (map peer_id kept) \<and>
     (\<forall>c \<in> cands. \<exists>k \<in> set kept. peer_id k = peer_id c \<and> inbound_capacity_msat c \<le> inbound_capacity_msat k)"

lemma filter_loop_fold:
  "filter_loop m chans st =
     (if \<exists>c \<in> set (candidates chans). is_public c then None
      else Some (fold (note_channel m) (candidates chans) st))"
  by (induction chans arbitrary: st) (auto simp: candidates_def)

lemma keep_best_map:
  "map_of (keep_best c m) p =
     (if p = peer_id c \<and> (\<forall>e. map_of m p = Some e \<longrightarrow> inbound_capacity_msat e \<le> inbound_capacity_msat c)
      then Some c else map_of m p)"
  by (auto simp: keep_best_def update_conv' not_less split: option.splits)

lemma keep_best_distinct: "distinct (map fst m) \<Longrightarrow> distinct (map fst (keep_best c m))"
  by (auto simp: keep_best_def distinct_update split: option.splits)

definition filtering_inv :: "u64 \<Rightarrow> ChannelDetails set \<Rightarrow> Filtering \<Rightarrow> bool" where
  "filtering_inv m cands st \<longleftrightarrow>
     distinct (map fst (filtered_channels st)) \<and>
     (\<forall>p c. map_of (filtered_channels st) p = Some c \<longrightarrow>
        c \<in> cands \<and> peer_id c = p \<and>
        (\<forall>d \<in> cands. peer_id d = p \<longrightarrow> inbound_capacity_msat d \<le> inbound_capacity_msat c)) \<and>
     (\<forall>d \<in> cands. map_of (filtered_channels st) (peer_id d) \<noteq> None) \<and>
     (min_capacity_channel_exists st \<longleftrightarrow> (\<exists>d \<in> cands. m \<le> inbound_capacity_msat d)) \<and>
     (online_channel_exists st \<longleftrightarrow> (\<exists>d \<in> cands. is_usable d)) \<and>
     (online_min_capacity_channel_exists st \<longleftrightarrow> (\<exists>d \<in> cands. m \<le> inbound_capacity_msat d \<and> is_usable d))"

lemma filtering_inv_note:
  assumes "filtering_inv m cands st"
  shows "filtering_inv m (insert c cands) (note_channel m c st)"
proof -
  let ?F = "filtered_channels st"
  have F: "distinct (map fst ?F)"
    "\<And>p e. map_of ?F p = Some e \<Longrightarrow> e \<in> cands \<and> peer_id e = p"
    "\<And>p e d. map_of ?F p = Some e \<Longrightarrow> d \<in> cands \<Longrightarrow> peer_id d = p \<Longrightarrow> inbound_capacity_msat d \<le> inbound_capacity_msat e"
    "\<And>d. d \<in> cands \<Longrightarrow> \<exists>e. map_of ?F (peer_id d) = Some e"
    using assms by (auto simp: filtering_inv_def)
  have best: "e \<in> insert c cands \<and> peer_id e = p \<and>
      (\<forall>d \<in> insert c cands. peer_id d = p \<longrightarrow> inbound_capacity_msat d \<le> inbound_capacity_msat e)"
    if e: "map_of (keep_best c ?F) p = Some e" for p e
  proof (cases "p = peer_id c \<and> (\<forall>e. map_of ?F p = Some e \<longrightarrow> inbound_capacity_msat e \<le> inbound_capacity_msat c)")
    case True
    with e have "e = c" by (simp add: keep_best_map)
    moreover have "inbound_capacity_msat d \<le> inbound_capacity_msat c" if d: "d \<in> cands" "peer_id d = p" for d
      using F(3) [OF _ d] F(4) [OF d(1)] d True order_trans by blast
    ultimately show ?thesis using True by auto
  next
    case False
    with e have e': "map_of ?F p = Some e" by (simp add: keep_best_map split: if_splits)
    with False have "peer_id c = p \<Longrightarrow> inbound_capacity_msat c \<le> inbound_capacity_msat e" by force
    with F(2,3) e' show ?thesis by blast
  qed
  have "map_of (keep_best c ?F) (peer_id d) \<noteq> None" if "d \<in> insert c cands" for d
  proof (cases "d = c")
    case True
    then show ?thesis by (cases "map_of ?F (peer_id c)") (auto simp: keep_best_map)
  next
    case False
    with that F(4) [of d] show ?thesis by (auto simp: keep_best_map)
  qed
  with best F(1) assms show ?thesis
    unfolding filtering_inv_def note_channel_def by (simp add: keep_best_distinct) blast
qed

lemma filtering_inv_fold: "filtering_inv m cands st \<Longrightarrow> filtering_inv m (cands \<union> set cs) (fold (note_channel m) cs st)"
proof (induction cs arbitrary: cands st)
  case (Cons c cs)
  from Cons.IH [OF filtering_inv_note [OF Cons.prems]] show ?case by simp
qed simp

lemma filtering_inv_new: "filtering_inv m {} filtering_new"
  by (simp add: filtering_inv_def filtering_new_def)

lemma include_channel_preferred:
  assumes "filtering_inv m cands st"
  shows "include_channel m st c \<longleftrightarrow> preferred m cands c"
  using assms unfolding filtering_inv_def include_channel_def preferred_def Let_def by auto

lemma hints_of_result:
  assumes "filtering_inv m cands st" "\<forall>c \<in> set cs. c \<in> cands \<and> \<not> skipped c"
  shows "hints_of m st cs = Some (map (\<lambda>c. the (route_hint_from_channel c)) (filter (preferred m cands) cs))"
  using assms(2)
proof (induction cs)
  case (Cons c cs)
  then obtain h where hint: "route_hint_from_channel c = Some h"
    by (auto simp: route_hint_from_channel_def skipped_def)
  have "\<not> preferred m cands c \<Longrightarrow> m \<le> inbound_capacity_msat c \<Longrightarrow> \<not> is_usable c"
    using Cons.prems by (auto simp: preferred_def split: if_splits)
  with Cons hint show ?case by (simp add: include_channel_preferred [OF assms(1)])
qed simp

lemma filter_channels_private:
  assumes "\<not> (\<exists>c \<in> set (candidates chans). is_public c)"
  shows "\<exists>kept. best_per_peer (set (candidates chans)) kept \<and>
    filter_channels chans amt = Some (map (\<lambda>c. the (route_hint_from_channel c))
      (filter (preferred (case amt of Some m \<Rightarrow> m | None \<Rightarrow> 0) (set (candidates chans))) kept))"
proof -
  let ?m = "case amt of Some m \<Rightarrow> m | None \<Rightarrow> 0" and ?C = "set (candidates chans)"
  define st where "st = fold (note_channel ?m) (candidates chans) filtering_new"
  have loop: "filter_loop ?m chans filtering_new = Some st"
    using assms by (simp add: filter_loop_fold st_def)
  have inv: "filtering_inv ?m ?C st"
    using filtering_inv_fold [OF filtering_inv_new, of ?m "candidates chans"] by (simp add: st_def)
  let ?F = "filtered_channels st" and ?kept = "map snd (filtered_channels st)"
  have entry: "c \<in> ?C \<and> peer_id c = p \<and>
      (\<forall>d \<in> ?C. peer_id d = p \<longrightarrow> inbound_capacity_msat d \<le> inbound_capacity_msat c)" if "(p, c) \<in> set ?F" for p c
    using inv that unfolding filtering_inv_def by (metis map_of_eq_Some_iff)
  have peers: "map peer_id ?kept = map fst ?F" using entry by auto
  have "best_per_peer ?C ?kept"
    unfolding best_per_peer_def
  proof (intro conjI ballI)
    show "set ?kept \<subseteq> ?C" using entry by auto
    show "distinct (map peer_id ?kept)" using inv unfolding peers filtering_inv_def by simp
    fix c assume c: "c \<in> ?C"
    with inv obtain e where "map_of ?F (peer_id c) = Some e" by (auto simp: filtering_inv_def)
    then have "(peer_id c, e) \<in> set ?F" by (rule map_of_SomeD)
    with entry [OF this] c show "\<exists>k \<in> set ?kept. peer_id k = peer_id c \<and> inbound_capacity_msat c \<le> inbound_capacity_msat k"
      by force
  qed
  moreover have "\<forall>c \<in> set ?kept. c \<in> ?C \<and> \<not> skipped c" using entry by (auto simp: candidates_def)
  ultimately show ?thesis
    using hints_of_result [OF inv] loop by (auto simp: filter_channels_def Let_def)
qed

lemma some_preferred: "C \<noteq> {} \<Longrightarrow> \<exists>c \<in> C. preferred m C c"
  unfolding preferred_def
  by (cases "\<exists>d \<in> C. m \<le> inbound_capacity_msat d \<and> is_usable d";
      cases "\<exists>d \<in> C. m \<le> inbound_capacity_msat d"; cases "\<exists>d \<in> C. is_usable d") auto

section \<open>Properties of route hints\<close>

text \<open>
  C37: the route hints: none as soon as a ready public channel exists; otherwise the hints of
  the preferred channels among one channel per peer, the one of the largest inbound capacity.
  The filter never panics, its debug assertion included.
\<close>

theorem filter_channels_spec:
  "if \<exists>c \<in> set (candidates chans). is_public c then filter_channels chans amt = Some []
   else \<exists>kept. best_per_peer (set (candidates chans)) kept \<and>
     filter_channels chans amt = Some (map (\<lambda>c. the (route_hint_from_channel c))
       (filter (preferred (case amt of Some m \<Rightarrow> m | None \<Rightarrow> 0) (set (candidates chans))) kept))"
proof (cases "\<exists>c \<in> set (candidates chans). is_public c")
  case True
  then show ?thesis by (simp add: filter_channels_def Let_def filter_loop_fold)
next
  case False
  then show ?thesis using filter_channels_private [OF False] by simp
qed

text \<open>
  When no two candidate channels share a peer, a node with private candidates gets at
  least one hint, and every hint has capacity for the payment if any candidate has.
\<close>

theorem some_hint_for_distinct_peers:
  assumes "candidates chans \<noteq> []" "distinct (map peer_id (candidates chans))"
    and "\<forall>c \<in> set (candidates chans). \<not> is_public c"
  shows "\<exists>cs. cs \<noteq> [] \<and> set cs \<subseteq> set (candidates chans) \<and>
    filter_channels chans amt = Some (map (\<lambda>c. the (route_hint_from_channel c)) cs) \<and>
    ((\<exists>c \<in> set (candidates chans). (case amt of Some m \<Rightarrow> m | None \<Rightarrow> 0) \<le> inbound_capacity_msat c) \<longrightarrow>
     (\<forall>c \<in> set cs. (case amt of Some m \<Rightarrow> m | None \<Rightarrow> 0) \<le> inbound_capacity_msat c))"
proof -
  let ?m = "case amt of Some m \<Rightarrow> m | None \<Rightarrow> 0" and ?C = "set (candidates chans)"
  obtain kept where best: "best_per_peer ?C kept"
    and f: "filter_channels chans amt = Some (map (\<lambda>c. the (route_hint_from_channel c)) (filter (preferred ?m ?C) kept))"
    using filter_channels_private assms(3) by blast
  have inj: "inj_on peer_id ?C" using assms(2) by (simp add: distinct_map)
  have "?C \<subseteq> set kept"
  proof
    fix c assume c: "c \<in> ?C"
    with best obtain k where k: "k \<in> set kept" "peer_id k = peer_id c" unfolding best_per_peer_def by blast
    with best c inj have "k = c" unfolding best_per_peer_def by (auto dest: inj_onD)
    with k show "c \<in> set kept" by simp
  qed
  with best have kept: "set kept = ?C" by (auto simp: best_per_peer_def)
  have "\<exists>c \<in> ?C. preferred ?m ?C c" using assms(1) by (intro some_preferred) simp
  then have "filter (preferred ?m ?C) kept \<noteq> []" by (simp add: filter_empty_conv kept)
  moreover have "?m \<le> inbound_capacity_msat c"
    if "preferred ?m ?C c" "\<exists>d \<in> ?C. ?m \<le> inbound_capacity_msat d" for c
    using that by (auto simp: preferred_def split: if_splits)
  ultimately show ?thesis using f kept by (intro exI [of _ "filter (preferred ?m ?C) kept"]) auto
qed

text \<open>
  A second channel with the same peer can leave a node without any hint: an online channel
  of enough capacity sets the flag, an offline one of more capacity takes its place, and the
  filter then asks for what no remaining channel has. Neither channel alone has this effect.
\<close>

theorem two_channels_of_one_peer_lose_the_hint:
  assumes "peer_id on = peer_id off" "\<not> skipped on" "\<not> skipped off"
    and "is_channel_ready on" "is_channel_ready off" "\<not> is_public on" "\<not> is_public off"
    and "is_usable on" "\<not> is_usable off"
    and "m \<le> inbound_capacity_msat on" "inbound_capacity_msat on \<le> inbound_capacity_msat off"
  shows "filter_channels [on, off] (Some m) = Some [] \<and>
    filter_channels [on] (Some m) = Some [the (route_hint_from_channel on)] \<and>
    filter_channels [off] (Some m) = Some [the (route_hint_from_channel off)]"
proof -
  obtain h1 h2 where hint: "route_hint_from_channel on = Some h1" "route_hint_from_channel off = Some h2"
    using assms(2,3) by (auto simp: route_hint_from_channel_def skipped_def)
  have "m \<le> inbound_capacity_msat off" using assms(10,11) by (rule order_trans)
  with assms hint show ?thesis
    by (simp add: filter_channels_def Let_def filtering_new_def note_channel_def keep_best_def
        include_channel_def not_less [symmetric])
qed

section \<open>Properties of invoices\<close>

lemma filter_channels_no_panic: "filter_channels chans amt \<noteq> None"
proof (cases "\<exists>c \<in> set (candidates chans). is_public c")
  case True
  then show ?thesis by (simp add: filter_channels_def Let_def filter_loop_fold)
next
  case False
  then show ?thesis using filter_channels_private [OF False, of amt] by auto
qed

lemma all_routes_some:
  "\<exists>rs. all_routes K amt ps = Some rs \<and>
     (\<forall>p \<in> set ps. \<exists>r \<in> set rs. \<exists>h. r = RouteHint (h @ [phantom_hop K p])) \<and>
     (\<forall>r \<in> set rs. \<exists>p \<in> set ps. \<exists>h. length h \<le> 1 \<and> r = RouteHint (h @ [phantom_hop K p]))"
proof (induction ps)
  case (Cons p ps)
  obtain hs where hs: "filter_channels (channels p) amt = Some hs"
    using filter_channels_no_panic by blast
  have short: "length (hops h) \<le> 1" if "h \<in> set hs" for h
  proof (cases "\<exists>c \<in> set (candidates (channels p)). is_public c")
    case True
    with hs that show ?thesis by (simp add: filter_channels_def Let_def filter_loop_fold)
  next
    case False
    from filter_channels_private [OF False, of amt] hs that obtain c where
      "c \<in> set (candidates (channels p))" "h = the (route_hint_from_channel c)"
      by (auto simp: best_per_peer_def) (metis subsetD)
    then show ?thesis
      by (auto simp: candidates_def skipped_def route_hint_from_channel_def split: option.splits)
  qed
  let ?hs = "if hs = [] then [RouteHint []] else hs"
  let ?r = "map (\<lambda>h. RouteHint (hops h @ [phantom_hop K p])) ?hs"
  have r: "phantom_routes K amt p = Some ?r" by (simp add: phantom_routes_def hs)
  have one: "\<exists>r \<in> set ?r. \<exists>h. r = RouteHint (h @ [phantom_hop K p])" by (cases hs) auto
  have all: "\<forall>r \<in> set ?r. \<exists>h. length h \<le> 1 \<and> r = RouteHint (h @ [phantom_hop K p])"
    using short by auto
  from Cons.IH obtain rs where rs: "all_routes K amt ps = Some rs"
    "\<forall>p \<in> set ps. \<exists>r \<in> set rs. \<exists>h. r = RouteHint (h @ [phantom_hop K p])"
    "\<forall>r \<in> set rs. \<exists>p \<in> set ps. \<exists>h. length h \<le> 1 \<and> r = RouteHint (h @ [phantom_hop K p])" by blast
  obtain rr where rr: "phantom_routes K amt p = Some rr"
    "\<exists>r \<in> set rr. \<exists>h. r = RouteHint (h @ [phantom_hop K p])"
    "\<forall>r \<in> set rr. \<exists>h. length h \<le> 1 \<and> r = RouteHint (h @ [phantom_hop K p])"
    using r one all by blast
  have "all_routes K amt (p # ps) = Some (rr @ rs)" using rs(1) rr(1) by simp
  moreover have "\<forall>q \<in> set (p # ps). \<exists>r \<in> set (rr @ rs). \<exists>h. r = RouteHint (h @ [phantom_hop K q])"
    using rs(2) rr(2) unfolding set_append set_simps by blast
  moreover have "\<forall>r \<in> set (rr @ rs). \<exists>q \<in> set (p # ps). \<exists>h. length h \<le> 1 \<and> r = RouteHint (h @ [phantom_hop K q])"
    using rs(3) rr(3) unfolding set_append set_simps by blast
  ultimately show ?case by blast
qed simp

text \<open>
  An invoice that is created carries the given amount, description, expiry and payment
  hash, at least one route for every phantom node given, and only routes of at most one hop
  followed by the hop to such a node.
\<close>

theorem phantom_invoice_fields:
  assumes "create_phantom_invoice K amt hash desc expiry ps network = Ok i"
  shows "ps \<noteq> [] \<and> inv_amount_msat (inv_fields i) = amt \<and> inv_description (inv_fields i) = Direct desc \<and>
    unat (inv_expiry_secs (inv_fields i)) = unat expiry \<and> inv_currency (inv_fields i) = network \<and>
    (hash \<noteq> None \<longrightarrow> hash = Some (inv_payment_hash (inv_fields i))) \<and>
    (\<forall>p \<in> set ps. \<exists>r \<in> set (inv_routes (inv_fields i)). \<exists>h. r = RouteHint (h @ [phantom_hop K p])) \<and>
    (\<forall>r \<in> set (inv_routes (inv_fields i)).
       \<exists>p \<in> set ps. \<exists>h. length h \<le> 1 \<and> r = RouteHint (h @ [phantom_hop K p]))"
proof -
  obtain rs where rs: "all_routes K amt ps = Some rs"
    and routes: "\<forall>p \<in> set ps. \<exists>r \<in> set rs. \<exists>h. r = RouteHint (h @ [phantom_hop K p])"
      "\<forall>r \<in> set rs. \<exists>p \<in> set ps. \<exists>h. length h \<le> 1 \<and> r = RouteHint (h @ [phantom_hop K p])"
    using all_routes_some by blast
  have "unat (ucast expiry :: u64) = unat expiry" by (rule unat_ucast_64)
  moreover from assms rs obtain sec where "ps \<noteq> []"
    "inv_amount_msat (inv_fields i) = amt \<and> inv_description (inv_fields i) = Direct desc \<and>
     inv_expiry_secs (inv_fields i) = ucast expiry \<and> inv_currency (inv_fields i) = network \<and>
     inv_routes (inv_fields i) = rs \<and>
     (hash \<noteq> None \<longrightarrow> hash = Some (inv_payment_hash (inv_fields i)))"
    by (auto simp: create_phantom_invoice_def Let_def split: if_splits option.splits prod.splits)
  ultimately show ?thesis using routes by simp
qed

section \<open>Concrete channels\<close>

definition demo_channel :: ChannelDetails where
  "demo_channel = \<lparr>channel_id = [1], peer_id = PublicKey [2],
     forwarding_info = Some \<lparr>fee_base_msat = 1000, fee_proportional_millionths = 1, fwd_cltv_expiry_delta = 40\<rparr>,
     inbound_payment_scid = Some 77, is_channel_ready = True, is_usable = True, is_public = False,
     inbound_capacity_msat = 100000, outbound_capacity_msat = 5000, channel_value_satoshis = 200,
     inbound_htlc_minimum_msat = None, inbound_htlc_maximum_msat = None\<rparr>"

definition demo_offline_channel :: ChannelDetails where
  "demo_offline_channel = demo_channel\<lparr>is_usable := False, inbound_capacity_msat := 900000\<rparr>"

definition demo_keys :: keys_manager where
  "demo_keys = \<lparr>MIN_FINAL_CLTV_EXPIRY = 24, MIN_CLTV_EXPIRY_DELTA = 42, now_secs = 1,
     secret_from_hash = (\<lambda>_ _ _ _. Some (PaymentSecret [7])),
     hash_and_secret = (\<lambda>_ _ _. Some (PaymentHash [8], PaymentSecret [7])),
     build_raw_error = (\<lambda>_. None), sign_fields = (\<lambda>_. Some [9]), from_signed_ok = (\<lambda>_ _. True)\<rparr>"

lemma some_hint_for_distinct_peers_witness:
  "\<exists>h. filter_channels [demo_channel] (Some 50000) = Some [h] \<and> h \<noteq> RouteHint []"
proof -
  have c: "candidates [demo_channel] = [demo_channel]"
    by (simp add: candidates_def demo_channel_def skipped_def)
  have "\<exists>cs. cs \<noteq> [] \<and> set cs \<subseteq> {demo_channel} \<and>
    filter_channels [demo_channel] (Some 50000) = Some (map (\<lambda>c. the (route_hint_from_channel c)) cs)"
    using some_hint_for_distinct_peers [of "[demo_channel]" "Some 50000"]
    unfolding c by (auto simp: demo_channel_def)
  moreover have "filter_channels [demo_channel] (Some 50000) = Some [the (route_hint_from_channel demo_channel)]"
    by (simp add: filter_channels_def Let_def filtering_new_def note_channel_def keep_best_def
        include_channel_def skipped_def route_hint_from_channel_def demo_channel_def)
  moreover have "the (route_hint_from_channel demo_channel) \<noteq> RouteHint []"
    by (simp add: route_hint_from_channel_def demo_channel_def)
  ultimately show ?thesis by blast
qed

lemma two_channels_of_one_peer_lose_the_hint_witness:
  "filter_channels [demo_channel, demo_offline_channel] (Some 50000) = Some []"
  using two_channels_of_one_peer_lose_the_hint [of demo_channel demo_offline_channel 50000]
  by (simp add: demo_channel_def demo_offline_channel_def skipped_def)

lemma phantom_invoice_fields_witness:
  "\<exists>i. create_phantom_invoice demo_keys (Some 5) None ''x'' 3600
      [\<lparr>channels = [demo_channel], phantom_scid = 3, real_node_pubkey = PublicKey [4]\<rparr>] Regtest = Ok i \<and>
     inv_routes (inv_fields i) \<noteq> []"
proof -
  let ?p = "\<lparr>channels = [demo_channel], phantom_scid = 3, real_node_pubkey = PublicKey [4]\<rparr>"
  obtain rs where "all_routes demo_keys (Some 5) [?p] = Some rs" using all_routes_some by blast
  then obtain i where i: "create_phantom_invoice demo_keys (Some 5) None ''x'' 3600 [?p] Regtest = Ok i"
    by (simp add: create_phantom_invoice_def demo_keys_def)
  from phantom_invoice_fields [OF i] i show ?thesis by auto
qed

end
