(* ===== verification/LdkStorage.thy ===== *)
theory LdkStorage
  imports Invoices
begin

text \<open>
  \<open>node-manager/src/ldkstorage.rs\<close>: what a Lightning node keeps in the browser storage, under
  keys that end in the node's id: LDK's own state (channel manager, monitors, network graph), the
  payments and the peers. The encodings of LDK's objects are parameters of the reading functions.
\<close>

section \<open>Payments\<close>

datatype HTLCStatus = Pending | InFlight | Succeeded | Failed

datatype MillisatAmount = MillisatAmount "u64 option"

record PaymentInfo =
  preimage :: "bytes option"
  secret :: "bytes option"
  status :: HTLCStatus
  amt_msat :: MillisatAmount
  fee_paid_msat :: "u64 option"
  bolt11 :: "string option"
  last_update :: u64

record ldk_env = bdk_env +
  json_payment :: "PaymentInfo codec"
  pubkey_to_string :: "PublicKey \<Rightarrow> string"
  pubkey_from_str :: "string \<Rightarrow> PublicKey option"

definition ldk_ok :: "'x ldk_env_scheme \<Rightarrow> bool" where
  "ldk_ok E \<longleftrightarrow> bdk_ok E \<and> codec_ok (json_payment E) \<and>
     (\<forall>pk. pubkey_from_str E (pubkey_to_string E pk) = Some pk)"

section \<open>The persister\<close>

definition NETWORK_KEY :: string where "NETWORK_KEY = ''network''"
definition PROB_SCORER_KEY :: string where "PROB_SCORER_KEY = ''prob_scorer''"
definition CHANNEL_MANAGER_KEY :: string where "CHANNEL_MANAGER_KEY = ''manager''"
definition MONITORS_PREFIX_KEY :: string where "MONITORS_PREFIX_KEY = ''monitors/''"
definition PAYMENT_INBOUND_PREFIX_KEY :: string where "PAYMENT_INBOUND_PREFIX_KEY = ''payment_inbound/''"
definition PAYMENT_OUTBOUND_PREFIX_KEY :: string where "PAYMENT_OUTBOUND_PREFIX_KEY = ''payment_outbound/''"
definition PEER_PREFIX_KEY :: string where "PEER_PREFIX_KEY = ''peer/''"

record MutinyNodePersister =
  node_id :: string
  storage :: MutinyBrowserStorage

definition get_key :: "MutinyNodePersister \<Rightarrow> string \<Rightarrow> string" where
  "get_key p key = key @ ''_'' @ node_id p"

definition peer_key :: "string \<Rightarrow> string" where
  "peer_key pubkey = PEER_PREFIX_KEY @ pubkey"

definition payment_prefix :: "bool \<Rightarrow> string" where
  "payment_prefix inbound = (if inbound then PAYMENT_INBOUND_PREFIX_KEY else PAYMENT_OUTBOUND_PREFIX_KEY)"

fun payment_key :: "'x ldk_env_scheme \<Rightarrow> bool \<Rightarrow> PaymentHash \<Rightarrow> string" where
  "payment_key E inbound (PaymentHash h) = payment_prefix inbound @ to_hex E h"

definition read_value ::
  "'x ldk_env_scheme \<Rightarrow> MutinyNodePersister \<Rightarrow> string \<Rightarrow> browser \<Rightarrow> (bytes, MutinyError) result" where
  "read_value E p key b = map_err read_err (mbs_get E (json_bytes E) (storage p) (get_key p key) b)"

definition persist ::
  "'x ldk_env_scheme \<Rightarrow> MutinyNodePersister \<Rightarrow> string \<Rightarrow> bytes \<Rightarrow> (browser, unit, IoError) prog" where
  "persist E p key encoded = pmap_err (\<lambda>_. IoError) (mbs_set E (json_bytes E) (storage p) (get_key p key) encoded)"

text \<open>The stored object, or a new one when there is none or it cannot be decoded.\<close>

definition read_or_new ::
  "'x ldk_env_scheme \<Rightarrow> (bytes \<Rightarrow> 'g option) \<Rightarrow> 'g \<Rightarrow> MutinyNodePersister \<Rightarrow> string \<Rightarrow> browser \<Rightarrow> ('g, MutinyError) result"
where
  "read_or_new E decode fresh p key b =
     (case read_value E p key b of
        Ok kv_value \<Rightarrow> (case decode kv_value of Some g \<Rightarrow> Ok g | None \<Rightarrow> Ok fresh)
      | Err _ \<Rightarrow> Ok fresh
      | Panic \<Rightarrow> Panic)"

definition persist_network_graph where
  "persist_network_graph E p graph = persist E p NETWORK_KEY graph"

definition read_network_graph where
  "read_network_graph E decode fresh p b = read_or_new E decode fresh p NETWORK_KEY b"

definition persist_scorer where
  "persist_scorer E p scorer = persist E p PROB_SCORER_KEY scorer"

definition read_scorer where
  "read_scorer E decode fresh p b = read_or_new E decode fresh p PROB_SCORER_KEY b"

definition read_channel_monitors ::
  "'x ldk_env_scheme \<Rightarrow> (bytes \<Rightarrow> 'm option) \<Rightarrow> MutinyNodePersister \<Rightarrow> browser \<Rightarrow> ('m list, IoError) result" where
  "read_channel_monitors E decode p b =
     and_then (of_option (mbs_scan E (json_bytes E) (storage p) MONITORS_PREFIX_KEY (Some (node_id p)) b))
       (collect_results (\<lambda>(_, data). case decode data of Some m \<Rightarrow> Ok m | None \<Rightarrow> Err IoError))"

record ('c, 'm) ReadChannelManager =
  channel_manager :: 'c
  is_restarting :: bool
  channel_monitors :: "'m list"

text \<open>
  \<open>decode\<close> reads a channel manager with the monitors at hand; \<open>fresh\<close> starts one at a height
  and tip, which the chain client is asked for (\<open>None\<close>: it failed).
\<close>

definition read_channel_manager ::
  "'x ldk_env_scheme \<Rightarrow> (bytes \<Rightarrow> 'm list \<Rightarrow> 'c option) \<Rightarrow> (u32 \<Rightarrow> bytes \<Rightarrow> 'c) \<Rightarrow>
   MutinyNodePersister \<Rightarrow> 'm list \<Rightarrow> u32 option \<Rightarrow> bytes option \<Rightarrow> browser \<Rightarrow>
   (('c, 'm) ReadChannelManager, MutinyError) result" where
  "read_channel_manager E decode fresh p monitors height_res hash_res b =
     (case read_value E p CHANNEL_MANAGER_KEY b of
        Ok kv_value \<Rightarrow>
          (case decode kv_value monitors of
             None \<Rightarrow> Err (ReadError OtherStorageError)
           | Some c \<Rightarrow> Ok \<lparr>channel_manager = c, is_restarting = True, channel_monitors = monitors\<rparr>)
      | Err _ \<Rightarrow>
          (case (height_res, hash_res) of
             (Some height, Some hash) \<Rightarrow>
               Ok \<lparr>channel_manager = fresh height hash, is_restarting = False, channel_monitors = monitors\<rparr>
           | _ \<Rightarrow> Err ChainAccessFailed)
      | Panic \<Rightarrow> Panic)"

definition persist_payment_info ::
  "'x ldk_env_scheme \<Rightarrow> MutinyNodePersister \<Rightarrow> PaymentHash \<Rightarrow> PaymentInfo \<Rightarrow> bool \<Rightarrow> (browser, unit, IoError) prog"
where
  "persist_payment_info E p hash info inbound =
     pmap_err (\<lambda>_. IoError) (mbs_set E (json_payment E) (storage p) (get_key p (payment_key E inbound hash)) info)"

text \<open>\<open>None\<close> inside \<open>Ok\<close> is Rust's \<open>None\<close>; \<open>Panic\<close> a failed decryption.\<close>

definition read_payment_info ::
  "'x ldk_env_scheme \<Rightarrow> MutinyNodePersister \<Rightarrow> PaymentHash \<Rightarrow> bool \<Rightarrow> browser \<Rightarrow> (PaymentInfo option, 'e) result"
where
  "read_payment_info E p hash inbound b =
     ok_of (map_err read_err (mbs_get E (json_payment E) (storage p) (get_key p (payment_key E inbound hash)) b))"

definition list_payment_info ::
  "'x ldk_env_scheme \<Rightarrow> MutinyNodePersister \<Rightarrow> bool \<Rightarrow> browser \<Rightarrow> (string \<times> PaymentInfo) list option" where
  "list_payment_info E p inbound b = mbs_scan E (json_payment E) (storage p) (payment_prefix inbound) None b"

definition read_peer_connection_info ::
  "'x ldk_env_scheme \<Rightarrow> MutinyNodePersister \<Rightarrow> string \<Rightarrow> browser \<Rightarrow> (string option, 'e) result" where
  "read_peer_connection_info E p pubkey b =
     ok_of (map_err read_err (mbs_get E (json_string E) (storage p) (get_key p (peer_key pubkey)) b))"

definition persist_peer_connection_info ::
  "'x ldk_env_scheme \<Rightarrow> MutinyNodePersister \<Rightarrow> string \<Rightarrow> string \<Rightarrow> (browser, unit, IoError) prog" where
  "persist_peer_connection_info E p pubkey connection =
     pmap_err (\<lambda>_. IoError) (mbs_set E (json_string E) (storage p) (get_key p (peer_key pubkey)) connection)"

definition delete_peer_connection_info :: "MutinyNodePersister \<Rightarrow> string \<Rightarrow> browser \<Rightarrow> browser" where
  "delete_peer_connection_info p pubkey = mbs_delete (get_key p (peer_key pubkey))"

text \<open>One entry of the peer list; \<open>None\<close> is a failed \<open>unwrap\<close>.\<close>

definition peer_entry :: "'x ldk_env_scheme \<Rightarrow> MutinyNodePersister \<Rightarrow> string \<times> string \<Rightarrow> (PublicKey \<times> string) option" where
  "peer_entry E p = (\<lambda>(k, v).
     Option.bind (strip_prefix k PEER_PREFIX_KEY) (\<lambda>k1.
     Option.bind (strip_suffix k1 (node_id p)) (\<lambda>k2.
     Option.bind (strip_suffix k2 ''_'') (\<lambda>k3.
     map_option (\<lambda>pubkey. (pubkey, v)) (pubkey_from_str E k3)))))"

fun map_all :: "('a \<Rightarrow> 'b option) \<Rightarrow> 'a list \<Rightarrow> 'b list option" where
  "map_all f [] = Some []"
| "map_all f (x # xs) = Option.bind (f x) (\<lambda>y. map_option ((#) y) (map_all f xs))"

definition list_peer_connection_info ::
  "'x ldk_env_scheme \<Rightarrow> MutinyNodePersister \<Rightarrow> browser \<Rightarrow> (PublicKey \<times> string) list option" where
  "list_peer_connection_info E p b =
     Option.bind (mbs_scan E (json_string E) (storage p) PEER_PREFIX_KEY (Some (node_id p)) b)
       (map_all (peer_entry E p))"

section \<open>Keys\<close>

text \<open>Node ids are UUIDs: all of the same length.\<close>

definition uuid_like :: "string \<Rightarrow> bool" where
  "uuid_like s \<longleftrightarrow> length s = 36"

lemmas storage_key_defs = NETWORK_KEY_def PROB_SCORER_KEY_def CHANNEL_MANAGER_KEY_def MONITORS_PREFIX_KEY_def
  PAYMENT_INBOUND_PREFIX_KEY_def PAYMENT_OUTBOUND_PREFIX_KEY_def PEER_PREFIX_KEY_def

lemma get_key_inject:
  assumes "uuid_like (node_id p)" "uuid_like (node_id q)"
  shows "get_key p a = get_key q b \<longleftrightarrow> a = b \<and> node_id p = node_id q"
  using assms by (auto simp: get_key_def uuid_like_def)

lemma get_key_same [simp]: "get_key p a = get_key p b \<longleftrightarrow> a = b"
  by (simp add: get_key_def)

lemma ldk_okD:
  assumes "ldk_ok E"
  shows "bdk_ok E" "web_ok E" "codec_ok (json_payment E)" "codec_ok (json_string E)" "codec_ok (json_bytes E)"
    "pubkey_from_str E (pubkey_to_string E pk) = Some pk"
  using assms by (auto simp: ldk_ok_def bdk_okD(1) bdk_ok_codecs web_ok_def dest: bdk_okD(1))

lemma payment_key_inject:
  assumes "ldk_ok E"
  shows "payment_key E i h = payment_key E j h' \<longleftrightarrow> i = j \<and> h = h'"
  using to_hex_inject [OF ldk_okD(1) [OF assms]]
  by (cases h; cases h') (auto simp: payment_prefix_def storage_key_defs)

lemma pubkey_to_string_inject: "ldk_ok E \<Longrightarrow> pubkey_to_string E a = pubkey_to_string E b \<longleftrightarrow> a = b"
  by (metis ldk_okD(6) option.inject)

lemma peer_not_payment [simp]:
  "payment_key E i h \<noteq> peer_key x" "peer_key x \<noteq> payment_key E i h"
  by (cases h; auto simp: payment_prefix_def peer_key_def storage_key_defs)+

text \<open>Where a key of a node lies with respect to the peer scan of a node.\<close>

lemma get_key_peer_scan:
  assumes "uuid_like (node_id p)" "uuid_like (node_id q)"
  shows "starts_with (get_key q (payment_key E i h)) PEER_PREFIX_KEY \<longleftrightarrow> False"
    and "starts_with (get_key q (peer_key x)) PEER_PREFIX_KEY"
    and "ends_with (get_key q k) (node_id p) \<longleftrightarrow> node_id p = node_id q"
  using assms
  by (cases h; auto simp: get_key_def peer_key_def payment_prefix_def storage_key_defs starts_with_def
      ends_with_def uuid_like_def)+

section \<open>Payments read back\<close>

lemma persist_payment_info_iff [simp]:
  "persist_payment_info E p h info i b = (Ok (), b') \<longleftrightarrow>
     mbs_set E (json_payment E) (storage p) (get_key p (payment_key E i h)) info b = (Ok (), b')"
  by (simp add: persist_payment_info_def)

lemma persist_payment_info_cases:
  assumes "persist_payment_info E p h info i b = (r, b')"
  shows "\<exists>r0. mbs_set E (json_payment E) (storage p) (get_key p (payment_key E i h)) info b = (r0, b') \<and>
    r = map_err (\<lambda>_. IoError) r0"
  using assms by (auto simp: persist_payment_info_def pmap_err_def split: prod.splits)

lemma read_after_persist:
  assumes "ldk_ok E" "persist_payment_info E p h info i b = (Ok (), b')"
  shows "read_payment_info E p h i b' = Ok (Some info)"
proof -
  have "mbs_get E (json_payment E) (storage p) (get_key p (payment_key E i h)) b' = Ok info"
    using assms ldk_okD [OF assms(1)] by (intro mbs.put_get) auto
  then show ?thesis by (simp add: read_payment_info_def)
qed

lemma read_unaffected:
  assumes "persist_payment_info E p h info i b = (r, b')"
    and "get_key q (payment_key E j h') \<noteq> get_key p (payment_key E i h)"
  shows "read_payment_info E q h' j b' = read_payment_info E q h' j b"
proof -
  obtain r0 where "mbs_set E (json_payment E) (storage p) (get_key p (payment_key E i h)) info b = (r0, b')"
    using persist_payment_info_cases [OF assms(1)] by blast
  from mbs.put_frame [OF this] assms(2)
  have "raw_item b' (get_key q (payment_key E j h')) = raw_item b (get_key q (payment_key E j h'))" by simp
  then show ?thesis unfolding read_payment_info_def by (metis mbs_get_cong)
qed

text \<open>
  A payment that is stored reads back, and stays apart from the payment of any other hash,
  of the other direction, and of any other node of the wallet.
\<close>

theorem payment_table:
  assumes "ldk_ok E" "uuid_like (node_id p)" "uuid_like (node_id q)"
    and "persist_payment_info E p h info inbound b = (Ok (), b')"
    and "h' \<noteq> h \<or> inbound' \<noteq> inbound \<or> node_id q \<noteq> node_id p"
  shows "read_payment_info E p h inbound b' = Ok (Some info) \<and>
    read_payment_info E q h' inbound' b' = read_payment_info E q h' inbound' b"
proof -
  have "get_key q (payment_key E inbound' h') \<noteq> get_key p (payment_key E inbound h)"
    using assms(5) unfolding get_key_inject [OF assms(3,2)] payment_key_inject [OF assms(1)] by blast
  with read_unaffected [OF assms(4)] read_after_persist [OF assms(1,4)] show ?thesis by blast
qed

section \<open>Peers\<close>

text \<open>What is stored under the peer keys of a node can be listed.\<close>

definition peers_inv :: "'x ldk_env_scheme \<Rightarrow> MutinyNodePersister \<Rightarrow> browser \<Rightarrow> bool" where
  "peers_inv E p b \<longleftrightarrow>
     (\<forall>k. raw_item b k \<noteq> None \<and> scan_matches PEER_PREFIX_KEY (Some (node_id p)) k \<longrightarrow>
        (\<exists>pk c. k = get_key p (peer_key (pubkey_to_string E pk)) \<and>
           mbs_get E (json_string E) (storage p) k b = Ok c))"

lemma peer_entry_own:
  assumes "ldk_ok E"
  shows "peer_entry E p (get_key p (peer_key (pubkey_to_string E pk)), c) = Some (pk, c)"
proof -
  have "strip_suffix (x @ ''_'' @ i) i = Some (x @ ''_'')" "strip_suffix (x @ ''_'') ''_'' = Some x" for x i
    by (simp_all add: strip_suffix_def ends_with_def)
  with assms show ?thesis
    by (simp add: peer_entry_def get_key_def peer_key_def ldk_okD(6))
qed

lemma map_all_Some: "\<forall>x \<in> set xs. f x = Some (g x) \<Longrightarrow> map_all f xs = Some (map g xs)"
  by (induction xs) auto

lemma list_peers_exact:
  assumes "ldk_ok E" "uuid_like (node_id p)" "peers_inv E p b"
  shows "\<exists>l. list_peer_connection_info E p b = Some l \<and> distinct (map fst l) \<and>
    (\<forall>pk c. (pk, c) \<in> set l \<longleftrightarrow>
       (read_peer_connection_info E p (pubkey_to_string E pk) b :: (string option, unit) result) = Ok (Some c))"
proof (cases rule: mbs_scan_cases [of E "json_string E" "storage p" PEER_PREFIX_KEY "Some (node_id p)" b])
  case (panics k)
  with assms(3) show ?thesis unfolding peers_inv_def by metis
next
  case (returns m)
  note d = mbs_scan_distinct [OF returns(1)]
  have el: "(k, c) \<in> set m \<longleftrightarrow> (\<exists>pk. k = get_key p (peer_key (pubkey_to_string E pk))) \<and>
      mbs_get E (json_string E) (storage p) k b = Ok c" for k c
  proof -
    have "raw_item b k \<noteq> None" if "mbs_get E (json_string E) (storage p) k b = Ok c"
      using that mbs.get_absent [of b k E "json_string E" "storage p"] by (cases "raw_item b k") auto
    moreover have "scan_matches PEER_PREFIX_KEY (Some (node_id p)) (get_key p (peer_key x))" for x
      using get_key_peer_scan [OF assms(2,2)] by (simp add: scan_matches_def)
    moreover have "(k, c) \<in> set m \<longleftrightarrow> map_of m k = Some c" using d by simp
    ultimately show ?thesis using assms(3) unfolding returns(2) peers_inv_def by metis
  qed
  define g where "g kv = (the (peer_entry E p kv))" for kv
  have entry: "\<exists>pk. fst kv = get_key p (peer_key (pubkey_to_string E pk)) \<and> peer_entry E p kv = Some (pk, snd kv)"
    if "kv \<in> set m" for kv
    using el [of "fst kv" "snd kv"] that peer_entry_own [OF assms(1)] by (metis prod.collapse)
  then have "\<forall>kv \<in> set m. peer_entry E p kv = Some (g kv)" by (force simp: g_def)
  then have l: "list_peer_connection_info E p b = Some (map g m)"
    by (simp add: list_peer_connection_info_def returns(1) map_all_Some)
  have g: "fst kv = get_key p (peer_key (pubkey_to_string E (fst (g kv)))) \<and> snd (g kv) = snd kv" if "kv \<in> set m" for kv
    using entry [OF that] by (auto simp: g_def)
  have "distinct (map fst (map g m))"
  proof -
    have "inj_on (fst \<circ> g) (set m)"
    proof (rule inj_onI)
      fix x y assume xy: "x \<in> set m" "y \<in> set m" "(fst \<circ> g) x = (fst \<circ> g) y"
      then have "fst x = fst y" using g by (metis comp_apply)
      with xy el d show "x = y" by (metis eq_key_imp_eq_value prod.collapse)
    qed
    moreover have "distinct m" using d by (simp add: distinct_map)
    ultimately show ?thesis by (simp add: distinct_map comp_inj_on inj_on_def)
  qed
  moreover have "(pk, c) \<in> set (map g m) \<longleftrightarrow>
      (read_peer_connection_info E p (pubkey_to_string E pk) b :: (string option, unit) result) = Ok (Some c)" for pk c
  proof
    assume "(pk, c) \<in> set (map g m)"
    then obtain kv where kv: "kv \<in> set m" "g kv = (pk, c)" by auto
    have "mbs_get E (json_string E) (storage p) (fst kv) b = Ok (snd kv)"
      using el [of "fst kv" "snd kv"] kv(1) by simp
    with g [OF kv(1)] kv(2)
    show "(read_peer_connection_info E p (pubkey_to_string E pk) b :: (string option, unit) result) = Ok (Some c)"
      by (simp add: read_peer_connection_info_def)
  next
    assume "(read_peer_connection_info E p (pubkey_to_string E pk) b :: (string option, unit) result) = Ok (Some c)"
    then have "mbs_get E (json_string E) (storage p) (get_key p (peer_key (pubkey_to_string E pk))) b = Ok c"
      by (auto simp: read_peer_connection_info_def)
    then have "(get_key p (peer_key (pubkey_to_string E pk)), c) \<in> set m" using el by blast
    moreover have "g (get_key p (peer_key (pubkey_to_string E pk)), c) = (pk, c)"
      by (simp add: g_def peer_entry_own [OF assms(1)])
    ultimately show "(pk, c) \<in> set (map g m)" by force
  qed
  ultimately show ?thesis using l by blast
qed

text \<open>The writes of the persisters, as one step function.\<close>

datatype PersistCall =
    PersistPayment MutinyNodePersister PaymentHash PaymentInfo bool
  | PersistPeer MutinyNodePersister PublicKey string
  | DeletePeer MutinyNodePersister string
  | PersistLdk MutinyNodePersister string bytes

fun persist_step :: "'x ldk_env_scheme \<Rightarrow> PersistCall \<Rightarrow> browser \<Rightarrow> browser" where
  "persist_step E (PersistPayment p h info inbound) b = snd (persist_payment_info E p h info inbound b)"
| "persist_step E (PersistPeer p pk c) b = snd (persist_peer_connection_info E p (pubkey_to_string E pk) c b)"
| "persist_step E (DeletePeer p pubkey) b = delete_peer_connection_info p pubkey b"
| "persist_step E (PersistLdk p key bs) b = snd (persist E p key bs b)"

text \<open>The nodes of a wallet share its password and have UUIDs; LDK uses keys of its own.\<close>

fun call_ok :: "MutinyBrowserStorage \<Rightarrow> PersistCall \<Rightarrow> bool" where
  "call_ok st (PersistPayment p h info inbound) = (uuid_like (node_id p) \<and> storage p = st)"
| "call_ok st (PersistPeer p pk c) = (uuid_like (node_id p) \<and> storage p = st)"
| "call_ok st (DeletePeer p pubkey) = (uuid_like (node_id p) \<and> storage p = st)"
| "call_ok st (PersistLdk p key bs) = (uuid_like (node_id p) \<and> storage p = st \<and> \<not> starts_with key PEER_PREFIX_KEY)"

lemma peers_inv_frame:
  assumes "peers_inv E p b"
    and "\<And>k. scan_matches PEER_PREFIX_KEY (Some (node_id p)) k \<Longrightarrow> raw_item b' k = raw_item b k \<or> raw_item b' k = None"
  shows "peers_inv E p b'"
  using assms unfolding peers_inv_def by (metis mbs_get_cong)

lemma mbs_set_peers_inv:
  assumes "peers_inv E p b" "\<not> scan_matches PEER_PREFIX_KEY (Some (node_id p)) key"
  shows "peers_inv E p (snd (mbs_set E c st key v b))"
proof (rule peers_inv_frame [OF assms(1)])
  fix k assume "scan_matches PEER_PREFIX_KEY (Some (node_id p)) k"
  with assms(2) have "k \<noteq> key" by auto
  then show "raw_item (snd (mbs_set E c st key v b)) k = raw_item b k \<or> raw_item (snd (mbs_set E c st key v b)) k = None"
    using mbs.put_frame by (metis prod.collapse)
qed

lemma persist_peer_inv:
  assumes "ldk_ok E" "uuid_like (node_id p)" "peers_inv E p b" "uuid_like (node_id q)" "storage q = storage p"
  shows "peers_inv E p (snd (persist_peer_connection_info E q (pubkey_to_string E pk) c b))"
proof -
  let ?k = "get_key q (peer_key (pubkey_to_string E pk))"
  obtain r b' where s: "mbs_set E (json_string E) (storage q) ?k c b = (r, b')" by fastforce
  have snd: "snd (persist_peer_connection_info E q (pubkey_to_string E pk) c b) = b'"
    by (simp add: persist_peer_connection_info_def pmap_err_def s)
  consider (failed) "r \<noteq> Ok ()" | (other) "node_id q \<noteq> node_id p" | (own) "r = Ok ()" "node_id q = node_id p" by blast
  then show ?thesis
  proof cases
    case failed
    show ?thesis
      unfolding snd by (rule peers_inv_frame [OF assms(3)]) (simp add: mbs.put_fail [OF s failed])
  next
    case other
    then have "\<not> scan_matches PEER_PREFIX_KEY (Some (node_id p)) ?k"
      using get_key_peer_scan(3) [OF assms(2,4)] by (auto simp: scan_matches_def)
    from mbs_set_peers_inv [OF assms(3) this] show ?thesis unfolding snd using s by (metis snd_conv)
  next
    case own
    have get: "mbs_get E (json_string E) (storage p) ?k b' = Ok c"
      using s own(1) assms(5) ldk_okD [OF assms(1)] by (intro mbs.put_get) auto
    have "?k = get_key p (peer_key (pubkey_to_string E pk))" using own(2) by (simp add: get_key_def)
    moreover have "raw_item b' k = raw_item b k" if "k \<noteq> ?k" for k using mbs.put_frame [OF s that] .
    ultimately show ?thesis
      using assms(3) get unfolding snd peers_inv_def
      by (intro allI impI, rename_tac x, case_tac "x = ?k") (blast, metis mbs_get_cong)
  qed
qed

lemma persist_step_inv:
  assumes "ldk_ok E" "uuid_like (node_id p)" "peers_inv E p b" "call_ok (storage p) call"
  shows "peers_inv E p (persist_step E call b)"
proof (cases call)
  case (PersistPayment q h info i)
  with assms(4) have q: "uuid_like (node_id q)" by simp
  have "\<not> scan_matches PEER_PREFIX_KEY (Some (node_id p)) (get_key q (payment_key E i h))"
    unfolding scan_matches_def using get_key_peer_scan(1) [OF assms(2) q, of E i h] by simp
  from mbs_set_peers_inv [OF assms(3) this] PersistPayment show ?thesis
    by (simp add: persist_payment_info_def)
next
  case (PersistPeer q pk c)
  with persist_peer_inv [OF assms(1-3)] assms(4) show ?thesis by simp
next
  case (DeletePeer q pk)
  then have "persist_step E call b = mbs_delete (get_key q (peer_key pk)) b"
    by (simp add: delete_peer_connection_info_def)
  then show ?thesis
    by (intro peers_inv_frame [OF assms(3)]) (simp add: mbs.del_raw)
next
  case (PersistLdk q key bs)
  with assms(4) have "\<not> starts_with key PEER_PREFIX_KEY" by simp
  moreover have "starts_with key PEER_PREFIX_KEY" if sw: "starts_with (get_key q key) PEER_PREFIX_KEY"
  proof (cases "length PEER_PREFIX_KEY \<le> length key")
    case False
    then have "PEER_PREFIX_KEY ! length key = CHR ''_''"
      using sw unfolding starts_with_def get_key_def
      by (metis append_Cons not_le nth_append_length nth_take)
    moreover have "PEER_PREFIX_KEY ! length key \<in> set PEER_PREFIX_KEY" using False by simp
    ultimately show ?thesis by (simp add: PEER_PREFIX_KEY_def)
  qed (use sw in \<open>simp add: starts_with_def get_key_def\<close>)
  ultimately have "\<not> starts_with (get_key q key) PEER_PREFIX_KEY" by blast
  then have "\<not> scan_matches PEER_PREFIX_KEY (Some (node_id p)) (get_key q key)"
    by (simp add: scan_matches_def)
  from mbs_set_peers_inv [OF assms(3) this] PersistLdk show ?thesis
    by (simp add: persist_def)
qed

text \<open>
  After any sequence of writes by the nodes of the wallet, the peers listed for a node are,
  each once, exactly those whose connection string reads back for this node; listing never
  panics on what the program wrote.
\<close>

theorem peers_listed_are_peers_stored:
  assumes "ldk_ok E" "uuid_like (node_id p)" "peers_inv E p b0" "\<forall>call \<in> set calls. call_ok (storage p) call"
    and "b = fold (persist_step E) calls b0"
  shows "\<exists>l. list_peer_connection_info E p b = Some l \<and> distinct (map fst l) \<and>
    (\<forall>pk c. (pk, c) \<in> set l \<longleftrightarrow>
       (read_peer_connection_info E p (pubkey_to_string E pk) b :: (string option, unit) result) = Ok (Some c))"
proof -
  have "peers_inv E p (fold (persist_step E) calls b0)"
    using assms(3,4)
    by (induction calls arbitrary: b0) (auto intro: persist_step_inv [OF assms(1,2)])
  with assms(5) show ?thesis by (intro list_peers_exact [OF assms(1,2)]) simp
qed

section \<open>Restarting a node\<close>

text \<open>
  A node restarts from its stored channel manager exactly when one can be read; any error
  of reading it, not only its absence, starts a new channel manager beside the monitors of the
  old one, at the height and tip the chain reports.
\<close>

theorem channel_manager_restart:
  assumes "ldk_ok E"
  shows "(case read_value E p CHANNEL_MANAGER_KEY b of
      Ok kv \<Rightarrow> read_channel_manager E decode fresh p ms h t b =
        (case decode kv ms of
           Some c \<Rightarrow> Ok \<lparr>channel_manager = c, is_restarting = True, channel_monitors = ms\<rparr>
         | None \<Rightarrow> Err (ReadError OtherStorageError))
    | Err e \<Rightarrow>
        read_channel_manager E decode fresh p ms (Some height) (Some tip) b =
          Ok \<lparr>channel_manager = fresh height tip, is_restarting = False, channel_monitors = ms\<rparr> \<and>
        read_channel_manager E decode fresh p ms None t b = Err ChainAccessFailed
    | Panic \<Rightarrow> read_channel_manager E decode fresh p ms h t b = Panic) \<and>
    (persist E p CHANNEL_MANAGER_KEY kv b = (Ok (), b') \<longrightarrow> read_value E p CHANNEL_MANAGER_KEY b' = Ok kv)"
proof -
  have "read_value E p CHANNEL_MANAGER_KEY b' = Ok kv" if "persist E p CHANNEL_MANAGER_KEY kv b = (Ok (), b')"
  proof -
    have "mbs_get E (json_bytes E) (storage p) (get_key p CHANNEL_MANAGER_KEY) b' = Ok kv"
      using that ldk_okD [OF assms] by (intro mbs.put_get) (auto simp: persist_def)
    then show ?thesis by (simp add: read_value_def)
  qed
  then show ?thesis
    by (auto simp: read_channel_manager_def split: result.split option.split)
qed

section \<open>A concrete instance\<close>

definition demo_ldk :: "PaymentInfo list \<Rightarrow> ldk_env" where
  "demo_ldk infos = bdk_env.extend demo_bdk (ldk_env.fields (list_codec infos)
     (\<lambda>pk. case pk of PublicKey b \<Rightarrow> concat (map byte_hex b)) (\<lambda>s. map_option PublicKey (unhex s)))"

lemmas demo_ldk_defs = demo_ldk_def bdk_env.defs ldk_env.defs demo_bdk_def

lemma demo_ldk_ok: "ldk_ok (demo_ldk infos)"
proof -
  have "bdk_ok (demo_ldk infos) = bdk_ok demo_bdk"
    unfolding bdk_ok_def web_ok_def crypto_ok_def by (simp add: demo_ldk_defs)
  then show ?thesis
    using demo_bdk_ok
    by (auto simp: ldk_ok_def demo_ldk_def bdk_env.defs ldk_env.defs list_codec_ok unhex_byte_hex split: PublicKey.split)
qed

lemma demo_ldk_set:
  assumes "to_json c v = Some data" "ascii data"
  shows "\<exists>b'. mbs_set (demo_ldk infos) c plain key v b = (Ok (), b')"
  by (rule set_plain [OF _ _ assms]) (simp_all add: demo_ldk_defs demo_web_def)

definition demo_persister :: MutinyNodePersister where
  "demo_persister = \<lparr>node_id = replicate 36 CHR ''a'', storage = plain\<rparr>"

definition demo_other_persister :: MutinyNodePersister where
  "demo_other_persister = \<lparr>node_id = replicate 36 CHR ''b'', storage = plain\<rparr>"

lemma demo_uuids: "uuid_like (node_id demo_persister)" "uuid_like (node_id demo_other_persister)"
  "storage demo_persister = plain" "storage demo_other_persister = plain"
  "node_id demo_other_persister \<noteq> node_id demo_persister"
  by (simp_all add: uuid_like_def demo_persister_def demo_other_persister_def eval_nat_numeral)

definition demo_info :: PaymentInfo where
  "demo_info = \<lparr>preimage = None, secret = None, status = InFlight, amt_msat = MillisatAmount (Some 1000),
     fee_paid_msat = None, bolt11 = None, last_update = 5\<rparr>"

lemma demo_persist_payment:
  assumes "info \<in> set infos" "storage p = plain"
  shows "\<exists>b'. persist_payment_info (demo_ldk infos) p h info i b = (Ok (), b')"
proof -
  have "\<exists>j. index_of info infos = Some j" using assms(1) by (induction infos) auto
  then obtain j where "to_json (list_codec infos) info = Some (replicate j CHR ''a'')"
    by (auto simp: list_codec_def)
  from demo_ldk_set [OF this] assms(2) show ?thesis
    by (simp add: ascii_def) (simp add: demo_ldk_defs)
qed

lemma payment_table_witness:
  "\<exists>b'. persist_payment_info (demo_ldk [demo_info]) demo_persister (PaymentHash [1]) demo_info True demo_browser = (Ok (), b') \<and>
     (read_payment_info (demo_ldk [demo_info]) demo_persister (PaymentHash [1]) True b' :: (PaymentInfo option, unit) result) =
       Ok (Some demo_info)"
proof -
  obtain b' where b': "persist_payment_info (demo_ldk [demo_info]) demo_persister (PaymentHash [1]) demo_info True demo_browser = (Ok (), b')"
    using demo_persist_payment [OF _ demo_uuids(3), of demo_info "[demo_info]" "PaymentHash [1]" True demo_browser]
    by (simp del: persist_payment_info_iff payment_key.simps) blast
  from payment_table [OF demo_ldk_ok demo_uuids(1) demo_uuids(2) b', of "PaymentHash [1]" True] b' demo_uuids
  show ?thesis by auto
qed

lemma demo_peers_inv: "peers_inv E p demo_browser"
  by (simp add: peers_inv_def demo_browser_def raw_item_def)

lemma peers_listed_are_peers_stored_witness:
  "\<exists>l. list_peer_connection_info (demo_ldk []) demo_persister
      (fold (persist_step (demo_ldk [])) [DeletePeer demo_other_persister ''x''] demo_browser) = Some l \<and> distinct (map fst l)"
proof -
  have "\<forall>call \<in> set [DeletePeer demo_other_persister ''x'']. call_ok (storage demo_persister) call"
    using demo_uuids by simp
  from peers_listed_are_peers_stored [OF demo_ldk_ok demo_uuids(1) demo_peers_inv this refl, of "[]"]
  show ?thesis by blast
qed

lemma channel_manager_restart_witness:
  "read_channel_manager (demo_ldk []) (\<lambda>_ _. None) (\<lambda>h t. t) demo_persister ([] :: nat list) (Some 7) (Some [1]) demo_browser =
     Ok \<lparr>channel_manager = [1], is_restarting = False, channel_monitors = []\<rparr>"
proof -
  have "\<exists>e. mbs_get (demo_ldk []) (json_bytes (demo_ldk [])) plain (get_key demo_persister CHANNEL_MANAGER_KEY) demo_browser = Err e"
    by (rule mbs.get_absent) (simp add: demo_browser_def raw_item_def)
  then obtain e where "read_value (demo_ldk []) demo_persister CHANNEL_MANAGER_KEY demo_browser = Err e"
    by (auto simp: read_value_def demo_persister_def)
  with channel_manager_restart [OF demo_ldk_ok [of "[]"], where p = demo_persister and b = demo_browser
      and decode = "\<lambda>_ _. None" and fresh = "\<lambda>h t. t" and ms = "[] :: nat list" and height = 7 and tip = "[1]"]
  show ?thesis by auto
qed

end
