(* ===== verification/ChainSync.thy ===== *)
theory ChainSync
  imports BdkStorage "HOL-Library.Product_Lexorder" "HOL-Library.Multiset"
begin

text \<open>
  \<open>node-manager/src/chain.rs\<close>: keeping the Lightning node up to date with the chain over an
  Esplora client. The client is a parameter: its answer to a question may depend on when it is
  asked (the number of calls made before), and \<open>None\<close> is an error of the client. While a call is
  awaited other tasks may register transactions (\<open>arrivals\<close>), and a confirmable that is notified
  may register more (\<open>registrations\<close>). What the confirmables are told is the log \<open>delivered\<close>.
  A \<open>HashSet\<close> is a list without repetition, iterated in an order given by a parameter.
\<close>

section \<open>Data\<close>

datatype BlockHash = BlockHash bytes

datatype BlockHeader = BlockHeader bytes

type_synonym usize = u32

record BlockStatus =
  in_best_chain :: bool
  bs_height :: "u32 option"

record MerkleProof =
  mp_height :: u32
  mp_pos :: usize

record OutputStatus =
  spent_by :: "Txid option"
  spent_status :: "(BlockHash option \<times> u32 option) option"

record WatchedOutput =
  wo_block_hash :: "BlockHash option"
  wo_txid :: Txid
  wo_index :: "16 word"
  wo_script :: Script

record ConfirmedTx =
  ct_tx :: Transaction
  ct_header :: BlockHeader
  ct_height :: u32
  ct_pos :: usize

datatype Registration = RegisterTx Txid | RegisterOutput WatchedOutput

text \<open>A call of a confirmable, named by its position among the confirmables.\<close>

datatype ConfirmCall =
    BestBlockUpdated nat BlockHeader u32
  | TransactionsConfirmed nat BlockHeader usize Transaction u32
  | TransactionUnconfirmed nat Txid

record esplora =
  get_tip_hash :: "nat \<Rightarrow> BlockHash option"
  get_header_by_hash :: "nat \<Rightarrow> BlockHash \<Rightarrow> BlockHeader option"
  get_block_status :: "nat \<Rightarrow> BlockHash \<Rightarrow> BlockStatus option"
  get_merkle_proof :: "nat \<Rightarrow> Txid \<Rightarrow> MerkleProof option option"
  get_block_hash :: "nat \<Rightarrow> u32 \<Rightarrow> BlockHash option"
  fetch_tx :: "nat \<Rightarrow> Txid \<Rightarrow> Transaction option option"
  get_output_status :: "nat \<Rightarrow> Txid \<Rightarrow> u64 \<Rightarrow> OutputStatus option option"
  arrivals :: "nat \<Rightarrow> Registration list"
  compute_txid :: "Transaction \<Rightarrow> Txid"
  confirmables :: nat
  relevant_txids :: "nat \<Rightarrow> ConfirmCall list \<Rightarrow> (Txid \<times> BlockHash option) list"
  registrations :: "ConfirmCall list \<Rightarrow> Registration list"
  txid_order :: "Txid list \<Rightarrow> Txid list"
  output_order :: "WatchedOutput list \<Rightarrow> WatchedOutput list"
  relevant_order :: "(Txid \<times> BlockHash option) list \<Rightarrow> (Txid \<times> BlockHash option) list"

text \<open>Iterating a hash set visits its elements, each once.\<close>

definition orders_ok :: "esplora \<Rightarrow> bool" where
  "orders_ok E \<longleftrightarrow> (\<forall>xs. mset (txid_order E xs) = mset xs) \<and>
     (\<forall>xs. mset (output_order E xs) = mset xs) \<and> (\<forall>xs. mset (relevant_order E xs) = mset xs)"

record MutinyChain =
  queued_transactions :: "Txid list"
  watched_transactions :: "Txid list"
  queued_outputs :: "WatchedOutput list"
  watched_outputs :: "WatchedOutput list"
  last_sync_hash :: "BlockHash option"
  calls :: nat
  delivered :: "ConfirmCall list"

definition chain_new :: MutinyChain where
  "chain_new = \<lparr>queued_transactions = [], watched_transactions = [], queued_outputs = [],
     watched_outputs = [], last_sync_hash = None, calls = 0, delivered = []\<rparr>"

type_synonym 'a chain_prog = "(MutinyChain, 'a, MutinyError) prog"

section \<open>Registration\<close>

definition register_tx :: "Txid \<Rightarrow> MutinyChain \<Rightarrow> MutinyChain" where
  "register_tx t s = s\<lparr>queued_transactions := List.insert t (queued_transactions s)\<rparr>"

definition register_output :: "WatchedOutput \<Rightarrow> MutinyChain \<Rightarrow> MutinyChain" where
  "register_output w s = s\<lparr>queued_outputs := List.insert w (queued_outputs s)\<rparr>"

fun register :: "Registration \<Rightarrow> MutinyChain \<Rightarrow> MutinyChain" where
  "register (RegisterTx t) s = register_tx t s"
| "register (RegisterOutput w) s = register_output w s"

text \<open>\<open>set.extend(other.iter())\<close>\<close>

definition extend_set :: "'a list \<Rightarrow> 'a list \<Rightarrow> 'a list" where
  "extend_set xs ys = fold List.insert ys xs"

definition process_queues :: "MutinyChain \<Rightarrow> bool \<times> MutinyChain" where
  "process_queues s =
     (let (p1, s1) = (if queued_transactions s \<noteq> []
            then (True, s\<lparr>watched_transactions := extend_set (watched_transactions s) (queued_transactions s),
                          queued_transactions := []\<rparr>)
            else (False, s));
          (p2, s2) = (if queued_outputs s1 \<noteq> []
            then (True, s1\<lparr>watched_outputs := extend_set (watched_outputs s1) (queued_outputs s1),
                           queued_outputs := []\<rparr>)
            else (p1, s1))
      in (p2, s2))"

section \<open>Talking to the client and to the confirmables\<close>

text \<open>\<open>client.f(..).await?\<close>\<close>

definition ask :: "esplora \<Rightarrow> (nat \<Rightarrow> 'a option) \<Rightarrow> 'a chain_prog" where
  "ask E f s =
     (let s' = fold register (arrivals E (calls s)) (s\<lparr>calls := Suc (calls s)\<rparr>) in
      case f (calls s) of Some v \<Rightarrow> (Ok v, s') | None \<Rightarrow> (Err (mutiny_of_esplora EsploraError), s'))"

definition notify :: "esplora \<Rightarrow> ConfirmCall \<Rightarrow> MutinyChain \<Rightarrow> MutinyChain" where
  "notify E call s =
     (let log = delivered s @ [call] in fold register (registrations E log) (s\<lparr>delivered := log\<rparr>))"

definition notify_all :: "esplora \<Rightarrow> (nat \<Rightarrow> ConfirmCall) \<Rightarrow> MutinyChain \<Rightarrow> MutinyChain" where
  "notify_all E mk s = fold (\<lambda>c. notify E (mk c)) [0..<confirmables E] s"

section \<open>The steps of a sync\<close>

definition sync_best_block_updated :: "esplora \<Rightarrow> BlockHash \<Rightarrow> unit chain_prog" where
  "sync_best_block_updated E tip_hash =
     pbind (ask E (\<lambda>t. get_header_by_hash E t tip_hash)) (\<lambda>tip_header.
     pbind (ask E (\<lambda>t. get_block_status E t tip_hash)) (\<lambda>tip_status.
     if in_best_chain tip_status then
       (case bs_height tip_status of
          Some tip_height \<Rightarrow> pmodify (notify_all E (\<lambda>c. BestBlockUpdated c tip_header tip_height))
        | None \<Rightarrow> preturn ())
     else perr ChainAccessFailed))"

definition confirm_one :: "esplora \<Rightarrow> ConfirmedTx \<Rightarrow> MutinyChain \<Rightarrow> MutinyChain" where
  "confirm_one E ctx s =
     (let s1 = notify_all E (\<lambda>c. TransactionsConfirmed c (ct_header ctx) (ct_pos ctx) (ct_tx ctx) (ct_height ctx)) s
      in s1\<lparr>watched_transactions := removeAll (compute_txid E (ct_tx ctx)) (watched_transactions s1)\<rparr>)"

definition sync_confirmed_transactions ::
  "esplora \<Rightarrow> ConfirmedTx list \<Rightarrow> WatchedOutput list \<Rightarrow> MutinyChain \<Rightarrow> MutinyChain" where
  "sync_confirmed_transactions E confirmed_txs spent_outputs s =
     (let s1 = fold (confirm_one E) confirmed_txs s
      in s1\<lparr>watched_outputs := filter (\<lambda>w. w \<notin> set spent_outputs) (watched_outputs s1)\<rparr>)"

definition get_confirmed_tx ::
  "esplora \<Rightarrow> Txid \<Rightarrow> BlockHash option \<Rightarrow> u32 option \<Rightarrow> ConfirmedTx option chain_prog" where
  "get_confirmed_tx E txid expected_block_hash known_block_height =
     pbind (ask E (\<lambda>t. get_merkle_proof E t txid)) (\<lambda>proof.
     case proof of
       None \<Rightarrow> preturn None
     | Some merkle_proof \<Rightarrow>
         pbind (ask E (\<lambda>t. get_block_hash E t (mp_height merkle_proof))) (\<lambda>block_hash.
         if (case expected_block_hash of Some h \<Rightarrow> h \<noteq> block_hash | None \<Rightarrow> False)
         then perr ChainAccessFailed
         else
           pbind (ask E (\<lambda>t. get_header_by_hash E t block_hash)) (\<lambda>block_header.
           pbind (ask E (\<lambda>t. fetch_tx E t txid)) (\<lambda>found.
           case found of
             None \<Rightarrow> preturn None
           | Some tx \<Rightarrow>
               (case known_block_height of
                  Some block_height \<Rightarrow>
                    if mp_height merkle_proof \<noteq> block_height then perr ChainAccessFailed
                    else preturn (Some \<lparr>ct_tx = tx, ct_header = block_header,
                           ct_height = block_height, ct_pos = mp_pos merkle_proof\<rparr>)
                | None \<Rightarrow> preturn (Some \<lparr>ct_tx = tx, ct_header = block_header,
                           ct_height = mp_height merkle_proof, ct_pos = mp_pos merkle_proof\<rparr>))))))"

text \<open>The two loops of \<open>get_confirmed_transactions\<close>.\<close>

fun check_registered :: "esplora \<Rightarrow> Txid list \<Rightarrow> ConfirmedTx list chain_prog" where
  "check_registered E [] = preturn []"
| "check_registered E (txid # ts) =
     pbind (get_confirmed_tx E txid None None) (\<lambda>found.
     pbind (check_registered E ts) (\<lambda>rest.
     preturn (case found of Some c \<Rightarrow> c # rest | None \<Rightarrow> rest)))"

definition check_output :: "esplora \<Rightarrow> WatchedOutput \<Rightarrow> ConfirmedTx option chain_prog" where
  "check_output E w =
     pbind (ask E (\<lambda>t. get_output_status E t (wo_txid w) (ucast (wo_index w)))) (\<lambda>status.
     case status of
       None \<Rightarrow> preturn None
     | Some output_status \<Rightarrow>
         (case (spent_by output_status, spent_status output_status) of
            (Some spending_txid, Some (block_hash, block_height)) \<Rightarrow>
              get_confirmed_tx E spending_txid block_hash block_height
          | _ \<Rightarrow> preturn None))"

fun check_outputs :: "esplora \<Rightarrow> WatchedOutput list \<Rightarrow> (ConfirmedTx list \<times> WatchedOutput list) chain_prog" where
  "check_outputs E [] = preturn ([], [])"
| "check_outputs E (w # ws) =
     pbind (check_output E w) (\<lambda>found.
     pbind (check_outputs E ws) (\<lambda>(ctxs, spent).
     preturn (case found of Some c \<Rightarrow> (c # ctxs, List.insert w spent) | None \<Rightarrow> (ctxs, spent))))"

definition get_confirmed_transactions :: "esplora \<Rightarrow> (ConfirmedTx list \<times> WatchedOutput list) chain_prog" where
  "get_confirmed_transactions E =
     pbind (pread (\<lambda>s. Ok (txid_order E (watched_transactions s)))) (\<lambda>registered_txs.
     pbind (check_registered E registered_txs) (\<lambda>confirmed1.
     pbind (pread (\<lambda>s. Ok (output_order E (watched_outputs s)))) (\<lambda>registered_outputs.
     pbind (check_outputs E registered_outputs) (\<lambda>(confirmed2, spent_outputs).
     preturn (sort_key (\<lambda>c. (ct_height c, ct_pos c)) (confirmed1 @ confirmed2), spent_outputs)))))"

definition unconfirm :: "esplora \<Rightarrow> Txid \<Rightarrow> MutinyChain \<Rightarrow> MutinyChain" where
  "unconfirm E txid s =
     (let s1 = notify_all E (\<lambda>c. TransactionUnconfirmed c txid) s
      in s1\<lparr>watched_transactions := List.insert txid (watched_transactions s1)\<rparr>)"

fun unconfirm_loop :: "esplora \<Rightarrow> (Txid \<times> BlockHash option) list \<Rightarrow> unit chain_prog" where
  "unconfirm_loop E [] = preturn ()"
| "unconfirm_loop E ((txid, block_hash_opt) # rest) =
     pbind (case block_hash_opt of
              Some block_hash \<Rightarrow>
                pbind (ask E (\<lambda>t. get_block_status E t block_hash)) (\<lambda>st. preturn (in_best_chain st))
            | None \<Rightarrow> preturn False) (\<lambda>skip.
     pbind (if skip then preturn () else pmodify (unconfirm E txid)) (\<lambda>_.
     unconfirm_loop E rest))"

definition sync_unconfirmed_transactions :: "esplora \<Rightarrow> unit chain_prog" where
  "sync_unconfirmed_transactions E =
     pbind (pread (\<lambda>s. Ok (relevant_order E (remdups
        (concat (map (\<lambda>c. relevant_txids E c (delivered s)) [0..<confirmables E])))))) (\<lambda>relevant.
     unconfirm_loop E relevant)"

section \<open>The sync loop\<close>

text \<open>How an iteration of the loop ends: \<open>break\<close>, another round with a tip, or \<open>return Err\<close>.\<close>

datatype Flow = Break | Continue BlockHash | Return MutinyError | Unwind

text \<open>The best block step of an iteration: \<open>None\<close> when the iteration goes on after it.\<close>

definition sync_tip :: "esplora \<Rightarrow> BlockHash \<Rightarrow> MutinyChain \<Rightarrow> Flow option \<times> MutinyChain" where
  "sync_tip E tip_hash s =
     (case sync_unconfirmed_transactions E s of
        (Err e, s1) \<Rightarrow> (Some (Return e), s1)
      | (Panic, s1) \<Rightarrow> (Some Unwind, s1)
      | (Ok _, s1) \<Rightarrow>
          (case sync_best_block_updated E tip_hash s1 of
             (Ok _, s2) \<Rightarrow> (None, s2)
           | (Err e, s2) \<Rightarrow> (Some (if e = ChainAccessFailed then Continue tip_hash else Return e), s2)
           | (Panic, s2) \<Rightarrow> (Some Unwind, s2)))"

text \<open>The rest of an iteration, with the double check of the tip.\<close>

definition sync_confirmed :: "esplora \<Rightarrow> BlockHash \<Rightarrow> MutinyChain \<Rightarrow> Flow \<times> MutinyChain" where
  "sync_confirmed E tip_hash s =
     (case get_confirmed_transactions E s of
        (Ok (confirmed_txs, spent_outputs), s1) \<Rightarrow>
          (case ask E (get_tip_hash E) s1 of
             (Ok check_tip_hash, s2) \<Rightarrow>
               if check_tip_hash \<noteq> tip_hash then (Continue check_tip_hash, s2)
               else (Continue tip_hash,
                 (sync_confirmed_transactions E confirmed_txs spent_outputs s2)\<lparr>last_sync_hash := Some tip_hash\<rparr>)
           | (Err e, s2) \<Rightarrow> (Return e, s2)
           | (Panic, s2) \<Rightarrow> (Unwind, s2))
      | (Err e, s1) \<Rightarrow> (if e = ChainAccessFailed then Continue tip_hash else Return e, s1)
      | (Panic, s1) \<Rightarrow> (Unwind, s1))"

definition sync_iteration :: "esplora \<Rightarrow> BlockHash \<Rightarrow> MutinyChain \<Rightarrow> Flow \<times> MutinyChain" where
  "sync_iteration E tip_hash s =
     (let (registrations_are_pending, s1) = process_queues s;
          tip_is_new = (Some tip_hash \<noteq> last_sync_hash s1)
      in if \<not> registrations_are_pending \<and> \<not> tip_is_new then (Break, s1)
         else if tip_is_new then
           (case sync_tip E tip_hash s1 of
              (Some flow, s2) \<Rightarrow> (flow, s2)
            | (None, s2) \<Rightarrow> sync_confirmed E tip_hash s2)
         else sync_confirmed E tip_hash s1)"

fun sync_loop :: "esplora \<Rightarrow> nat \<Rightarrow> BlockHash \<Rightarrow> MutinyChain \<Rightarrow> ((unit, MutinyError) result \<times> MutinyChain) option" where
  "sync_loop E 0 tip_hash s = None"
| "sync_loop E (Suc fuel) tip_hash s =
     (case sync_iteration E tip_hash s of
        (Break, s') \<Rightarrow> Some (Ok (), s')
      | (Continue tip', s') \<Rightarrow> sync_loop E fuel tip' s'
      | (Return e, s') \<Rightarrow> Some (Err e, s')
      | (Unwind, s') \<Rightarrow> Some (Panic, s'))"

definition sync :: "esplora \<Rightarrow> nat \<Rightarrow> MutinyChain \<Rightarrow> ((unit, MutinyError) result \<times> MutinyChain) option" where
  "sync E fuel s =
     (case ask E (get_tip_hash E) s of
        (Ok tip_hash, s1) \<Rightarrow> sync_loop E fuel tip_hash s1
      | (Err e, s1) \<Rightarrow> Some (Err e, s1)
      | (Panic, s1) \<Rightarrow> Some (Panic, s1))"

section \<open>Nothing registered is forgotten\<close>

definition tracked_txs :: "MutinyChain \<Rightarrow> Txid set" where
  "tracked_txs s = set (queued_transactions s) \<union> set (watched_transactions s)"

definition tracked_outputs :: "MutinyChain \<Rightarrow> WatchedOutput set" where
  "tracked_outputs s = set (queued_outputs s) \<union> set (watched_outputs s)"

text \<open>What the confirmables were told between two states.\<close>

definition news :: "MutinyChain \<Rightarrow> MutinyChain \<Rightarrow> ConfirmCall list" where
  "news s s' = drop (length (delivered s)) (delivered s')"

definition told_all :: "esplora \<Rightarrow> (Transaction \<Rightarrow> bool) \<Rightarrow> ConfirmCall list \<Rightarrow> bool" where
  "told_all E P evs \<longleftrightarrow>
     (\<exists>header pos tx height. P tx \<and>
        (\<forall>c < confirmables E. TransactionsConfirmed c header pos tx height \<in> set evs))"

text \<open>The client once said that the output is spent by a transaction it then handed out.\<close>

definition spends :: "esplora \<Rightarrow> WatchedOutput \<Rightarrow> Transaction \<Rightarrow> bool" where
  "spends E w tx \<longleftrightarrow>
     (\<exists>t t' st txid. get_output_status E t (wo_txid w) (ucast (wo_index w)) = Some (Some st) \<and>
        spent_by st = Some txid \<and> fetch_tx E t' txid = Some (Some tx))"

definition chain_advances :: "esplora \<Rightarrow> MutinyChain \<Rightarrow> MutinyChain \<Rightarrow> bool" where
  "chain_advances E s s' \<longleftrightarrow>
     calls s \<le> calls s' \<and> (\<exists>evs. delivered s' = delivered s @ evs) \<and>
     (\<forall>t \<in> tracked_txs s. t \<in> tracked_txs s' \<or> told_all E (\<lambda>tx. compute_txid E tx = t) (news s s')) \<and>
     (\<forall>w \<in> tracked_outputs s. w \<in> tracked_outputs s' \<or> told_all E (spends E w) (news s s'))"

lemma told_all_mono: "told_all E P evs \<Longrightarrow> set evs \<subseteq> set evs' \<Longrightarrow> told_all E P evs'"
  unfolding told_all_def by blast

lemma news_refl [simp]: "news s s = []"
  by (simp add: news_def)

interpretation adv: run_preorder "chain_advances E" for E
proof
  show "chain_advances E s s" for s by (auto simp: chain_advances_def)
next
  fix s t u assume st: "chain_advances E s t" and tu: "chain_advances E t u"
  obtain e1 e2 where e: "delivered t = delivered s @ e1" "delivered u = delivered t @ e2"
    using st tu by (auto simp: chain_advances_def)
  then have sub: "set (news s t) \<subseteq> set (news s u)" "set (news t u) \<subseteq> set (news s u)"
    by (auto simp: news_def)
  show "chain_advances E s u"
    unfolding chain_advances_def
  proof (intro conjI ballI)
    show "calls s \<le> calls u" using st tu by (auto simp: chain_advances_def)
    show "\<exists>evs. delivered u = delivered s @ evs" using e by simp
    fix x assume "x \<in> tracked_txs s"
    then show "x \<in> tracked_txs u \<or> told_all E (\<lambda>tx. compute_txid E tx = x) (news s u)"
      using st tu told_all_mono [OF _ sub(1)] told_all_mono [OF _ sub(2)]
      unfolding chain_advances_def by blast
  next
    fix w assume "w \<in> tracked_outputs s"
    then show "w \<in> tracked_outputs u \<or> told_all E (spends E w) (news s u)"
      using st tu told_all_mono [OF _ sub(1)] told_all_mono [OF _ sub(2)]
      unfolding chain_advances_def by blast
  qed
qed

lemma advances_if_kept:
  "calls s \<le> calls s' \<Longrightarrow> delivered s' = delivered s @ evs \<Longrightarrow> tracked_txs s \<subseteq> tracked_txs s' \<Longrightarrow>
   tracked_outputs s \<subseteq> tracked_outputs s' \<Longrightarrow> chain_advances E s s'"
  by (auto simp: chain_advances_def)

lemma set_extend [simp]: "set (extend_set xs ys) = set xs \<union> set ys"
  unfolding extend_set_def by (induction ys arbitrary: xs) auto

lemma register_fields [simp]:
  "calls (register r s) = calls s" "delivered (register r s) = delivered s"
  "watched_transactions (register r s) = watched_transactions s"
  "watched_outputs (register r s) = watched_outputs s"
  "last_sync_hash (register r s) = last_sync_hash s"
  by (cases r; simp add: register_tx_def register_output_def)+

lemma fold_register_fields [simp]:
  "calls (fold register rs s) = calls s" "delivered (fold register rs s) = delivered s"
  "watched_transactions (fold register rs s) = watched_transactions s"
  "watched_outputs (fold register rs s) = watched_outputs s"
  "last_sync_hash (fold register rs s) = last_sync_hash s"
  by (induction rs arbitrary: s) simp_all

lemma register_advances: "chain_advances E s (register r s)"
  by (rule advances_if_kept [where evs = "[]"])
    (cases r; auto simp: register_tx_def register_output_def tracked_txs_def tracked_outputs_def)+

lemma fold_register_advances: "chain_advances E s (fold register rs s)"
  by (rule adv.run_fold) (rule register_advances)

lemma ask_advances: "chain_advances E s (snd (ask E f s))"
proof -
  have "chain_advances E s (s\<lparr>calls := Suc (calls s)\<rparr>)"
    by (rule advances_if_kept [where evs = "[]"]) (auto simp: tracked_txs_def tracked_outputs_def)
  from adv.R_trans [OF this fold_register_advances] show ?thesis
    by (simp add: ask_def Let_def split: option.split)
qed

lemma notify_advances: "chain_advances E s (notify E call s)"
proof -
  have "chain_advances E s (s\<lparr>delivered := delivered s @ [call]\<rparr>)"
    by (rule advances_if_kept) (auto simp: tracked_txs_def tracked_outputs_def)
  from adv.R_trans [OF this fold_register_advances] show ?thesis by (simp add: notify_def Let_def)
qed

lemma notify_all_advances: "chain_advances E s (notify_all E mk s)"
  unfolding notify_all_def by (rule adv.run_fold) (rule notify_advances)

lemma notify_tells: "delivered (notify E call s) = delivered s @ [call]"
  by (simp add: notify_def Let_def)

lemma fold_notify_tells:
  "delivered (fold (\<lambda>c. notify E (mk c)) cs s) = delivered s @ map mk cs"
  by (induction cs arbitrary: s) (simp_all add: notify_tells)

lemma notify_all_tells: "delivered (notify_all E mk s) = delivered s @ map mk [0..<confirmables E]"
  unfolding notify_all_def by (rule fold_notify_tells)

lemma notify_all_watched [simp]:
  "watched_transactions (notify_all E mk s) = watched_transactions s"
  "watched_outputs (notify_all E mk s) = watched_outputs s"
  "last_sync_hash (notify_all E mk s) = last_sync_hash s"
proof -
  have "watched_transactions (fold (\<lambda>c. notify E (mk c)) cs s) = watched_transactions s \<and>
     watched_outputs (fold (\<lambda>c. notify E (mk c)) cs s) = watched_outputs s \<and>
     last_sync_hash (fold (\<lambda>c. notify E (mk c)) cs s) = last_sync_hash s" for cs
    by (induction cs arbitrary: s) (simp_all add: notify_def Let_def)
  then show "watched_transactions (notify_all E mk s) = watched_transactions s"
    "watched_outputs (notify_all E mk s) = watched_outputs s"
    "last_sync_hash (notify_all E mk s) = last_sync_hash s"
    by (simp_all add: notify_all_def)
qed

definition told_confirmed :: "esplora \<Rightarrow> ConfirmedTx \<Rightarrow> ConfirmCall list" where
  "told_confirmed E c =
     map (\<lambda>i. TransactionsConfirmed i (ct_header c) (ct_pos c) (ct_tx c) (ct_height c)) [0..<confirmables E]"

lemma confirm_one_tells: "delivered (confirm_one E c s) = delivered s @ told_confirmed E c"
  by (simp add: confirm_one_def Let_def notify_all_tells told_confirmed_def)

lemma fold_confirm_tells:
  "delivered (fold (confirm_one E) ctxs s) = delivered s @ concat (map (told_confirmed E) ctxs)"
  by (induction ctxs arbitrary: s) (simp_all add: confirm_one_tells)

lemma told_all_confirmed: "P (ct_tx c) \<Longrightarrow> set (told_confirmed E c) \<subseteq> set evs \<Longrightarrow> told_all E P evs"
  unfolding told_all_def told_confirmed_def by force

lemma confirm_one_advances: "chain_advances E s (confirm_one E c s)"
proof -
  let ?mk = "\<lambda>i. TransactionsConfirmed i (ct_header c) (ct_pos c) (ct_tx c) (ct_height c)"
  let ?s1 = "notify_all E ?mk s" and ?s2 = "confirm_one E c s"
  have s2: "?s2 = ?s1\<lparr>watched_transactions := removeAll (compute_txid E (ct_tx c)) (watched_transactions ?s1)\<rparr>"
    by (simp add: confirm_one_def Let_def)
  have 1: "chain_advances E s ?s1" by (rule notify_all_advances)
  have news: "news s ?s2 = told_confirmed E c" "news s ?s1 = told_confirmed E c"
    by (simp_all add: news_def confirm_one_tells notify_all_tells told_confirmed_def)
  have told: "told_all E (\<lambda>tx. compute_txid E tx = compute_txid E (ct_tx c)) (news s ?s2)"
    unfolding news by (rule told_all_confirmed) auto
  have "tracked_txs ?s1 \<subseteq> insert (compute_txid E (ct_tx c)) (tracked_txs ?s2)"
    "tracked_outputs ?s2 = tracked_outputs ?s1" "calls ?s2 = calls ?s1"
    unfolding s2 tracked_txs_def tracked_outputs_def by auto
  with 1 told show ?thesis
    unfolding chain_advances_def news confirm_one_tells by auto
qed

lemma fold_confirm_advances: "chain_advances E s (fold (confirm_one E) ctxs s)"
  by (rule adv.run_fold) (rule confirm_one_advances)

lemma sync_confirmed_transactions_advances:
  assumes "\<forall>w \<in> set spent. \<exists>c \<in> set ctxs. spends E w (ct_tx c)"
  shows "chain_advances E s (sync_confirmed_transactions E ctxs spent s)"
proof -
  let ?s1 = "fold (confirm_one E) ctxs s" and ?s2 = "sync_confirmed_transactions E ctxs spent s"
  have s2: "?s2 = ?s1\<lparr>watched_outputs := filter (\<lambda>w. w \<notin> set spent) (watched_outputs ?s1)\<rparr>"
    by (simp add: sync_confirmed_transactions_def Let_def)
  have 1: "chain_advances E s ?s1" by (rule fold_confirm_advances)
  have same: "news s ?s2 = news s ?s1" "tracked_txs ?s2 = tracked_txs ?s1" "calls ?s2 = calls ?s1"
      "delivered ?s2 = delivered ?s1"
    by (simp_all add: s2 news_def tracked_txs_def)
  have told: "told_all E (spends E w) (news s ?s2)" if "w \<in> set spent" for w
  proof -
    from assms that obtain c where "c \<in> set ctxs" "spends E w (ct_tx c)" by blast
    then show ?thesis
      by (intro told_all_confirmed [of _ c]) (auto simp: same news_def fold_confirm_tells)
  qed
  have "w \<in> tracked_outputs ?s2 \<or> w \<in> set spent" if "w \<in> tracked_outputs ?s1" for w
    using that by (auto simp: s2 tracked_outputs_def)
  with 1 told show ?thesis unfolding chain_advances_def same by blast
qed

lemma sync_best_block_updated_advances: "chain_advances E s (snd (sync_best_block_updated E tip s))"
  unfolding sync_best_block_updated_def
  by (intro adv.run_pbind ask_advances) (auto split: option.split simp: adv.R_refl notify_all_advances)

lemma unconfirm_advances: "chain_advances E s (unconfirm E t s)"
proof (rule adv.R_trans [OF notify_all_advances])
  let ?s1 = "notify_all E (\<lambda>c. TransactionUnconfirmed c t) s"
  show "chain_advances E ?s1 (unconfirm E t s)"
    by (rule advances_if_kept [where evs = "[]"])
      (auto simp: unconfirm_def Let_def tracked_txs_def tracked_outputs_def)
qed

lemma unconfirm_loop_advances: "chain_advances E s (snd (unconfirm_loop E rel s))"
proof (induction rel arbitrary: s)
  case (Cons r rel)
  obtain t h where r: "r = (t, h)" by fastforce
  show ?case
    unfolding r unconfirm_loop.simps
    by (intro adv.run_pbind Cons.IH)
      (auto split: option.split simp: adv.R_refl unconfirm_advances intro!: adv.run_pbind ask_advances)
qed (simp add: adv.R_refl)

lemma sync_unconfirmed_transactions_advances: "chain_advances E s (snd (sync_unconfirmed_transactions E s))"
  unfolding sync_unconfirmed_transactions_def
  by (intro adv.run_pbind unconfirm_loop_advances) (simp add: adv.R_refl)

lemma get_confirmed_tx_advances: "chain_advances E s (snd (get_confirmed_tx E t h n s))"
  unfolding get_confirmed_tx_def
  by (intro adv.run_pbind ask_advances)
    (auto split: option.split simp: adv.R_refl intro!: adv.run_pbind ask_advances)

lemma check_registered_advances: "chain_advances E s (snd (check_registered E ts s))"
  by (induction ts arbitrary: s)
    (auto simp: adv.R_refl intro!: adv.run_pbind get_confirmed_tx_advances)

lemma check_output_advances: "chain_advances E s (snd (check_output E w s))"
  unfolding check_output_def
  by (intro adv.run_pbind ask_advances)
    (auto split: option.split prod.split simp: adv.R_refl get_confirmed_tx_advances)

lemma check_outputs_advances: "chain_advances E s (snd (check_outputs E ws s))"
  by (induction ws arbitrary: s)
    (auto simp: adv.R_refl split: prod.split intro!: adv.run_pbind check_output_advances)

lemma get_confirmed_transactions_advances: "chain_advances E s (snd (get_confirmed_transactions E s))"
  unfolding get_confirmed_transactions_def
  by (intro adv.run_pbind check_registered_advances)
    (auto simp: adv.R_refl split: prod.split intro!: adv.run_pbind check_outputs_advances)

section \<open>What a sync delivers\<close>

lemma ask_Ok_iff:
  "ask E f s = (Ok v, s') \<longleftrightarrow>
     f (calls s) = Some v \<and> s' = fold register (arrivals E (calls s)) (s\<lparr>calls := Suc (calls s)\<rparr>)"
  by (auto simp: ask_def Let_def split: option.splits)

lemma ask_value: "ask E f s = (Ok v, s') \<Longrightarrow> f (calls s) = Some v"
  by (simp add: ask_Ok_iff)

lemma ask_fields:
  "ask E f s = (r, s') \<Longrightarrow> calls s' = Suc (calls s) \<and> delivered s' = delivered s \<and>
     watched_transactions s' = watched_transactions s \<and> watched_outputs s' = watched_outputs s \<and>
     last_sync_hash s' = last_sync_hash s"
  by (auto simp: ask_def Let_def split: option.splits)

lemma get_confirmed_tx_Ok:
  assumes "get_confirmed_tx E txid expected known s = (Ok (Some c), s')"
  shows "\<exists>t1 t2 t3 t4 proof block_hash.
     get_merkle_proof E t1 txid = Some (Some proof) \<and>
     get_block_hash E t2 (mp_height proof) = Some block_hash \<and>
     get_header_by_hash E t3 block_hash = Some (ct_header c) \<and>
     fetch_tx E t4 txid = Some (Some (ct_tx c)) \<and>
     ct_height c = mp_height proof \<and> ct_pos c = mp_pos proof \<and>
     (\<forall>h. expected = Some h \<longrightarrow> h = block_hash) \<and> (\<forall>n. known = Some n \<longrightarrow> n = ct_height c)"
  using assms unfolding get_confirmed_tx_def
  by (auto elim!: pbind_OkE dest!: ask_value split: option.split_asm if_split_asm) blast+

lemma check_output_Ok:
  assumes "check_output E w s = (Ok (Some c), s')"
  shows "spends E w (ct_tx c)"
proof -
  obtain t st txid bh n s1 where
    st: "get_output_status E t (wo_txid w) (ucast (wo_index w)) = Some (Some st)" "spent_by st = Some txid"
    and c: "get_confirmed_tx E txid bh n s1 = (Ok (Some c), s')"
    using assms unfolding check_output_def
    by (elim pbind_OkE) (auto dest!: ask_value split: option.split_asm prod.split_asm)
  from get_confirmed_tx_Ok [OF c] st show ?thesis unfolding spends_def by blast
qed

lemma check_outputs_Ok:
  "check_outputs E ws s = (Ok (ctxs, spent), s') \<Longrightarrow>
   set spent \<subseteq> set ws \<and> (\<forall>w \<in> set spent. \<exists>c \<in> set ctxs. spends E w (ct_tx c))"
proof (induction ws arbitrary: s ctxs spent)
  case (Cons w ws)
  from Cons.prems obtain found s1 ctxs1 spent1 where
    f: "check_output E w s = (Ok found, s1)" and r: "check_outputs E ws s1 = (Ok (ctxs1, spent1), s')"
    and eq: "(ctxs, spent) = (case found of Some c \<Rightarrow> (c # ctxs1, List.insert w spent1) | None \<Rightarrow> (ctxs1, spent1))"
    by (auto simp: pbind_Ok_iff preturn_def split: prod.splits)
  show ?case
  proof (cases found)
    case None
    with eq Cons.IH [OF r] show ?thesis by auto
  next
    case (Some c)
    with f have "spends E w (ct_tx c)" by (simp add: check_output_Ok)
    with Some eq Cons.IH [OF r] show ?thesis by auto
  qed
qed (simp add: preturn_def)

lemma get_confirmed_transactions_Ok:
  assumes "get_confirmed_transactions E s = (Ok (ctxs, spent), s')"
  shows "sorted (map (\<lambda>c. (ct_height c, ct_pos c)) ctxs)"
    and "\<forall>w \<in> set spent. \<exists>c \<in> set ctxs. spends E w (ct_tx c)"
proof -
  from assms obtain c1 c2 s1 where
    "check_outputs E (output_order E (watched_outputs s1)) s1 = (Ok (c2, spent), s')"
    and ctxs: "ctxs = sort_key (\<lambda>c. (ct_height c, ct_pos c)) (c1 @ c2)"
    by (auto simp: get_confirmed_transactions_def pbind_Ok_iff preturn_def split: prod.splits)
  with check_outputs_Ok show "\<forall>w \<in> set spent. \<exists>c \<in> set ctxs. spends E w (ct_tx c)"
    by fastforce
  show "sorted (map (\<lambda>c. (ct_height c, ct_pos c)) ctxs)"
    unfolding ctxs by (rule sorted_sort_key)
qed

section \<open>The loop\<close>

lemma process_queues_result:
  assumes "process_queues s = (pending, s')"
  shows "pending \<longleftrightarrow> queued_transactions s \<noteq> [] \<or> queued_outputs s \<noteq> []"
    and "queued_transactions s' = []" "queued_outputs s' = []"
    and "tracked_txs s' = tracked_txs s" "tracked_outputs s' = tracked_outputs s"
    and "calls s' = calls s" "delivered s' = delivered s" "last_sync_hash s' = last_sync_hash s"
    and "set (watched_transactions s') = tracked_txs s" "set (watched_outputs s') = tracked_outputs s"
  using assms
  by (auto simp: process_queues_def Let_def tracked_txs_def tracked_outputs_def split: if_splits)

lemma process_queues_advances: "process_queues s = (p, s') \<Longrightarrow> chain_advances E s s'"
  by (rule advances_if_kept [where evs = "[]"]) (auto dest: process_queues_result)

lemma sync_tip_advances: "sync_tip E tip s = (r, s') \<Longrightarrow> chain_advances E s s'"
proof -
  assume r: "sync_tip E tip s = (r, s')"
  obtain q s1 where u: "sync_unconfirmed_transactions E s = (q, s1)" by fastforce
  obtain q2 s2 where b: "sync_best_block_updated E tip s1 = (q2, s2)" by fastforce
  have "chain_advances E s s1" "chain_advances E s1 s2"
    using sync_unconfirmed_transactions_advances [of E s] sync_best_block_updated_advances [of E s1 tip] u b
    by simp_all
  then show ?thesis
    using r u b by (auto simp: sync_tip_def split: result.splits intro: adv.R_trans)
qed

lemma set_last_sync_hash_advances: "chain_advances E s (s\<lparr>last_sync_hash := h\<rparr>)"
  by (rule advances_if_kept [where evs = "[]"]) (auto simp: tracked_txs_def tracked_outputs_def)

lemma sync_confirmed_advances: "sync_confirmed E tip s = (r, s') \<Longrightarrow> chain_advances E s s'"
proof -
  assume r: "sync_confirmed E tip s = (r, s')"
  obtain q s1 where g: "get_confirmed_transactions E s = (q, s1)" by fastforce
  obtain q2 s2 where a: "ask E (get_tip_hash E) s1 = (q2, s2)" by fastforce
  have adv: "chain_advances E s s1" "chain_advances E s1 s2"
    using get_confirmed_transactions_advances [of E s] ask_advances [of E s1 "get_tip_hash E"] g a by simp_all
  show ?thesis
  proof (cases q)
    case (Ok v)
    obtain ctxs spent where v: "v = (ctxs, spent)" by fastforce
    have "chain_advances E s2 (sync_confirmed_transactions E ctxs spent s2)"
      using get_confirmed_transactions_Ok(2) g Ok v by (intro sync_confirmed_transactions_advances) blast
    from adv.R_trans [OF this set_last_sync_hash_advances] show ?thesis
      using r g a Ok v adv by (auto simp: sync_confirmed_def split: result.splits if_splits intro: adv.R_trans)
  qed (use r g adv in \<open>auto simp: sync_confirmed_def split: if_splits\<close>)
qed

lemma sync_iteration_advances: "sync_iteration E tip s = (r, s') \<Longrightarrow> chain_advances E s s'"
  unfolding sync_iteration_def Let_def
  by (auto split: prod.splits if_splits option.splits
      dest!: process_queues_advances [where E = E] sync_tip_advances sync_confirmed_advances
      intro: adv.R_trans)



section \<open>Properties of a sync\<close>


lemma confirm_one_hash [simp]: "last_sync_hash (confirm_one E c s) = last_sync_hash s"
  by (simp add: confirm_one_def Let_def)

lemma sync_iteration_continues:
  assumes "sync_iteration E tip s = (Continue tip', s')" "calls s0 \<le> calls s"
    and "\<exists>t. calls s0 \<le> t \<and> t < calls s \<and> get_tip_hash E t = Some tip"
  shows "\<exists>t. calls s0 \<le> t \<and> t < calls s' \<and> get_tip_hash E t = Some tip'"
proof (cases "tip' = tip")
  case True
  have "calls s \<le> calls s'"
    using sync_iteration_advances [OF assms(1)] by (simp add: chain_advances_def)
  with True assms(3) show ?thesis by force
next
  case False
  have tip_only: "f = Continue x \<Longrightarrow> x = tip" if "sync_tip E tip u = (Some f, u')" for f x u u'
    using that by (auto simp: sync_tip_def split: prod.splits result.splits if_splits)
  have "\<exists>u. sync_confirmed E tip u = (Continue tip', s') \<and> chain_advances E s u"
    using assms(1) False tip_only
    by (auto simp: sync_iteration_def Let_def split: prod.splits if_splits option.splits)
      (metis adv.R_trans process_queues_advances sync_tip_advances)+
  then obtain u where u: "sync_confirmed E tip u = (Continue tip', s')" and adv: "chain_advances E s u" by blast
  obtain q u1 where g: "get_confirmed_transactions E u = (q, u1)" by fastforce
  have "calls u \<le> calls u1"
    using get_confirmed_transactions_advances [of E u] g by (simp add: chain_advances_def)
  moreover have a: "ask E (get_tip_hash E) u1 = (Ok tip', s')"
    using u g False by (auto simp: sync_confirmed_def split: result.splits prod.splits if_splits)
  moreover have "calls s \<le> calls u" using adv by (simp add: chain_advances_def)
  ultimately have "calls s0 \<le> calls u1 \<and> calls u1 < calls s' \<and> get_tip_hash E (calls u1) = Some tip'"
    using assms(2) ask_value [OF a] ask_fields [OF a] by simp
  then show ?thesis by blast
qed

lemma sync_loop_Ok:
  assumes "sync_loop E fuel tip s = Some (Ok (), s')" "calls s0 \<le> calls s"
    and "\<exists>t. calls s0 \<le> t \<and> t < calls s \<and> get_tip_hash E t = Some tip"
  shows "queued_transactions s' = [] \<and> queued_outputs s' = [] \<and>
    (\<exists>t. calls s0 \<le> t \<and> t < calls s' \<and> get_tip_hash E t = last_sync_hash s' \<and> last_sync_hash s' \<noteq> None)"
  using assms
proof (induction fuel arbitrary: tip s)
  case (Suc fuel)
  obtain f s1 where i: "sync_iteration E tip s = (f, s1)" by fastforce
  from sync_iteration_advances [OF i] have mono: "calls s \<le> calls s1" by (simp add: chain_advances_def)
  show ?case
  proof (cases f)
    case Break
    have no: "sync_confirmed E tip u \<noteq> (Break, u')" "sync_tip E tip u \<noteq> (Some Break, u')" for u u'
      by (auto simp: sync_confirmed_def sync_tip_def split: result.splits prod.splits)
    with i Break obtain p where p: "process_queues s = (p, s1)" "\<not> p" "Some tip = last_sync_hash s1"
      by (auto simp: sync_iteration_def Let_def split: prod.splits if_splits option.splits)
    have "s' = s1" using Suc.prems(1) i Break by simp
    with p process_queues_result [OF p(1)] Suc.prems(3) mono show ?thesis
      by (metis option.distinct(1) order_less_le_trans)
  next
    case (Continue tip')
    with i have i': "sync_iteration E tip s = (Continue tip', s1)" by simp
    have "sync_loop E fuel tip' s1 = Some (Ok (), s')" using Suc.prems(1) i' by simp
    from Suc.IH [OF this _ sync_iteration_continues [OF i' Suc.prems(2,3)]] Suc.prems(2) mono
    show ?thesis by simp
  qed (use Suc.prems(1) i in simp_all)
qed simp

text \<open>
  C2: when a sync succeeds, every registration made before or during it has been taken out of
  the queues, and the remembered tip is one the client reported during this very sync.
\<close>

theorem sync_Ok_is_synced:
  assumes "sync E fuel s = Some (Ok (), s')"
  shows "queued_transactions s' = [] \<and> queued_outputs s' = [] \<and>
    (\<exists>t tip. calls s \<le> t \<and> t < calls s' \<and> get_tip_hash E t = Some tip \<and> last_sync_hash s' = Some tip)"
proof -
  obtain tip s1 where a: "ask E (get_tip_hash E) s = (Ok tip, s1)" and l: "sync_loop E fuel tip s1 = Some (Ok (), s')"
    using assms by (auto simp: sync_def split: prod.splits result.splits)
  have "calls s \<le> calls s1" "\<exists>t. calls s \<le> t \<and> t < calls s1 \<and> get_tip_hash E t = Some tip"
    using ask_value [OF a] ask_fields [OF a] by auto
  from sync_loop_Ok [OF l this] show ?thesis by auto
qed

text \<open>
  Confirmed transactions are handed out in chain order, by height and then position, each
  to every confirmable before the next one, with a header, height and position the client gave.
\<close>

theorem confirmations_in_chain_order:
  assumes "get_confirmed_transactions E s = (Ok (ctxs, spent), s')"
  shows "sorted (map (\<lambda>c. (ct_height c, ct_pos c)) ctxs) \<and>
    news u (sync_confirmed_transactions E ctxs spent u) =
      concat (map (\<lambda>c. map (\<lambda>i. TransactionsConfirmed i (ct_header c) (ct_pos c) (ct_tx c) (ct_height c))
        [0..<confirmables E]) ctxs)"
  using get_confirmed_transactions_Ok(1) [OF assms]
  by (simp add: news_def sync_confirmed_transactions_def Let_def fold_confirm_tells told_confirmed_def [abs_def])

section \<open>Errors\<close>

text \<open>Programs that fail with \<open>ChainAccessFailed\<close> only, and never panic.\<close>

definition chain_errors_only :: "'a chain_prog \<Rightarrow> bool" where
  "chain_errors_only m \<longleftrightarrow> (\<forall>s. fst (m s) \<noteq> Panic \<and> (\<forall>e. fst (m s) = Err e \<longrightarrow> e = ChainAccessFailed))"

lemma chain_errors_basic [simp]:
  "chain_errors_only (preturn v)" "chain_errors_only (perr ChainAccessFailed)"
  "chain_errors_only (pmodify g)" "chain_errors_only (pread (\<lambda>s. Ok (f s)))" "chain_errors_only (ask E q)"
  by (auto simp: chain_errors_only_def ask_def Let_def mutiny_of_esplora_def split: option.split)

lemma chain_errors_applied [simp]:
  "chain_errors_only (Pair (Ok v))" "chain_errors_only (\<lambda>s. (Ok (f s), g s))"
  "chain_errors_only m \<Longrightarrow> chain_errors_only (\<lambda>s. m (h s))"
  by (simp_all add: chain_errors_only_def)

lemma chain_errors_pbind:
  assumes "chain_errors_only m" "\<And>v. chain_errors_only (k v)"
  shows "chain_errors_only (pbind m k)"
  using assms unfolding chain_errors_only_def pbind_def
  by (auto split: prod.splits result.splits) (metis fst_conv)+

lemma sync_best_block_updated_errors: "chain_errors_only (sync_best_block_updated E tip)"
  unfolding sync_best_block_updated_def by (intro chain_errors_pbind) (auto split: option.split)

lemma get_confirmed_tx_errors: "chain_errors_only (get_confirmed_tx E t h n)"
  unfolding get_confirmed_tx_def
  by (intro chain_errors_pbind) (auto split: option.split intro!: chain_errors_pbind)

lemma check_registered_errors: "chain_errors_only (check_registered E ts)"
  by (induction ts) (auto intro!: chain_errors_pbind get_confirmed_tx_errors)

lemma check_output_errors: "chain_errors_only (check_output E w)"
  unfolding check_output_def
  by (intro chain_errors_pbind) (auto split: option.split prod.split intro: get_confirmed_tx_errors)

lemma check_outputs_errors: "chain_errors_only (check_outputs E ws)"
  by (induction ws) (auto split: prod.split intro!: chain_errors_pbind check_output_errors)

lemma get_confirmed_transactions_errors: "chain_errors_only (get_confirmed_transactions E)"
  unfolding get_confirmed_transactions_def
  by (intro chain_errors_pbind)
    (auto split: prod.split intro!: chain_errors_pbind check_registered_errors check_outputs_errors)

lemma unconfirm_loop_errors: "chain_errors_only (unconfirm_loop E rel)"
proof (induction rel)
  case (Cons r rel)
  then show ?case by (cases r) (auto split: option.split intro!: chain_errors_pbind)
qed simp

lemma sync_unconfirmed_transactions_errors: "chain_errors_only (sync_unconfirmed_transactions E)"
  unfolding sync_unconfirmed_transactions_def
  by (intro chain_errors_pbind unconfirm_loop_errors) auto

lemma chain_errors_result:
  "chain_errors_only m \<Longrightarrow> m s = (r, s') \<Longrightarrow> (\<exists>v. r = Ok v) \<or> r = Err ChainAccessFailed"
  unfolding chain_errors_only_def by (cases r) (metis fst_conv)+

lemma sync_confirmed_flow:
  "sync_confirmed E tip s = (f, s') \<Longrightarrow> (\<exists>t. f = Continue t) \<or> f = Return ChainAccessFailed"
  using chain_errors_result [OF get_confirmed_transactions_errors]
    chain_errors_result [OF chain_errors_basic(5)]
  by (fastforce simp: sync_confirmed_def split: prod.splits result.splits if_splits)

lemma sync_tip_flow:
  "sync_tip E tip s = (Some f, s') \<Longrightarrow> f = Continue tip \<or> f = Return ChainAccessFailed"
  using chain_errors_result [OF sync_unconfirmed_transactions_errors]
    chain_errors_result [OF sync_best_block_updated_errors]
  by (fastforce simp: sync_tip_def split: prod.splits result.splits if_splits)

lemma sync_iteration_flow:
  "sync_iteration E tip s = (f, s') \<Longrightarrow> f = Break \<or> (\<exists>t. f = Continue t) \<or> f = Return ChainAccessFailed"
  by (auto simp: sync_iteration_def Let_def split: prod.splits if_splits option.splits
      dest: sync_confirmed_flow sync_tip_flow)

lemma sync_loop_errors:
  "sync_loop E fuel tip s = Some (r, s') \<Longrightarrow> r = Ok () \<or> r = Err ChainAccessFailed"
proof (induction fuel arbitrary: tip s)
  case (Suc fuel)
  obtain f s1 where "sync_iteration E tip s = (f, s1)" by fastforce
  with sync_iteration_flow [OF this] Suc show ?case by auto
qed simp

text \<open>
  The only error of a sync is \<open>ChainAccessFailed\<close> (the branches for other, permanent errors
  are dead: every error of the client is converted to this one).
\<close>

theorem sync_only_fails_with_chain_access:
  assumes "sync E fuel s = Some (r, s')"
  shows "r = Ok () \<or> r = Err ChainAccessFailed"
proof -
  obtain q s1 where a: "ask E (get_tip_hash E) s = (q, s1)" by fastforce
  from chain_errors_result [OF chain_errors_basic(5) a] show ?thesis
    using assms a by (auto simp: sync_def dest: sync_loop_errors)
qed

section \<open>A failing client\<close>

lemma set_txid_order: "orders_ok E \<Longrightarrow> set (txid_order E xs) = set xs"
  unfolding orders_ok_def by (metis set_mset_mset)

lemma get_confirmed_transactions_fails:
  assumes "orders_ok E" "watched_transactions s \<noteq> []" "\<forall>n t. get_merkle_proof E n t = None"
  shows "fst (get_confirmed_transactions E s) = Err ChainAccessFailed"
proof -
  have "txid_order E (watched_transactions s) \<noteq> []"
    using assms(1,2) set_txid_order by (metis set_empty)
  then obtain t ts where "txid_order E (watched_transactions s) = t # ts"
    by (meson neq_Nil_conv)
  moreover have "get_confirmed_tx E t None None s =
      (Err ChainAccessFailed, snd (ask E (\<lambda>n. get_merkle_proof E n t) s))"
    by (simp add: get_confirmed_tx_def pbind_def ask_def Let_def assms(3) mutiny_of_esplora_def)
  ultimately show ?thesis
    by (simp add: get_confirmed_transactions_def pbind_def)
qed

lemma unconfirm_loop_returns:
  assumes "\<forall>n h. get_block_status E n h \<noteq> None"
  shows "\<exists>s'. unconfirm_loop E rel s = (Ok (), s')"
proof (induction rel arbitrary: s)
  case (Cons r rel)
  obtain t h where r: "r = (t, h)" by fastforce
  have "\<exists>b u. (case h of Some bh \<Rightarrow> pbind (ask E (\<lambda>n. get_block_status E n bh)) (\<lambda>st. preturn (in_best_chain st))
      | None \<Rightarrow> preturn False) s = (Ok b, u)"
    using assms by (cases h) (auto simp: pbind_def ask_def Let_def split: option.split dest: spec)
  then obtain b u where b: "(case h of Some bh \<Rightarrow> pbind (ask E (\<lambda>n. get_block_status E n bh)) (\<lambda>st. preturn (in_best_chain st))
      | None \<Rightarrow> preturn False) s = (Ok b, u)" by blast
  from Cons.IH obtain s' where "unconfirm_loop E rel (if b then u else unconfirm E t u) = (Ok (), s')" by blast
  then show ?case unfolding r by (auto simp: pbind_def b split: if_splits)
qed simp

lemma sync_unconfirmed_returns:
  assumes "\<forall>n h. get_block_status E n h \<noteq> None"
  shows "\<exists>s'. sync_unconfirmed_transactions E s = (Ok (), s')"
  unfolding sync_unconfirmed_transactions_def using unconfirm_loop_returns [OF assms] by simp

text \<open>
  Between two states the queues grew only through arrivals or through registrations made in
  answer to a notification in between.
\<close>

definition quiet :: "esplora \<Rightarrow> MutinyChain \<Rightarrow> MutinyChain \<Rightarrow> bool" where
  "quiet E s s' \<longleftrightarrow> length (delivered s) \<le> length (delivered s') \<and>
     ((\<forall>n. arrivals E n = []) \<and> (length (delivered s') = length (delivered s) \<or>
         (\<forall>log. length (delivered s) < length log \<longrightarrow> registrations E log = [])) \<longrightarrow>
      queued_transactions s' = queued_transactions s \<and> queued_outputs s' = queued_outputs s)"

definition watches_on :: "esplora \<Rightarrow> MutinyChain \<Rightarrow> MutinyChain \<Rightarrow> bool" where
  "watches_on E s s' \<longleftrightarrow> last_sync_hash s' = last_sync_hash s \<and>
     set (watched_transactions s) \<subseteq> set (watched_transactions s') \<and> quiet E s s'"

interpretation quiet: run_preorder "quiet E" for E
proof
  show "quiet E s s" for s by (simp add: quiet_def)
next
  fix s t u assume "quiet E s t" "quiet E t u"
  then show "quiet E s u" unfolding quiet_def by (smt (verit) le_antisym le_trans order.strict_trans1)
qed

interpretation on: run_preorder "watches_on E" for E
  by standard (auto simp: watches_on_def quiet.R_refl intro: quiet.R_trans)

lemma fold_register_tracks: "tracked_txs s \<subseteq> tracked_txs (fold register rs s)"
proof (induction rs arbitrary: s)
  case (Cons r rs)
  have "tracked_txs s \<subseteq> tracked_txs (register r s)"
    by (cases r) (auto simp: tracked_txs_def register_tx_def register_output_def)
  with Cons show ?case by fastforce
qed simp

lemma ask_tracks: "tracked_txs s \<subseteq> tracked_txs (snd (ask E f s))"
  using fold_register_tracks [of "s\<lparr>calls := Suc (calls s)\<rparr>"]
  by (simp add: ask_def Let_def tracked_txs_def split: option.split)

lemma ask_on: "watches_on E s (snd (ask E f s))"
  by (auto simp: ask_def Let_def watches_on_def quiet_def split: option.split)

lemma notify_on: "watches_on E s (notify E c s)"
  by (auto simp: notify_def Let_def watches_on_def quiet_def)

lemma notify_all_on: "watches_on E s (notify_all E mk s)"
  unfolding notify_all_def by (rule on.run_fold) (rule notify_on)

lemma unconfirm_on: "watches_on E s (unconfirm E t s)"
proof (rule on.R_trans [OF notify_all_on])
  show "watches_on E (notify_all E (\<lambda>c. TransactionUnconfirmed c t) s) (unconfirm E t s)"
    by (auto simp: unconfirm_def Let_def watches_on_def quiet_def)
qed

lemma unconfirm_loop_on: "watches_on E s (snd (unconfirm_loop E rel s))"
proof (induction rel arbitrary: s)
  case (Cons r rel)
  obtain t h where r: "r = (t, h)" by fastforce
  show ?case
    unfolding r unconfirm_loop.simps
    by (intro on.run_pbind Cons.IH)
      (auto split: option.split simp: ask_on unconfirm_on on.R_refl intro!: on.run_pbind)
qed (simp add: on.R_refl)

lemma sync_unconfirmed_on: "watches_on E s (snd (sync_unconfirmed_transactions E s))"
  unfolding sync_unconfirmed_transactions_def
  by (intro on.run_pbind unconfirm_loop_on) (simp add: on.R_refl)

lemma sync_best_block_updated_on: "watches_on E s (snd (sync_best_block_updated E tip s))"
  unfolding sync_best_block_updated_def
  by (intro on.run_pbind ask_on) (auto split: option.split simp: on.R_refl notify_all_on)

lemma get_confirmed_tx_on: "watches_on E s (snd (get_confirmed_tx E t h n s))"
  unfolding get_confirmed_tx_def
  by (intro on.run_pbind ask_on) (auto split: option.split simp: ask_on on.R_refl intro!: on.run_pbind)

lemma check_registered_on: "watches_on E s (snd (check_registered E ts s))"
  by (induction ts arbitrary: s) (auto simp: on.R_refl intro!: on.run_pbind get_confirmed_tx_on)

lemma check_output_on: "watches_on E s (snd (check_output E w s))"
  unfolding check_output_def
  by (intro on.run_pbind ask_on) (auto split: option.split prod.split simp: get_confirmed_tx_on on.R_refl)

lemma check_outputs_on: "watches_on E s (snd (check_outputs E ws s))"
  by (induction ws arbitrary: s)
    (auto split: prod.split simp: on.R_refl intro!: on.run_pbind check_output_on)

lemma get_confirmed_transactions_on: "watches_on E s (snd (get_confirmed_transactions E s))"
  unfolding get_confirmed_transactions_def
  by (intro on.run_pbind check_registered_on)
    (auto split: prod.split simp: on.R_refl intro!: on.run_pbind check_outputs_on)

lemma sync_tip_on: "sync_tip E tip s = (r, s') \<Longrightarrow> watches_on E s s'"
proof -
  assume r: "sync_tip E tip s = (r, s')"
  obtain q s1 where u: "sync_unconfirmed_transactions E s = (q, s1)" by fastforce
  obtain q2 s2 where b: "sync_best_block_updated E tip s1 = (q2, s2)" by fastforce
  have "watches_on E s s1" "watches_on E s1 s2"
    using sync_unconfirmed_on [of E s] sync_best_block_updated_on [of E s1 tip] u b by simp_all
  then show ?thesis using r u b by (auto simp: sync_tip_def split: result.splits intro: on.R_trans)
qed

text \<open>One round with a failing client: the tip stays new and what is watched stays watched.\<close>

lemma failing_round:
  assumes "orders_ok E" "\<forall>n t. get_merkle_proof E n t = None" "\<forall>n h. get_block_status E n h \<noteq> None"
    and "last_sync_hash s \<noteq> Some tip" "tracked_txs s \<noteq> {}"
  shows "\<exists>s'. sync_iteration E tip s = (Continue tip, s') \<and> last_sync_hash s' \<noteq> Some tip \<and> tracked_txs s' \<noteq> {}"
proof -
  obtain p s1 where q: "process_queues s = (p, s1)" by fastforce
  have s1: "watched_transactions s1 \<noteq> []" "last_sync_hash s1 \<noteq> Some tip"
    using process_queues_result(8,9) [OF q] assms(4,5) by auto
  obtain f s2 where t: "sync_tip E tip s1 = (f, s2)" by fastforce
  obtain u where u: "sync_unconfirmed_transactions E s1 = (Ok (), u)"
    using sync_unconfirmed_returns [OF assms(3)] by blast
  have f: "f = None \<or> f = Some (Continue tip)"
    using t u chain_errors_result [OF sync_best_block_updated_errors, of E tip u]
    by (auto simp: sync_tip_def split: prod.splits result.splits if_splits)
  have s2: "watched_transactions s2 \<noteq> []" "last_sync_hash s2 \<noteq> Some tip"
    using sync_tip_on [OF t] s1 by (auto simp: watches_on_def)
  obtain s3 where g: "get_confirmed_transactions E s2 = (Err ChainAccessFailed, s3)"
    using get_confirmed_transactions_fails [OF assms(1) s2(1) assms(2)] by (metis prod.collapse)
  have s3: "watched_transactions s3 \<noteq> []" "last_sync_hash s3 \<noteq> Some tip"
    using get_confirmed_transactions_on [of E s2] s2 g by (auto simp: watches_on_def)
  have "sync_iteration E tip s = (Continue tip, if f = None then s3 else s2)"
    using f q t g s1(2) by (auto simp: sync_iteration_def sync_confirmed_def)
  with s2 s3 show ?thesis by (auto simp: tracked_txs_def)
qed

text \<open>
  A client that persistently fails to give Merkle proofs does not make the sync fail, as the
  comments on permanent failures suggest: with a transaction registered and a new tip, the loop
  goes round forever, without a pause.
\<close>

theorem sync_spins_on_permanent_failure:
  assumes "orders_ok E" "\<forall>n t. get_merkle_proof E n t = None" "\<forall>n h. get_block_status E n h \<noteq> None"
    and "get_tip_hash E (calls s) = Some tip" "last_sync_hash s \<noteq> Some tip" "tracked_txs s \<noteq> {}"
  shows "sync E fuel s = None"
proof -
  have loop: "sync_loop E n tip u = None" if "last_sync_hash u \<noteq> Some tip" "tracked_txs u \<noteq> {}" for n u
    using that
  proof (induction n arbitrary: u)
    case (Suc n)
    from failing_round [OF assms(1-3) Suc.prems] obtain u' where
      "sync_iteration E tip u = (Continue tip, u')" "last_sync_hash u' \<noteq> Some tip" "tracked_txs u' \<noteq> {}"
      by blast
    with Suc.IH [of u'] show ?case by simp
  qed simp
  obtain s1 where a: "ask E (get_tip_hash E) s = (Ok tip, s1)"
    by (simp add: ask_def Let_def assms(4))
  have "last_sync_hash s1 \<noteq> Some tip" using ask_fields [OF a] assms(5) by simp
  moreover have "tracked_txs s1 \<noteq> {}"
    using ask_tracks [of s E "get_tip_hash E"] assms(6) a by auto
  ultimately show ?thesis using a loop by (simp add: sync_def)
qed

section \<open>A well-behaved client\<close>

text \<open>
  The client always answers, the tip stays the same block of the best chain, and what it says
  of a spent output agrees with the Merkle proof and block it gives for the spending transaction.
\<close>

definition steady :: "esplora \<Rightarrow> BlockHash \<Rightarrow> bool" where
  "steady E tip \<longleftrightarrow>
     (\<forall>n. get_tip_hash E n = Some tip) \<and>
     (\<forall>n. \<exists>st. get_block_status E n tip = Some st \<and> in_best_chain st) \<and>
     (\<forall>n h. get_header_by_hash E n h \<noteq> None \<and> get_block_status E n h \<noteq> None) \<and>
     (\<forall>n t. get_merkle_proof E n t \<noteq> None \<and> fetch_tx E n t \<noteq> None) \<and>
     (\<forall>n k. get_block_hash E n k \<noteq> None) \<and> (\<forall>n t i. get_output_status E n t i \<noteq> None) \<and>
     (\<forall>n t i st txid bh h n1 n2 proof.
        get_output_status E n t i = Some (Some st) \<and> spent_by st = Some txid \<and>
        spent_status st = Some (bh, h) \<and> get_merkle_proof E n1 txid = Some (Some proof) \<longrightarrow>
        (bh \<noteq> None \<longrightarrow> get_block_hash E n2 (mp_height proof) = bh) \<and>
        (h \<noteq> None \<longrightarrow> h = Some (mp_height proof)))"

definition succeeds :: "'a chain_prog \<Rightarrow> bool" where
  "succeeds m \<longleftrightarrow> (\<forall>s. \<exists>v s'. m s = (Ok v, s'))"

lemma succeeds_basic [simp]:
  "succeeds (preturn v)" "succeeds (pmodify g)" "succeeds (pread (\<lambda>s. Ok (f s)))"
  "succeeds (\<lambda>s. (Ok (f s), g s))" "succeeds (Pair (Ok v))"
  by (auto simp: succeeds_def)

lemma succeeds_pbind:
  assumes "succeeds m" "\<And>v s s'. m s = (Ok v, s') \<Longrightarrow> succeeds (k v)"
  shows "succeeds (pbind m k)"
  unfolding succeeds_def
proof
  fix s
  obtain v s1 where m: "m s = (Ok v, s1)" using assms(1) unfolding succeeds_def by blast
  from assms(2) [OF m] obtain w s2 where "k v s1 = (Ok w, s2)" unfolding succeeds_def by blast
  with m show "\<exists>v s'. pbind m k s = (Ok v, s')" by (simp add: pbind_def)
qed

lemma succeeds_ask: "\<forall>n. f n \<noteq> None \<Longrightarrow> succeeds (ask E f)"
  unfolding succeeds_def ask_def Let_def by (auto split: option.split)

lemma succeeds_get_confirmed_tx:
  assumes "steady E tip"
    and "\<And>n1 n2 proof. get_merkle_proof E n1 t = Some (Some proof) \<Longrightarrow>
      (bh \<noteq> None \<longrightarrow> get_block_hash E n2 (mp_height proof) = bh) \<and> (h \<noteq> None \<longrightarrow> h = Some (mp_height proof))"
  shows "succeeds (get_confirmed_tx E t bh h)"
  unfolding get_confirmed_tx_def
proof (rule succeeds_pbind)
  show "succeeds (ask E (\<lambda>n. get_merkle_proof E n t))"
    using assms(1) by (intro succeeds_ask) (simp add: steady_def)
  fix v s s' assume p: "ask E (\<lambda>n. get_merkle_proof E n t) s = (Ok v, s')"
  have ok: "succeeds (ask E (\<lambda>n. get_block_hash E n k))" "succeeds (ask E (\<lambda>n. get_header_by_hash E n x))"
    "succeeds (ask E (\<lambda>n. fetch_tx E n t))" for k x
    using assms(1) by (intro succeeds_ask; simp add: steady_def)+
  show "succeeds (case v of None \<Rightarrow> preturn None
     | Some merkle_proof \<Rightarrow>
         pbind (ask E (\<lambda>t. get_block_hash E t (mp_height merkle_proof))) (\<lambda>block_hash.
         if (case bh of Some h \<Rightarrow> h \<noteq> block_hash | None \<Rightarrow> False)
         then perr ChainAccessFailed
         else
           pbind (ask E (\<lambda>t. get_header_by_hash E t block_hash)) (\<lambda>block_header.
           pbind (ask E (\<lambda>n. fetch_tx E n t)) (\<lambda>found.
           case found of
             None \<Rightarrow> preturn None
           | Some tx \<Rightarrow>
               (case h of
                  Some block_height \<Rightarrow>
                    if mp_height merkle_proof \<noteq> block_height then perr ChainAccessFailed
                    else preturn (Some \<lparr>ct_tx = tx, ct_header = block_header,
                           ct_height = block_height, ct_pos = mp_pos merkle_proof\<rparr>)
                | None \<Rightarrow> preturn (Some \<lparr>ct_tx = tx, ct_header = block_header,
                           ct_height = mp_height merkle_proof, ct_pos = mp_pos merkle_proof\<rparr>))))))"
  proof (cases v)
    case (Some mp)
    with p have "get_merkle_proof E (calls s) t = Some (Some mp)" by (auto dest: ask_value)
    from assms(2) [OF this] show ?thesis
      using Some ok
      by (auto intro!: succeeds_pbind dest!: ask_value split: option.split)
  qed simp
qed

lemma succeeds_check_registered: "steady E tip \<Longrightarrow> succeeds (check_registered E ts)"
  by (induction ts) (auto intro!: succeeds_pbind succeeds_get_confirmed_tx)

lemma succeeds_check_output:
  assumes "steady E tip"
  shows "succeeds (check_output E w)"
  unfolding check_output_def
proof (rule succeeds_pbind)
  show "succeeds (ask E (\<lambda>n. get_output_status E n (wo_txid w) (ucast (wo_index w))))"
    using assms by (intro succeeds_ask) (simp add: steady_def)
  fix v s s' assume p: "ask E (\<lambda>n. get_output_status E n (wo_txid w) (ucast (wo_index w))) s = (Ok v, s')"
  have "succeeds (get_confirmed_tx E txid bh h)"
    if "v = Some st" "spent_by st = Some txid" "spent_status st = Some (bh, h)" for st txid bh h
    using assms that ask_value [OF p]
    by (intro succeeds_get_confirmed_tx [OF assms]) (unfold steady_def, blast)
  then show "succeeds (case v of None \<Rightarrow> preturn None
     | Some output_status \<Rightarrow>
         (case (spent_by output_status, spent_status output_status) of
            (Some spending_txid, Some (block_hash, block_height)) \<Rightarrow>
              get_confirmed_tx E spending_txid block_hash block_height
          | _ \<Rightarrow> preturn None))"
    by (auto split: option.split)
qed

lemma succeeds_check_outputs: "steady E tip \<Longrightarrow> succeeds (check_outputs E ws)"
  by (induction ws) (auto split: prod.split intro!: succeeds_pbind succeeds_check_output)

lemma succeeds_get_confirmed_transactions: "steady E tip \<Longrightarrow> succeeds (get_confirmed_transactions E)"
  unfolding get_confirmed_transactions_def
  by (intro succeeds_pbind succeeds_check_registered)
    (auto split: prod.split intro!: succeeds_pbind succeeds_check_outputs)

lemma steady_tip_status: "steady E tip \<Longrightarrow> get_block_status E n tip = Some st \<Longrightarrow> in_best_chain st"
  unfolding steady_def by (metis option.inject)

lemma succeeds_sync_best_block_updated: "steady E tip \<Longrightarrow> succeeds (sync_best_block_updated E tip)"
  unfolding sync_best_block_updated_def
proof (intro succeeds_pbind)
  assume E: "steady E tip"
  then show "succeeds (ask E (\<lambda>n. get_header_by_hash E n tip))" "succeeds (ask E (\<lambda>n. get_block_status E n tip))"
    by (auto intro!: succeeds_ask simp: steady_def)
  fix v s s' w u u' assume "ask E (\<lambda>n. get_block_status E n tip) u = (Ok w, u')"
  from steady_tip_status [OF E ask_value [OF this]]
  show "succeeds (if in_best_chain w then
       (case bs_height w of
          Some tip_height \<Rightarrow> pmodify (notify_all E (\<lambda>c. BestBlockUpdated c v tip_height))
        | None \<Rightarrow> preturn ())
     else perr ChainAccessFailed)"
    by (simp split: option.split)
qed

text \<open>The confirming part of an iteration adds to the queues only what it is told to add.\<close>

lemma confirm_one_quiet: "quiet E s (confirm_one E c s)"
proof (rule quiet.R_trans)
  let ?s1 = "notify_all E (\<lambda>i. TransactionsConfirmed i (ct_header c) (ct_pos c) (ct_tx c) (ct_height c)) s"
  show "quiet E s ?s1" using notify_all_on by (auto simp: watches_on_def)
  show "quiet E ?s1 (confirm_one E c s)" by (simp add: confirm_one_def Let_def quiet_def)
qed

lemma sync_confirmed_transactions_quiet: "quiet E s (sync_confirmed_transactions E ctxs spent s)"
proof (rule quiet.R_trans)
  show "quiet E s (fold (confirm_one E) ctxs s)" by (rule quiet.run_fold) (rule confirm_one_quiet)
  show "quiet E (fold (confirm_one E) ctxs s) (sync_confirmed_transactions E ctxs spent s)"
    by (simp add: sync_confirmed_transactions_def Let_def quiet_def)
qed

lemma steady_round:
  assumes "orders_ok E" "steady E tip"
    and work: "queued_transactions s \<noteq> [] \<or> queued_outputs s \<noteq> [] \<or> last_sync_hash s \<noteq> Some tip"
  shows "\<exists>s0 s'. sync_iteration E tip s = (Continue tip, s') \<and> last_sync_hash s' = Some tip \<and>
    queued_transactions s0 = [] \<and> queued_outputs s0 = [] \<and> delivered s0 = delivered s \<and> quiet E s0 s'"
proof -
  obtain p s0 where q: "process_queues s = (p, s0)" by fastforce
  note s0 = process_queues_result [OF q]
  have "\<exists>u. (if last_sync_hash s0 = Some tip then (None, s0) else sync_tip E tip s0) = (None, u) \<and> watches_on E s0 u"
  proof (cases "last_sync_hash s0 = Some tip")
    case False
    obtain u1 where u1: "sync_unconfirmed_transactions E s0 = (Ok (), u1)"
      using sync_unconfirmed_returns [of E s0] assms(2) by (auto simp: steady_def)
    obtain u2 where "sync_best_block_updated E tip u1 = (Ok (), u2)"
      using succeeds_sync_best_block_updated [OF assms(2)] unfolding succeeds_def by (metis unit.exhaust)
    with u1 have "sync_tip E tip s0 = (None, u2)" by (simp add: sync_tip_def)
    with False sync_tip_on show ?thesis by force
  qed (simp add: on.R_refl)
  then obtain u where tip: "(if last_sync_hash s0 = Some tip then (None, s0) else sync_tip E tip s0) = (None, u)"
    and on: "watches_on E s0 u" by blast
  obtain ctxs spent u1 where g: "get_confirmed_transactions E u = (Ok (ctxs, spent), u1)"
    using succeeds_get_confirmed_transactions [OF assms(2)] unfolding succeeds_def by (metis surj_pair)
  obtain u2 where a: "ask E (get_tip_hash E) u1 = (Ok tip, u2)"
    using assms(2) by (simp add: ask_def Let_def steady_def)
  define u3 where "u3 = sync_confirmed_transactions E ctxs spent u2"
  have c: "sync_confirmed E tip u = (Continue tip, u3\<lparr>last_sync_hash := Some tip\<rparr>)"
    by (simp add: sync_confirmed_def g a u3_def)
  have "sync_iteration E tip s = sync_confirmed E tip u"
    using q tip work s0(1,8) by (auto simp: sync_iteration_def split: if_splits)
  moreover have "quiet E s0 (u3\<lparr>last_sync_hash := Some tip\<rparr>)"
  proof -
    have "watches_on E u u1" "watches_on E u1 u2"
      using get_confirmed_transactions_on [of E u] ask_on [of E u1 "get_tip_hash E"] g a by simp_all
    with on have "quiet E s0 u" "quiet E u u1" "quiet E u1 u2" by (simp_all add: watches_on_def)
    moreover have "quiet E u2 u3" unfolding u3_def by (rule sync_confirmed_transactions_quiet)
    moreover have "quiet E u3 (u3\<lparr>last_sync_hash := Some tip\<rparr>)" by (simp add: quiet_def)
    ultimately show ?thesis by (meson quiet.R_trans)
  qed
  ultimately show ?thesis using c s0(2,3,7) by auto
qed

lemma steady_loop_returns:
  assumes "orders_ok E" "steady E tip" "\<forall>n. arrivals E n = []"
    and "\<forall>log. N < length log \<longrightarrow> registrations E log = []"
    and "last_sync_hash s = Some tip" "N - length (delivered s) + 2 \<le> fuel"
  shows "\<exists>s'. sync_loop E fuel tip s = Some (Ok (), s')"
  using assms(5,6)
proof (induction fuel arbitrary: s)
  case (Suc fuel)
  show ?case
  proof (cases "queued_transactions s = [] \<and> queued_outputs s = []")
    case True
    obtain p s1 where q: "process_queues s = (p, s1)" by fastforce
    from process_queues_result [OF q] True Suc.prems(1) q show ?thesis
      by (simp add: sync_iteration_def)
  next
    case False
    with steady_round [OF assms(1,2)] obtain s0 s' where
      i: "sync_iteration E tip s = (Continue tip, s')" "last_sync_hash s' = Some tip"
      and s0: "queued_transactions s0 = []" "queued_outputs s0 = []" "delivered s0 = delivered s" "quiet E s0 s'"
      by blast
    show ?thesis
    proof (cases "queued_transactions s' = [] \<and> queued_outputs s' = []")
      case True
      obtain fuel' where "fuel = Suc fuel'" using Suc.prems(2) by (cases fuel) auto
      moreover obtain p s1 where q: "process_queues s' = (p, s1)" by fastforce
      ultimately show ?thesis
        using process_queues_result [OF q] True i q by (simp add: sync_iteration_def)
    next
      case False
      with s0 assms(3) have len: "length (delivered s) \<le> length (delivered s')"
        "length (delivered s') \<noteq> length (delivered s)"
        "\<not> (\<forall>log. length (delivered s) < length log \<longrightarrow> registrations E log = [])"
        unfolding quiet_def by auto
      then have "length (delivered s) < N" using assms(4) by (meson le_less_trans not_less)
      with len Suc.prems(2) have "N - length (delivered s') + 2 \<le> fuel" by simp
      from Suc.IH [OF i(2) this] i(1) show ?thesis by simp
    qed
  qed
qed simp

text \<open>
  C13: with a client that answers consistently and keeps its tip, and confirmables that stop
  registering after the \<open>N\<close>-th notification, a sync returns \<open>Ok\<close> after at most three iterations
  more than the notifications missing to \<open>N\<close>.
\<close>

theorem sync_terminates:
  assumes "orders_ok E" "steady E tip" "\<forall>n. arrivals E n = []"
    and "\<forall>log. N < length log \<longrightarrow> registrations E log = []"
  shows "\<exists>s'. sync E (N - length (delivered s) + 3) s = Some (Ok (), s')"
proof -
  let ?fuel = "N - length (delivered s) + 2"
  obtain s1 where a: "ask E (get_tip_hash E) s = (Ok tip, s1)"
    using assms(2) by (simp add: ask_def Let_def steady_def)
  have d: "delivered s1 = delivered s" using ask_fields [OF a] by simp
  have "\<exists>s'. sync_loop E (Suc ?fuel) tip s1 = Some (Ok (), s')"
  proof (cases "last_sync_hash s1 = Some tip")
    case True
    then show ?thesis using d by (intro steady_loop_returns [OF assms]) simp_all
  next
    case False
    with steady_round [OF assms(1,2)] obtain s0 s2 where
      i: "sync_iteration E tip s1 = (Continue tip, s2)" "last_sync_hash s2 = Some tip"
        "delivered s0 = delivered s1" "quiet E s0 s2" by blast
    then have "length (delivered s) \<le> length (delivered s2)" using d by (simp add: quiet_def)
    then have "\<exists>s'. sync_loop E ?fuel tip s2 = Some (Ok (), s')"
      by (intro steady_loop_returns [OF assms i(2)]) simp
    with i show ?thesis by simp
  qed
  with a show ?thesis by (simp add: sync_def numeral_3_eq_3)
qed

section \<open>A registration that is not processed\<close>

text \<open>
  \<open>sync\<close> does not process every registration at least once before it returns, as its
  comment says: if the first query for the registered transaction fails while the tip is
  unchanged, the retry finds the queues already drained and returns \<open>Ok\<close> with nothing asked.
\<close>

theorem sync_skips_registration:
  assumes "orders_ok E" "\<forall>n. arrivals E n = []"
    and "get_tip_hash E (calls s) = Some tip" "last_sync_hash s = Some tip"
    and "queued_transactions s = [t]" "watched_transactions s = []" "queued_outputs s = []"
    and "get_merkle_proof E (Suc (calls s)) t = None"
  shows "\<exists>s'. sync E 2 s = Some (Ok (), s') \<and> watched_transactions s' = [t] \<and>
    calls s' = calls s + 2 \<and> news s s' = []"
proof -
  let ?s1 = "s\<lparr>calls := Suc (calls s)\<rparr>"
  let ?s2 = "s\<lparr>calls := Suc (calls s), watched_transactions := [t], queued_transactions := []\<rparr>"
  let ?s3 = "?s2\<lparr>calls := Suc (Suc (calls s))\<rparr>"
  have order: "txid_order E [t] = [t]"
    using assms(1) unfolding orders_ok_def by (metis mset_single_iff mset.simps)
  have a: "ask E (get_tip_hash E) s = (Ok tip, ?s1)" using assms(2,3) by (simp add: ask_Ok_iff)
  have q1: "process_queues ?s1 = (True, ?s2)"
    using assms(5-7) by (simp add: process_queues_def extend_set_def List.insert_def)
  have "get_confirmed_tx E t None None ?s2 = (Err ChainAccessFailed, ?s3)"
    using assms(2,8) by (simp add: get_confirmed_tx_def pbind_def ask_def Let_def mutiny_of_esplora_def)
  then have "get_confirmed_transactions E ?s2 = (Err ChainAccessFailed, ?s3)"
    by (simp add: get_confirmed_transactions_def order pbind_def)
  then have i1: "sync_iteration E tip ?s1 = (Continue tip, ?s3)"
    using q1 assms(4) by (simp add: sync_iteration_def sync_confirmed_def)
  have "process_queues ?s3 = (False, ?s3)" using assms(7) by (simp add: process_queues_def)
  then have i2: "sync_iteration E tip ?s3 = (Break, ?s3)"
    using assms(4) by (simp add: sync_iteration_def)
  have "sync_loop E 2 tip ?s1 = Some (Ok (), ?s3)"
    by (simp only: numeral_2_eq_2 sync_loop.simps i1 i2 prod.case Flow.case)
  then have "sync E 2 s = Some (Ok (), ?s3)" by (simp add: sync_def a)
  then show ?thesis by (auto simp: news_def)
qed

section \<open>Reorganisations\<close>







section \<open>Fee estimates\<close>

datatype ConfirmationTarget = Background | Normal | HighPriority

fun num_blocks_from_conf_target :: "ConfirmationTarget \<Rightarrow> nat" where
  "num_blocks_from_conf_target Background = 12"
| "num_blocks_from_conf_target Normal = 6"
| "num_blocks_from_conf_target HighPriority = 3"

text \<open>
  \<open>fee_wu_1000\<close>: the fee of a thousand weight units at a rate in sat/vB, computed by \<open>bdk\<close>'s
  \<open>FeeRate\<close> from the \<open>f64\<close> of the cache; the cast to \<open>u32\<close> drops the high bits.
  \<open>FEERATE_FLOOR\<close> is LDK's \<open>FEERATE_FLOOR_SATS_PER_KW\<close> (documented as 253).
\<close>

fun fallback_fee_from_conf_target :: "u32 \<Rightarrow> ConfirmationTarget \<Rightarrow> u32" where
  "fallback_fee_from_conf_target FEERATE_FLOOR Background = FEERATE_FLOOR"
| "fallback_fee_from_conf_target FEERATE_FLOOR Normal = 2000"
| "fallback_fee_from_conf_target FEERATE_FLOOR HighPriority = 5000"

definition get_est_sat_per_1000_weight ::
  "'x web_scheme \<Rightarrow> u32 \<Rightarrow> (f64 \<Rightarrow> u64) \<Rightarrow> ConfirmationTarget \<Rightarrow> browser \<Rightarrow> u32" where
  "get_est_sat_per_1000_weight W FEERATE_FLOOR fee_wu_1000 target b =
     (let num_blocks = num_blocks_from_conf_target target;
          fallback_fee = fallback_fee_from_conf_target FEERATE_FLOOR target
      in case get_fee_estimates W b of
           Ok estimates \<Rightarrow>
             (case map_of estimates (nat_to_string num_blocks) of
                Some num \<Rightarrow> max (ucast (fee_wu_1000 num)) FEERATE_FLOOR
              | None \<Rightarrow> fallback_fee)
         | _ \<Rightarrow> fallback_fee)"

text \<open>
  After estimates were cached, a fee is the cached rate of the target's block count, or the
  target's fallback where the cache has none; whatever the cache holds, also when it cannot be
  read, no fee is below the floor (as long as the floor is no more than the smallest fallback).
\<close>

theorem fee_estimate_from_cache:
  assumes "web_ok W" "insert_fee_estimates W est b = (Ok (), b')" "flr \<le> 2000"
  shows "get_est_sat_per_1000_weight W flr f target b' =
      (case map_of est (nat_to_string (num_blocks_from_conf_target target)) of
         Some num \<Rightarrow> max (ucast (f num)) flr | None \<Rightarrow> fallback_fee_from_conf_target flr target) \<and>
    flr \<le> get_est_sat_per_1000_weight W flr f target b2"
proof -
  have "(2000 :: u32) \<le> 5000" by simp
  with assms(3) have "flr \<le> fallback_fee_from_conf_target flr target"
    by (cases target) (auto intro: order_trans)
  then have "flr \<le> get_est_sat_per_1000_weight W flr f target b2"
    by (simp add: get_est_sat_per_1000_weight_def Let_def split: result.split option.split)
  moreover have "get_fee_estimates W b' = Ok est"
    using insert_fee_estimates_get [OF assms(1,2)] by simp
  ultimately show ?thesis
    by (simp add: get_est_sat_per_1000_weight_def Let_def)
qed

section \<open>A concrete client\<close>

text \<open>
  A client for the witnesses: one block, at height 7, holding one transaction; one confirmable,
  that finds that transaction relevant and registers nothing.
\<close>

definition demo_tip :: BlockHash where "demo_tip = BlockHash [1]"

definition demo_client :: esplora where
  "demo_client = \<lparr>
     get_tip_hash = (\<lambda>_. Some demo_tip),
     get_header_by_hash = (\<lambda>_ _. Some (BlockHeader [9])),
     get_block_status = (\<lambda>_ h. Some \<lparr>in_best_chain = (h = demo_tip), bs_height = Some 7\<rparr>),
     get_merkle_proof = (\<lambda>_ t. Some (if t = Txid [2, 0] then Some \<lparr>mp_height = 7, mp_pos = 0\<rparr> else None)),
     get_block_hash = (\<lambda>_ _. Some demo_tip),
     fetch_tx = (\<lambda>_ t. Some (if t = Txid [2, 0] then Some demo_tx else None)),
     get_output_status = (\<lambda>_ _ _. Some None),
     arrivals = (\<lambda>_. []), compute_txid = txid_of demo_bdk, confirmables = 1,
     relevant_txids = (\<lambda>_ _. [(Txid [2, 0], Some (BlockHash [5]))]),
     registrations = (\<lambda>_. []),
     txid_order = (\<lambda>xs. xs), output_order = (\<lambda>xs. xs), relevant_order = (\<lambda>xs. xs)\<rparr>"

definition demo_chain :: MutinyChain where
  "demo_chain = register_tx (Txid [2, 0]) chain_new"

lemma demo_client_orders: "orders_ok demo_client"
  by (simp add: orders_ok_def demo_client_def)

lemma demo_client_steady: "steady demo_client demo_tip"
  by (simp add: steady_def demo_client_def)

lemma demo_client_silent:
  "\<forall>n. arrivals demo_client n = []" "\<forall>log. N < length log \<longrightarrow> registrations demo_client log = []"
  by (simp_all add: demo_client_def)

lemma sync_terminates_witness: "\<exists>s'. sync demo_client 3 demo_chain = Some (Ok (), s')"
  using sync_terminates [OF demo_client_orders demo_client_steady demo_client_silent, of 0 demo_chain]
  by (simp add: demo_chain_def chain_new_def register_tx_def)

lemma demo_tracked: "tracked_txs demo_chain = {Txid [2, 0]}"
  by (simp add: tracked_txs_def demo_chain_def chain_new_def register_tx_def)

lemma demo_sync:
  obtains s' where "sync demo_client 3 demo_chain = Some (Ok (), s')"
proof -
  obtain tip s1 where a: "ask demo_client (get_tip_hash demo_client) demo_chain = (Ok tip, s1)" "tip = demo_tip"
      "length (delivered s1) = 0"
    by (auto simp: demo_client_def ask_def Let_def demo_chain_def chain_new_def register_tx_def)
  have "\<exists>s'. sync_loop demo_client (Suc 2) tip s1 = Some (Ok (), s')"
  proof (cases "last_sync_hash s1 = Some demo_tip")
    case True
    then show ?thesis
      using steady_loop_returns [OF demo_client_orders demo_client_steady demo_client_silent True, of 0 3] a by simp
  next
    case False
    with steady_round [OF demo_client_orders demo_client_steady] obtain s2 where
      i: "sync_iteration demo_client demo_tip s1 = (Continue demo_tip, s2)" "last_sync_hash s2 = Some demo_tip"
      by blast
    from steady_loop_returns [OF demo_client_orders demo_client_steady demo_client_silent i(2), of 0 2]
    obtain s' where "sync_loop demo_client 2 demo_tip s2 = Some (Ok (), s')" by auto
    with i(1) a(2) show ?thesis by (simp only: sync_loop.simps prod.case Flow.case) blast
  qed
  then show ?thesis using that a by (auto simp: sync_def numeral_3_eq_3 numeral_2_eq_2)
qed


lemma sync_Ok_is_synced_witness:
  "\<exists>s'. sync demo_client 3 demo_chain = Some (Ok (), s') \<and> last_sync_hash s' = Some demo_tip"
proof -
  obtain s' where s': "sync demo_client 3 demo_chain = Some (Ok (), s')" by (rule demo_sync)
  from sync_Ok_is_synced [OF s'] s' show ?thesis by (auto simp: demo_client_def)
qed

lemma sync_only_fails_with_chain_access_witness:
  "\<exists>r s'. sync demo_client 3 demo_chain = Some (r, s') \<and> (r = Ok () \<or> r = Err ChainAccessFailed)"
proof -
  obtain s' where s': "sync demo_client 3 demo_chain = Some (Ok (), s')" by (rule demo_sync)
  from sync_only_fails_with_chain_access [OF s'] s' show ?thesis by blast
qed

lemma confirmations_in_chain_order_witness:
  "\<exists>s'. get_confirmed_transactions demo_client
       (chain_new\<lparr>watched_transactions := [Txid [2, 0]]\<rparr>) =
     (Ok ([\<lparr>ct_tx = demo_tx, ct_header = BlockHeader [9], ct_height = 7, ct_pos = 0\<rparr>], []), s') \<and>
     sorted (map (\<lambda>c. (ct_height c, ct_pos c))
       [\<lparr>ct_tx = demo_tx, ct_header = BlockHeader [9], ct_height = 7, ct_pos = 0\<rparr>])"
proof -
  obtain s' where s': "get_confirmed_transactions demo_client
       (chain_new\<lparr>watched_transactions := [Txid [2, 0]]\<rparr>) =
     (Ok ([\<lparr>ct_tx = demo_tx, ct_header = BlockHeader [9], ct_height = 7, ct_pos = 0\<rparr>], []), s')"
    by (simp add: get_confirmed_transactions_def get_confirmed_tx_def pbind_def ask_def Let_def
        demo_client_def chain_new_def)
  from confirmations_in_chain_order [OF s'] s' show ?thesis by blast
qed

lemma sync_spins_on_permanent_failure_witness:
  "sync (demo_client\<lparr>get_merkle_proof := (\<lambda>_ _. None)\<rparr>) 1000 demo_chain = None"
  by (rule sync_spins_on_permanent_failure [where tip = demo_tip])
    (simp_all add: orders_ok_def demo_client_def demo_tracked, simp add: demo_chain_def chain_new_def register_tx_def)

lemma sync_skips_registration_witness:
  "\<exists>s'. sync (demo_client\<lparr>get_merkle_proof := (\<lambda>n t. if n = 1 then None else get_merkle_proof demo_client n t)\<rparr>) 2
     (demo_chain\<lparr>last_sync_hash := Some demo_tip\<rparr>) = Some (Ok (), s') \<and> watched_transactions s' = [Txid [2, 0]]"
  using sync_skips_registration [of
      "demo_client\<lparr>get_merkle_proof := (\<lambda>n t. if n = 1 then None else get_merkle_proof demo_client n t)\<rparr>"
      "demo_chain\<lparr>last_sync_hash := Some demo_tip\<rparr>" demo_tip "Txid [2, 0]"]
  by (simp add: orders_ok_def demo_client_def demo_chain_def chain_new_def register_tx_def List.insert_def)
    blast


lemma fee_estimate_from_cache_witness:
  "\<exists>b'. insert_fee_estimates demo_web [(''6'', 0x4014000000000000)] demo_browser = (Ok (), b') \<and>
     get_est_sat_per_1000_weight demo_web 253 (\<lambda>_. 1250) Normal b' = 1250"
proof -
  obtain b' where b': "insert_fee_estimates demo_web [(''6'', 0x4014000000000000)] demo_browser = (Ok (), b')"
    by (simp add: insert_fee_estimates_def pmap_err_def ls_set_def demo_web_def list_codec_def)
  have "nat_to_string 6 = ''6''" by code_simp
  with fee_estimate_from_cache [OF demo_web_ok b', of 253 "\<lambda>_. 1250" Normal] b' show ?thesis by simp
qed

end
