(* ===== verification/Payments.thy ===== *)
theory Payments
  imports LdkStorage ChainSync
begin

text \<open>
  Sending and receiving on a node: the event handler of \<open>node-manager/src/event.rs\<close> and the
  payment operations of \<open>node-manager/src/node.rs\<close>, over the node's stored payments. LDK, the
  on-chain wallet and the clock are parameters; an answer of LDK or of the wallet may depend on
  all that was asked of them before (the log \<open>did\<close>). Arithmetic on amounts wraps, as in the
  release build. Log output is left out.
\<close>

section \<open>State and surroundings\<close>

datatype Network = NetBitcoin | NetTestnet | NetRegtest | NetSignet

fun currency_from_network :: "Network \<Rightarrow> Currency" where
  "currency_from_network NetBitcoin = Bitcoin"
| "currency_from_network NetTestnet = BitcoinTestnet"
| "currency_from_network NetSignet = Signet"
| "currency_from_network NetRegtest = Regtest"

text \<open>What the node asks of LDK, of the wallet and of the network.\<close>

datatype Effect =
    FundingTransactionGenerated bytes PublicKey Transaction
  | CreateSignedPsbt string u64
  | ClaimFunds bytes
  | ProcessPendingHtlcForwards
  | Sleep "32 word"
  | GetInternalAddress
  | SpendSpendableOutputs "bytes list" Script u32
  | Broadcast Transaction
  | PayInvoice Invoice
  | PayZeroValueInvoice Invoice u64
  | PayPubkey PublicKey bytes u64 u32
  | GetRandom
  | CreateChannel PublicKey u64
  | CloseChannel bytes PublicKey

record node_state =
  store :: browser
  did :: "Effect list"
  clock_reads :: nat

type_synonym 'a node_prog = "(node_state, 'a, MutinyError) prog"

record pay_env = ldk_env +
  now :: "nat \<Rightarrow> u64"
  keys :: keys_manager
  direct_invoice :: "u64 option \<Rightarrow> string \<Rightarrow> u64 \<Rightarrow> u32 \<Rightarrow> Currency \<Rightarrow> Invoice option"
  invoice_to_string :: "Invoice \<Rightarrow> string"
  invoice_from_str :: "string \<Rightarrow> Invoice option"
  would_expire :: "Invoice \<Rightarrow> u64 \<Rightarrow> bool"
  sha256 :: "bytes \<Rightarrow> bytes"
  succeeded :: "Effect list \<Rightarrow> bool"
  entropy_of :: "Effect list \<Rightarrow> bytes option"
  psbt_of :: "Effect list \<Rightarrow> Transaction option"
  channel_of :: "Effect list \<Rightarrow> bytes option"
  address_of :: "Effect list \<Rightarrow> Script option"
  spending_of :: "Effect list \<Rightarrow> Transaction option"
  segwit_address :: "Network \<Rightarrow> Script \<Rightarrow> string option"
  feerate_floor :: u32
  fee_wu_1000 :: "f64 \<Rightarrow> u64"

definition on_store :: "(browser, 'a, MutinyError) prog \<Rightarrow> 'a node_prog" where
  "on_store m s = (let (r, b) = m (store s) in (r, s\<lparr>store := b\<rparr>))"

definition read_clock :: "'x pay_env_scheme \<Rightarrow> u64 node_prog" where
  "read_clock E s = (Ok (now E (clock_reads s)), s\<lparr>clock_reads := Suc (clock_reads s)\<rparr>)"

text \<open>A call of LDK or the wallet: it is logged, and its answer read off the log.\<close>

definition call :: "Effect \<Rightarrow> (Effect list \<Rightarrow> 'a) \<Rightarrow> 'a node_prog" where
  "call e answer s = (let log = did s @ [e] in (Ok (answer log), s\<lparr>did := log\<rparr>))"

text \<open>\<open>.expect(..)\<close>\<close>

definition expect :: "'a option \<Rightarrow> 'a node_prog" where
  "expect v s = (case v of Some x \<Rightarrow> (Ok x, s) | None \<Rightarrow> (Panic, s))"

text \<open>\<open>match .. \{ Ok(_) => (), Err(e) => log \}\<close>\<close>

definition ignore_err :: "unit node_prog \<Rightarrow> unit node_prog" where
  "ignore_err m s = (case m s of (Err e, s') \<Rightarrow> (Ok (), s') | r \<Rightarrow> r)"

definition persist_payment ::
  "'x pay_env_scheme \<Rightarrow> MutinyNodePersister \<Rightarrow> PaymentHash \<Rightarrow> PaymentInfo \<Rightarrow> bool \<Rightarrow> unit node_prog" where
  "persist_payment E p h info inbound =
     on_store (pmap_err mutiny_of_io (persist_payment_info E p h info inbound))"

definition read_payment ::
  "'x pay_env_scheme \<Rightarrow> MutinyNodePersister \<Rightarrow> PaymentHash \<Rightarrow> bool \<Rightarrow> PaymentInfo option node_prog" where
  "read_payment E p h inbound = on_store (pread (read_payment_info E p h inbound))"

section \<open>Events\<close>

datatype PaymentPurpose =
    InvoicePayment "bytes option" bytes
  | SpontaneousPayment bytes

datatype Event =
    FundingGenerationReady bytes PublicKey u64 Script
  | PaymentClaimable PaymentHash PaymentPurpose u64
  | PaymentClaimed PaymentHash PaymentPurpose u64
  | PaymentSent bytes PaymentHash "u64 option"
  | OpenChannelRequest
  | PaymentPathSuccessful
  | PaymentPathFailed
  | ProbeSuccessful
  | ProbeFailed
  | PaymentFailed PaymentHash
  | PaymentForwarded
  | HTLCHandlingFailed
  | PendingHTLCsForwardable u64
  | SpendableOutputs "bytes list"
  | ChannelClosed bytes
  | DiscardFunding
  | ChannelReady bytes PublicKey
  | HTLCIntercepted

definition on_funding_generation_ready ::
  "'x pay_env_scheme \<Rightarrow> Network \<Rightarrow> bytes \<Rightarrow> PublicKey \<Rightarrow> u64 \<Rightarrow> Script \<Rightarrow> unit node_prog" where
  "on_funding_generation_ready E network temporary_channel_id counterparty value output_script =
     pbind (expect (segwit_address E network output_script)) (\<lambda>address.
     pbind (call (CreateSignedPsbt address value) (psbt_of E)) (\<lambda>psbt.
     case psbt of
       None \<Rightarrow> preturn ()
     | Some tx \<Rightarrow>
         pbind (call (FundingTransactionGenerated temporary_channel_id counterparty tx) (succeeded E)) (\<lambda>_.
         preturn ())))"

fun purpose_preimage :: "PaymentPurpose \<Rightarrow> bytes option" where
  "purpose_preimage (InvoicePayment payment_preimage _) = payment_preimage"
| "purpose_preimage (SpontaneousPayment payment_preimage) = Some payment_preimage"

fun purpose_secret :: "PaymentPurpose \<Rightarrow> bytes option" where
  "purpose_secret (InvoicePayment _ payment_secret) = Some payment_secret"
| "purpose_secret (SpontaneousPayment _) = None"

definition on_payment_claimable :: "PaymentPurpose \<Rightarrow> unit node_prog" where
  "on_payment_claimable purpose =
     (case purpose_preimage purpose of
        Some payment_preimage \<Rightarrow> call (ClaimFunds payment_preimage) (\<lambda>_. ())
      | None \<Rightarrow> preturn ())"

definition on_payment_claimed ::
  "'x pay_env_scheme \<Rightarrow> MutinyNodePersister \<Rightarrow> PaymentHash \<Rightarrow> PaymentPurpose \<Rightarrow> u64 \<Rightarrow> unit node_prog" where
  "on_payment_claimed E p payment_hash purpose amount_msat =
     pbind (read_payment E p payment_hash True) (\<lambda>saved.
     pbind (read_clock E) (\<lambda>last_upd.
     case saved of
       Some saved_payment_info \<Rightarrow>
         ignore_err (persist_payment E p payment_hash
           (saved_payment_info\<lparr>status := Succeeded, preimage := purpose_preimage purpose,
              secret := purpose_secret purpose, amt_msat := MillisatAmount (Some amount_msat),
              last_update := last_upd\<rparr>) True)
     | None \<Rightarrow>
         ignore_err (persist_payment E p payment_hash
           \<lparr>preimage = purpose_preimage purpose, secret = purpose_secret purpose, status = Succeeded,
            amt_msat = MillisatAmount (Some amount_msat), fee_paid_msat = None, bolt11 = None,
            last_update = last_upd\<rparr> True)))"

definition on_payment_sent ::
  "'x pay_env_scheme \<Rightarrow> MutinyNodePersister \<Rightarrow> bytes \<Rightarrow> PaymentHash \<Rightarrow> u64 option \<Rightarrow> unit node_prog" where
  "on_payment_sent E p payment_preimage payment_hash fee_paid =
     pbind (read_payment E p payment_hash False) (\<lambda>saved.
     case saved of
       Some saved_payment_info \<Rightarrow>
         pbind (read_clock E) (\<lambda>last_upd.
         ignore_err (persist_payment E p payment_hash
           (saved_payment_info\<lparr>status := Succeeded, preimage := Some payment_preimage,
              fee_paid_msat := fee_paid, last_update := last_upd\<rparr>) False))
     | None \<Rightarrow> preturn ())"

definition on_payment_failed :: "'x pay_env_scheme \<Rightarrow> MutinyNodePersister \<Rightarrow> PaymentHash \<Rightarrow> unit node_prog" where
  "on_payment_failed E p payment_hash =
     pbind (read_payment E p payment_hash False) (\<lambda>saved.
     case saved of
       Some saved_payment_info \<Rightarrow>
         pbind (read_clock E) (\<lambda>last_upd.
         ignore_err (persist_payment E p payment_hash
           (saved_payment_info\<lparr>status := Failed, last_update := last_upd\<rparr>) False))
     | None \<Rightarrow> preturn ())"

text \<open>\<open>as_millis() as i32\<close> keeps the low 32 bits.\<close>

definition on_pending_htlcs_forwardable :: "u64 \<Rightarrow> unit node_prog" where
  "on_pending_htlcs_forwardable millis =
     pbind (call (Sleep (ucast millis)) (\<lambda>_. ())) (\<lambda>_.
     call ProcessPendingHtlcForwards (\<lambda>_. ()))"

definition on_spendable_outputs :: "'x pay_env_scheme \<Rightarrow> bytes list \<Rightarrow> unit node_prog" where
  "on_spendable_outputs E outputs =
     pbind (call GetInternalAddress (address_of E)) (\<lambda>addr.
     pbind (expect addr) (\<lambda>destination.
     pbind (pread (\<lambda>s. Ok (get_est_sat_per_1000_weight E (feerate_floor E) (fee_wu_1000 E) Normal (store s)))) (\<lambda>tx_feerate.
     pbind (call (SpendSpendableOutputs outputs destination tx_feerate) (spending_of E)) (\<lambda>spending.
     pbind (expect spending) (\<lambda>spending_tx.
     pbind (call (Broadcast spending_tx) (succeeded E)) (\<lambda>ok.
     expect (if ok then Some () else None)))))))"

fun handle_event ::
  "'x pay_env_scheme \<Rightarrow> MutinyNodePersister \<Rightarrow> Network \<Rightarrow> Event \<Rightarrow> unit node_prog" where
  "handle_event E p net (FundingGenerationReady chan peer value script) =
     on_funding_generation_ready E net chan peer value script"
| "handle_event E p net (PaymentClaimable _ purpose _) = on_payment_claimable purpose"
| "handle_event E p net (PaymentClaimed hash purpose amount) = on_payment_claimed E p hash purpose amount"
| "handle_event E p net (PaymentSent pre hash fee) = on_payment_sent E p pre hash fee"
| "handle_event E p net (PaymentFailed hash) = on_payment_failed E p hash"
| "handle_event E p net (PendingHTLCsForwardable millis) = on_pending_htlcs_forwardable millis"
| "handle_event E p net (SpendableOutputs outputs) = on_spendable_outputs E outputs"
| "handle_event E p net _ = preturn ()"

section \<open>Invoices as the wallet shows them\<close>

record MutinyInvoice =
  mi_bolt11 :: "string option"
  mi_description :: "string option"
  mi_payment_hash :: string
  mi_preimage :: "string option"
  mi_payee_pubkey :: "string option"
  mi_amount_sats :: "u64 option"
  mi_expire :: u64
  mi_paid :: bool
  mi_fees_paid :: "u64 option"
  mi_is_send :: bool

fun hash_hex :: "'x ldk_env_scheme \<Rightarrow> PaymentHash \<Rightarrow> string" where
  "hash_hex E (PaymentHash h) = to_hex E h"

definition mutiny_of_invoice :: "'x pay_env_scheme \<Rightarrow> Invoice \<Rightarrow> MutinyInvoice" where
  "mutiny_of_invoice E value =
     (let f = inv_fields value in
      \<lparr>mi_bolt11 = Some (invoice_to_string E value),
       mi_description = (case inv_description f of Direct a \<Rightarrow> Some a | DescriptionHash _ \<Rightarrow> None),
       mi_payment_hash = hash_hex E (inv_payment_hash f),
       mi_preimage = None,
       mi_payee_pubkey = map_option (pubkey_to_string E) (inv_payee f),
       mi_amount_sats = map_option (\<lambda>m. m div 1000) (inv_amount_msat f),
       mi_expire = inv_timestamp f + inv_expiry_secs f,
       mi_paid = False, mi_fees_paid = None, mi_is_send = False\<rparr>)"

section \<open>Operations of a node\<close>

text \<open>\<open>s * 1_000\<close> wraps.\<close>

definition sats_to_msats :: "u64 \<Rightarrow> u64" where
  "sats_to_msats s = s * 1000"

fun secret_bytes :: "PaymentSecret \<Rightarrow> bytes" where
  "secret_bytes (PaymentSecret s) = s"

definition create_invoice ::
  "'x pay_env_scheme \<Rightarrow> MutinyNodePersister \<Rightarrow> Network \<Rightarrow> u64 option \<Rightarrow> string \<Rightarrow>
   PhantomRouteHints list option \<Rightarrow> Invoice node_prog" where
  "create_invoice E p net amount_sat description route_hints =
     (let amount_msat = map_option sats_to_msats amount_sat in
      pbind (case route_hints of
               None \<Rightarrow>
                 pbind (read_clock E) (\<lambda>t.
                 case direct_invoice E amount_msat description t 1500 (currency_from_network net) of
                   Some i \<Rightarrow> preturn i
                 | None \<Rightarrow> perr InvoiceCreationFailed)
             | Some r \<Rightarrow>
                 pbind (read_clock E) (\<lambda>t.
                 pread (\<lambda>_. map_err (\<lambda>_. InvoiceCreationFailed)
                   (create_phantom_invoice ((keys E)\<lparr>now_secs := t\<rparr>) amount_msat None description 1500 r
                      (currency_from_network net))))) (\<lambda>invoice.
      pbind (read_clock E) (\<lambda>last_upd.
      pbind (pmap_err (\<lambda>_. InvoiceCreationFailed)
               (persist_payment E p (inv_payment_hash (inv_fields invoice))
                 \<lparr>preimage = None, secret = Some (secret_bytes (inv_payment_secret (inv_fields invoice))),
                  status = Pending, amt_msat = MillisatAmount amount_msat, fee_paid_msat = None,
                  bolt11 = Some (invoice_to_string E invoice), last_update = last_upd\<rparr> True)) (\<lambda>_.
      preturn invoice))))"

definition get_payment_info_from_persisters ::
  "'x pay_env_scheme \<Rightarrow> MutinyNodePersister \<Rightarrow> PaymentHash \<Rightarrow> (PaymentInfo \<times> bool) node_prog" where
  "get_payment_info_from_persisters E p payment_hash =
     pbind (read_payment E p payment_hash True) (\<lambda>inbound.
     case inbound of
       Some payment_info \<Rightarrow> preturn (payment_info, True)
     | None \<Rightarrow>
         pbind (read_payment E p payment_hash False) (\<lambda>outbound.
         case outbound of
           Some payment_info \<Rightarrow> preturn (payment_info, False)
         | None \<Rightarrow> perr InvoiceInvalid))"

definition get_invoice ::
  "'x pay_env_scheme \<Rightarrow> MutinyNodePersister \<Rightarrow> Invoice \<Rightarrow> MutinyInvoice node_prog" where
  "get_invoice E p invoice =
     pbind (get_payment_info_from_persisters E p (inv_payment_hash (inv_fields invoice))) (\<lambda>(payment_info, inbound).
     preturn ((mutiny_of_invoice E invoice)
       \<lparr>mi_is_send := \<not> inbound, mi_paid := (status payment_info = Succeeded)\<rparr>))"

fun stored_amount :: "MillisatAmount \<Rightarrow> u64 option" where
  "stored_amount (MillisatAmount a) = map_option (\<lambda>m. m div 1000) a"

text \<open>One entry of the payment list; \<open>None\<close> leaves it out.\<close>

definition listed_invoice ::
  "'x pay_env_scheme \<Rightarrow> bool \<Rightarrow> u64 \<Rightarrow> string \<times> PaymentInfo \<Rightarrow> MutinyInvoice option" where
  "listed_invoice E inbound t = (\<lambda>(h, i).
     case bolt11 i of
       Some b11 \<Rightarrow>
         (case invoice_from_str E b11 of
            None \<Rightarrow> None
          | Some invoice \<Rightarrow>
              if would_expire E invoice t \<and> \<not> (status i = Succeeded \<or> status i = InFlight) then None
              else Some ((mutiny_of_invoice E invoice)
                \<lparr>mi_is_send := \<not> inbound, mi_paid := (status i = Succeeded),
                 mi_amount_sats :=
                   (case inv_amount_msat (inv_fields invoice) of
                      Some inv_amt \<Rightarrow> if inv_amt = 0 then stored_amount (amt_msat i) else Some (inv_amt div 1000)
                    | None \<Rightarrow> stored_amount (amt_msat i))\<rparr>))
     | None \<Rightarrow>
         Some \<lparr>mi_bolt11 = None, mi_description = None, mi_payment_hash = h,
           mi_preimage = map_option (to_hex E) (preimage i), mi_payee_pubkey = None,
           mi_amount_sats = stored_amount (amt_msat i), mi_expire = last_update i,
           mi_paid = (status i = Succeeded), mi_fees_paid = map_option (\<lambda>f. f div 1000) (fee_paid_msat i),
           mi_is_send = \<not> inbound\<rparr>)"

definition list_payment_info_from_persisters ::
  "'x pay_env_scheme \<Rightarrow> MutinyNodePersister \<Rightarrow> bool \<Rightarrow> MutinyInvoice list node_prog" where
  "list_payment_info_from_persisters E p inbound =
     pbind (read_clock E) (\<lambda>t.
     pbind (pread (\<lambda>s. of_option (list_payment_info E p inbound (store s)))) (\<lambda>entries.
     preturn (List.map_filter (listed_invoice E inbound t) entries)))"

definition list_invoices :: "'x pay_env_scheme \<Rightarrow> MutinyNodePersister \<Rightarrow> MutinyInvoice list node_prog" where
  "list_invoices E p =
     pbind (list_payment_info_from_persisters E p True) (\<lambda>inbound_invoices.
     pbind (list_payment_info_from_persisters E p False) (\<lambda>outbound_invoices.
     preturn (inbound_invoices @ outbound_invoices)))"

text \<open>The record of a payment being sent, and what follows the attempt.\<close>

definition outgoing :: "'x pay_env_scheme \<Rightarrow> Invoice \<Rightarrow> u64 \<Rightarrow> u64 \<Rightarrow> PaymentInfo" where
  "outgoing E invoice amount last_upd =
     \<lparr>preimage = None, secret = None, status = InFlight, amt_msat = MillisatAmount (Some amount),
      fee_paid_msat = None, bolt11 = Some (invoice_to_string E invoice), last_update = last_upd\<rparr>"

definition send_payment ::
  "'x pay_env_scheme \<Rightarrow> MutinyNodePersister \<Rightarrow> Invoice \<Rightarrow> Effect \<Rightarrow> u64 \<Rightarrow> MutinyInvoice node_prog" where
  "send_payment E p invoice attempt amount =
     pbind (call attempt (succeeded E)) (\<lambda>pay_ok.
     pbind (read_clock E) (\<lambda>last_upd.
     pbind (persist_payment E p (inv_payment_hash (inv_fields invoice)) (outgoing E invoice amount last_upd) False) (\<lambda>_.
     if pay_ok then preturn ((mutiny_of_invoice E invoice)\<lparr>mi_paid := False, mi_is_send := True\<rparr>)
     else
       pbind (persist_payment E p (inv_payment_hash (inv_fields invoice))
         ((outgoing E invoice amount last_upd)\<lparr>status := Failed\<rparr>) False) (\<lambda>_.
       perr RoutingFailed))))"

definition pay_invoice ::
  "'x pay_env_scheme \<Rightarrow> MutinyNodePersister \<Rightarrow> Invoice \<Rightarrow> u64 option \<Rightarrow> MutinyInvoice node_prog" where
  "pay_invoice E p invoice amt_sats =
     (case inv_amount_msat (inv_fields invoice) of
        None \<Rightarrow>
          (case amt_sats of
             None \<Rightarrow> perr InvoiceInvalid
           | Some a \<Rightarrow>
               send_payment E p invoice (PayZeroValueInvoice invoice (sats_to_msats a)) (sats_to_msats a))
      | Some m \<Rightarrow>
          if amt_sats \<noteq> None then perr InvoiceInvalid
          else send_payment E p invoice (PayInvoice invoice) m)"

definition keysend ::
  "'x pay_env_scheme \<Rightarrow> MutinyNodePersister \<Rightarrow> PublicKey \<Rightarrow> u64 \<Rightarrow> MutinyInvoice node_prog" where
  "keysend E p to_node amt_sats =
     pbind (call GetRandom (entropy_of E)) (\<lambda>entropy.
     case entropy of
       None \<Rightarrow> perr SeedGenerationFailed
     | Some pre \<Rightarrow>
         (let amt_msats = sats_to_msats amt_sats; payment_hash = PaymentHash (sha256 E pre) in
          pbind (call (PayPubkey to_node pre amt_msats 40) (succeeded E)) (\<lambda>pay_ok.
          pbind (read_clock E) (\<lambda>last_upd.
          let payment_info = \<lparr>preimage = Some pre, secret = None, status = InFlight,
                amt_msat = MillisatAmount (Some amt_msats), fee_paid_msat = None, bolt11 = None,
                last_update = last_upd\<rparr>
          in pbind (persist_payment E p payment_hash payment_info False) (\<lambda>_.
             if pay_ok then
               preturn \<lparr>mi_bolt11 = None, mi_description = None, mi_payment_hash = hash_hex E payment_hash,
                 mi_preimage = Some (to_hex E pre), mi_payee_pubkey = Some (pubkey_to_string E to_node),
                 mi_amount_sats = Some amt_sats, mi_expire = last_update payment_info, mi_paid = False,
                 mi_fees_paid = None, mi_is_send = True\<rparr>
             else
               pbind (persist_payment E p payment_hash (payment_info\<lparr>status := Failed\<rparr>) False) (\<lambda>_.
               perr RoutingFailed))))))"

definition open_channel :: "'x pay_env_scheme \<Rightarrow> PublicKey \<Rightarrow> u64 \<Rightarrow> bytes node_prog" where
  "open_channel E pubkey amount_sat =
     pbind (call (CreateChannel pubkey amount_sat) (channel_of E)) (\<lambda>res.
     case res of Some chan \<Rightarrow> preturn chan | None \<Rightarrow> perr ChannelCreationFailed)"

section \<open>The payments of a node as a map\<close>

text \<open>What the storage holds, abstractly: a record per hash and direction (\<open>True\<close>: inbound).\<close>

type_synonym payment_map = "PaymentHash \<times> bool \<Rightarrow> PaymentInfo option"

definition payments :: "'x ldk_env_scheme \<Rightarrow> MutinyNodePersister \<Rightarrow> browser \<Rightarrow> payment_map" where
  "payments E p b = (\<lambda>(h, i).
     case (read_payment_info E p h i b :: (PaymentInfo option, unit) result) of Ok r \<Rightarrow> r | _ \<Rightarrow> None)"

lemma read_payment_info_any:
  "(read_payment_info E p h i b :: (PaymentInfo option, 'e) result) = Ok r \<longleftrightarrow>
   (read_payment_info E p h i b :: (PaymentInfo option, 'f) result) = Ok r"
  by (cases "mbs_get E (json_payment E) (storage p) (get_key p (payment_key E i h)) b")
    (simp_all add: read_payment_info_def)

lemma payments_read:
  assumes "(read_payment_info E p h i b :: (PaymentInfo option, 'e) result) = Ok r"
  shows "payments E p b (h, i) = r"
  using assms read_payment_info_any [of E p h i b r, where 'e = 'e and 'f = unit] by (simp add: payments_def)

lemma payments_persist:
  assumes "ldk_ok E" "persist_payment_info E p h info i b = (Ok (), b')"
  shows "payments E p b' = (payments E p b)((h, i) \<mapsto> info)"
proof
  fix x :: "PaymentHash \<times> bool"
  obtain h' j where x: "x = (h', j)" by fastforce
  show "payments E p b' x = ((payments E p b)((h, i) \<mapsto> info)) x"
  proof (cases "x = (h, i)")
    case True
    have "(read_payment_info E p h i b' :: (PaymentInfo option, unit) result) = Ok (Some info)"
      by (rule read_after_persist [OF assms])
    with True show ?thesis by (simp add: payments_read)
  next
    case False
    then have "get_key p (payment_key E j h') \<noteq> get_key p (payment_key E i h)"
      using x by (auto simp: payment_key_inject [OF assms(1)])
    have "(read_payment_info E p h' j b' :: (PaymentInfo option, unit) result) = read_payment_info E p h' j b"
      by (rule read_unaffected [OF assms(2)]) fact
    then have "payments E p b' x = payments E p b x"
      using x by (simp add: payments_def)
    with False show ?thesis by simp
  qed
qed

lemma payments_cong:
  "raw_item b' = raw_item b \<Longrightarrow> payments E p b' = payments E p b"
  unfolding payments_def read_payment_info_def by (intro ext) (metis mbs_get_cong)

lemma payments_persist_fail:
  assumes "persist_payment_info E p h info i b = (r, b')" "r \<noteq> Ok ()"
  shows "payments E p b' = payments E p b"
proof -
  obtain r0 where s: "mbs_set E (json_payment E) (storage p) (get_key p (payment_key E i h)) info b = (r0, b')"
    and r: "r = map_err (\<lambda>_. IoError) r0"
    using persist_payment_info_cases [OF assms(1)] by blast
  from r assms(2) have "r0 \<noteq> Ok ()" by auto
  from mbs.put_fail [OF s this] show ?thesis by (rule payments_cong)
qed

text \<open>Whether the storage takes a record.\<close>

definition takes :: "'x ldk_env_scheme \<Rightarrow> MutinyNodePersister \<Rightarrow> browser \<Rightarrow> PaymentHash \<times> bool \<times> PaymentInfo \<Rightarrow> bool" where
  "takes E p b = (\<lambda>(h, i, info). fst (persist_payment_info E p h info i b) = Ok ())"

lemma persist_payment_map:
  assumes "ldk_ok E" "persist_payment E p h info i s = (r, s')"
  shows "payments E p (store s') =
      (if takes E p (store s) (h, i, info) then (payments E p (store s))((h, i) \<mapsto> info) else payments E p (store s))"
    and "r = Ok () \<longleftrightarrow> takes E p (store s) (h, i, info)"
    and "did s' = did s" "clock_reads s' = clock_reads s"
    and "\<forall>e. r = Err e \<longrightarrow> e = mutiny_of_io IoError"
proof -
  obtain q b' where q: "persist_payment_info E p h info i (store s) = (q, b')" by fastforce
  have r: "r = map_err mutiny_of_io q" and s': "s' = s\<lparr>store := b'\<rparr>"
    using assms(2) q by (auto simp: persist_payment_def on_store_def pmap_err_def)
  show "payments E p (store s') =
      (if takes E p (store s) (h, i, info) then (payments E p (store s))((h, i) \<mapsto> info) else payments E p (store s))"
    using payments_persist [OF assms(1), of p h info i "store s" b'] payments_persist_fail [OF q] q
    by (auto simp: s' takes_def simp del: persist_payment_info_iff)
  show "r = Ok () \<longleftrightarrow> takes E p (store s) (h, i, info)" by (simp add: r takes_def q)
  show "did s' = did s" "clock_reads s' = clock_reads s" by (simp_all add: s')
  show "\<forall>e. r = Err e \<longrightarrow> e = mutiny_of_io IoError" 
  proof -
    have "x = IoError" for x by (cases x) simp
    then show ?thesis using r by (cases q) (auto intro!: arg_cong [where f = mutiny_of_io])
  qed
qed

section \<open>What an event records\<close>

text \<open>The record an event calls for, given the time and the records so far.\<close>

fun recorded :: "u64 \<Rightarrow> payment_map \<Rightarrow> Event \<Rightarrow> (PaymentHash \<times> bool \<times> PaymentInfo) option" where
  "recorded t m (PaymentClaimed h purpose amount) =
     Some (h, True, (case m (h, True) of
        Some i \<Rightarrow> i\<lparr>status := Succeeded, preimage := purpose_preimage purpose, secret := purpose_secret purpose,
          amt_msat := MillisatAmount (Some amount), last_update := t\<rparr>
      | None \<Rightarrow> \<lparr>preimage = purpose_preimage purpose, secret = purpose_secret purpose, status = Succeeded,
          amt_msat = MillisatAmount (Some amount), fee_paid_msat = None, bolt11 = None, last_update = t\<rparr>))"
| "recorded t m (PaymentSent pre h fee) =
     map_option (\<lambda>i. (h, False, i\<lparr>status := Succeeded, preimage := Some pre, fee_paid_msat := fee, last_update := t\<rparr>))
       (m (h, False))"
| "recorded t m (PaymentFailed h) =
     map_option (\<lambda>i. (h, False, i\<lparr>status := Failed, last_update := t\<rparr>)) (m (h, False))"
| "recorded t m _ = None"

definition record_in :: "'x ldk_env_scheme \<Rightarrow> MutinyNodePersister \<Rightarrow> browser \<Rightarrow> (PaymentHash \<times> bool \<times> PaymentInfo) option \<Rightarrow> payment_map" where
  "record_in E p b rec =
     (case rec of
        Some (h, i, info) \<Rightarrow>
          if takes E p b (h, i, info) then (payments E p b)((h, i) \<mapsto> info) else payments E p b
      | None \<Rightarrow> payments E p b)"

lemma read_payment_cases:
  assumes "read_payment E p h i s = (r, s')"
  shows "s' = s \<and> (r = Panic \<or> r = Ok (payments E p (store s) (h, i)))"
proof -
  have "(read_payment_info E p h i (store s) :: (PaymentInfo option, MutinyError) result) \<noteq> Err e" for e
    by (simp add: read_payment_info_def)
  then show ?thesis
    using assms by (cases r) (auto simp: read_payment_def on_store_def dest: payments_read)
qed

lemma persist_recorded:
  assumes "ldk_ok E" "ignore_err (persist_payment E p h info i) s = (r, s')"
  shows "payments E p (store s') = record_in E p (store s) (Some (h, i, info))"
proof -
  obtain q u where q: "persist_payment E p h info i s = (q, u)" by fastforce
  have "s' = u" using assms(2) q by (auto simp: ignore_err_def split: result.splits)
  with persist_payment_map(1) [OF assms(1) q] show ?thesis by (simp add: record_in_def)
qed

lemma store_read_clock [simp]: "read_clock E s = (Ok t, s') \<longleftrightarrow> t = now E (clock_reads s) \<and> s' = s\<lparr>clock_reads := Suc (clock_reads s)\<rparr>"
  by (auto simp: read_clock_def)

lemma store_call [simp]: "store (snd (call e a s)) = store s"
  by (simp add: call_def Let_def)

interpretation same_store: run_preorder "\<lambda>s s'. store s' = store s"
  by standard auto

lemma store_expect [simp]: "store (snd (expect v s)) = store s"
  by (simp add: expect_def split: option.split)

lemma pbind_read_clock [simp]:
  "pbind (read_clock E) k s = k (now E (clock_reads s)) (s\<lparr>clock_reads := Suc (clock_reads s)\<rparr>)"
  by (simp add: pbind_def read_clock_def)

lemma on_store_none:
  "store (snd (on_funding_generation_ready E net c q v sc s)) = store s"
  "store (snd (on_payment_claimable pu s)) = store s"
  "store (snd (on_pending_htlcs_forwardable ms s)) = store s"
  "store (snd (on_spendable_outputs E outs s)) = store s"
  unfolding on_funding_generation_ready_def on_payment_claimable_def on_pending_htlcs_forwardable_def
    on_spendable_outputs_def
  by (auto intro!: same_store.run_pbind split: option.split)

lemma claimed_record:
  assumes "ldk_ok E" "on_payment_claimed E p h purpose amount s = (r, s')" "r \<noteq> Panic"
  shows "payments E p (store s') = record_in E p (store s)
    (recorded (now E (clock_reads s)) (payments E p (store s)) (PaymentClaimed h purpose amount))"
proof -
  obtain q u where q: "read_payment E p h True s = (q, u)" by fastforce
  from read_payment_cases [OF q] assms(2,3) q have ok: "q = Ok (payments E p (store s) (h, True))" "u = s"
    by (auto simp: on_payment_claimed_def pbind_def)
  show ?thesis
    using assms(2) q ok
    by (cases "payments E p (store s) (h, True)")
      (auto simp: on_payment_claimed_def pbind_def read_clock_def dest!: persist_recorded [OF assms(1)])
qed

lemma sent_record:
  assumes "ldk_ok E" "on_payment_sent E p pre h fee s = (r, s')" "r \<noteq> Panic"
  shows "payments E p (store s') = record_in E p (store s)
    (recorded (now E (clock_reads s)) (payments E p (store s)) (PaymentSent pre h fee))"
proof -
  obtain q u where q: "read_payment E p h False s = (q, u)" by fastforce
  from read_payment_cases [OF q] assms(2,3) q have ok: "q = Ok (payments E p (store s) (h, False))" "u = s"
    by (auto simp: on_payment_sent_def pbind_def)
  show ?thesis
    using assms(2) q ok
    by (cases "payments E p (store s) (h, False)")
      (auto simp: on_payment_sent_def pbind_def read_clock_def record_in_def dest!: persist_recorded [OF assms(1)])
qed

lemma failed_record:
  assumes "ldk_ok E" "on_payment_failed E p h s = (r, s')" "r \<noteq> Panic"
  shows "payments E p (store s') = record_in E p (store s)
    (recorded (now E (clock_reads s)) (payments E p (store s)) (PaymentFailed h))"
proof -
  obtain q u where q: "read_payment E p h False s = (q, u)" by fastforce
  from read_payment_cases [OF q] assms(2,3) q have ok: "q = Ok (payments E p (store s) (h, False))" "u = s"
    by (auto simp: on_payment_failed_def pbind_def)
  show ?thesis
    using assms(2) q ok
    by (cases "payments E p (store s) (h, False)")
      (auto simp: on_payment_failed_def pbind_def read_clock_def record_in_def dest!: persist_recorded [OF assms(1)])
qed

fun is_payment_outcome :: "Event \<Rightarrow> bool" where
  "is_payment_outcome (PaymentClaimed _ _ _) = True"
| "is_payment_outcome (PaymentSent _ _ _) = True"
| "is_payment_outcome (PaymentFailed _) = True"
| "is_payment_outcome _ = False"

lemma other_event_store:
  "\<not> is_payment_outcome ev \<Longrightarrow> store (snd (handle_event E p net ev s)) = store s"
  by (cases ev) (simp_all add: on_store_none)

lemma handle_event_record:
  assumes "ldk_ok E" "handle_event E p net ev s = (r, s')" "r \<noteq> Panic"
  shows "payments E p (store s') =
    record_in E p (store s) (recorded (now E (clock_reads s)) (payments E p (store s)) ev)"
proof (cases "is_payment_outcome ev")
  case True
  then show ?thesis
    using assms claimed_record sent_record failed_record by (cases ev) simp_all
next
  case False
  then show ?thesis
    using other_event_store [of ev E p net s] assms(2) by (cases ev) (simp_all add: record_in_def)
qed

text \<open>
  C3: handling an event implements the abstract step on the map of payments: it writes exactly
  the record the event calls for, when the storage takes it, and leaves every other record; an
  error of the storage does not fail the handler.
\<close>

theorem handle_event_refines:
  assumes "ldk_ok E" "handle_event E p net ev s = (r, s')" "r \<noteq> Panic"
  shows "payments E p (store s') =
    (case recorded (now E (clock_reads s)) (payments E p (store s)) ev of
       Some (h, i, info) \<Rightarrow>
         if takes E p (store s) (h, i, info) then (payments E p (store s))((h, i) \<mapsto> info)
         else payments E p (store s)
     | None \<Rightarrow> payments E p (store s))"
  using handle_event_record [OF assms] unfolding record_in_def .

end
