(* ===== verification/PaymentFlows.thy ===== *)
theory PaymentFlows
  imports Payments
begin

text \<open>
  What the operations of \<open>Payments\<close> leave in the map of payments, and the life of a payment
  across them: from the invoice, over the attempt and LDK's event, to what the wallet shows.
\<close>

section \<open>Sending\<close>

text \<open>The amount to pay: the invoice's, or the caller's for an invoice that names none.\<close>

fun agreed_amount :: "u64 option \<Rightarrow> u64 option \<Rightarrow> u64 option" where
  "agreed_amount (Some m) None = Some m"
| "agreed_amount None (Some sats) = Some (sats_to_msats sats)"
| "agreed_amount _ _ = None"

fun pay_attempt :: "Invoice \<Rightarrow> u64 option \<Rightarrow> Effect" where
  "pay_attempt invoice None = PayInvoice invoice"
| "pay_attempt invoice (Some sats) = PayZeroValueInvoice invoice (sats_to_msats sats)"

abbreviation invoice_hash :: "Invoice \<Rightarrow> PaymentHash" where
  "invoice_hash invoice \<equiv> inv_payment_hash (inv_fields invoice)"

lemma pay_invoice_cases:
  "pay_invoice E p invoice amt =
     (case agreed_amount (inv_amount_msat (inv_fields invoice)) amt of
        None \<Rightarrow> perr InvoiceInvalid
      | Some a \<Rightarrow> send_payment E p invoice (pay_attempt invoice amt) a)"
  by (cases amt; cases "inv_amount_msat (inv_fields invoice)") (simp_all add: pay_invoice_def)

lemma persist_state:
  assumes "ldk_ok E"
  obtains r u where "persist_payment E p h info i s = (r, u)" "did u = did s" "clock_reads u = clock_reads s"
    "payments E p (store u) = (if takes E p (store s) (h, i, info) then (payments E p (store s))((h, i) \<mapsto> info)
       else payments E p (store s))"
    "r = Ok () \<longleftrightarrow> takes E p (store s) (h, i, info)"
  using persist_payment_map [OF assms] by (metis surj_pair)

lemma send_payment_runs:
  assumes "ldk_ok E" "send_payment E p invoice attempt a s = (r, s')"
  defines "info \<equiv> outgoing E invoice a (now E (clock_reads s))"
  shows "did s' = did s @ [attempt]"
    and "\<not> takes E p (store s) (invoice_hash invoice, False, info) \<Longrightarrow>
      payments E p (store s') = payments E p (store s) \<and> (\<forall>mi. r \<noteq> Ok mi)"
    and "takes E p (store s) (invoice_hash invoice, False, info) \<Longrightarrow> succeeded E (did s @ [attempt]) \<Longrightarrow>
      payments E p (store s') = (payments E p (store s))((invoice_hash invoice, False) \<mapsto> info) \<and>
      r = Ok ((mutiny_of_invoice E invoice)\<lparr>mi_paid := False, mi_is_send := True\<rparr>) \<and>
      clock_reads s' = Suc (clock_reads s)"
    and "takes E p (store s) (invoice_hash invoice, False, info) \<Longrightarrow> \<not> succeeded E (did s @ [attempt]) \<Longrightarrow>
      (\<exists>i \<in> {info, info\<lparr>status := Failed\<rparr>}.
        payments E p (store s') = (payments E p (store s))((invoice_hash invoice, False) \<mapsto> i)) \<and> (\<forall>mi. r \<noteq> Ok mi)"
proof -
  let ?h = "invoice_hash invoice"
  let ?s1 = "s\<lparr>did := did s @ [attempt], clock_reads := Suc (clock_reads s)\<rparr>"
  obtain q u where q: "persist_payment E p ?h info False ?s1 = (q, u)" "did u = did s @ [attempt]"
      "clock_reads u = Suc (clock_reads s)"
      "payments E p (store u) = (if takes E p (store s) (?h, False, info)
         then (payments E p (store s))((?h, False) \<mapsto> info) else payments E p (store s))"
      "q = Ok () \<longleftrightarrow> takes E p (store s) (?h, False, info)"
    by (rule persist_state [OF assms(1), of p ?h info False ?s1]) simp
  obtain q2 u2 where q2: "persist_payment E p ?h (info\<lparr>status := Failed\<rparr>) False u = (q2, u2)" "did u2 = did u"
      "payments E p (store u2) = (if takes E p (store u) (?h, False, info\<lparr>status := Failed\<rparr>)
         then (payments E p (store u))((?h, False) \<mapsto> info\<lparr>status := Failed\<rparr>) else payments E p (store u))"
    by (rule persist_state [OF assms(1), of p ?h "info\<lparr>status := Failed\<rparr>" False u]) simp
  have run: "send_payment E p invoice attempt a s =
      (case q of
         Ok _ \<Rightarrow>
           if succeeded E (did s @ [attempt]) then
             (Ok ((mutiny_of_invoice E invoice)\<lparr>mi_paid := False, mi_is_send := True\<rparr>), u)
           else (case q2 of Ok _ \<Rightarrow> Err RoutingFailed | Err e \<Rightarrow> Err e | Panic \<Rightarrow> Panic, u2)
       | Err e \<Rightarrow> (Err e, u) | Panic \<Rightarrow> (Panic, u))"
    using q(1) q2(1)
    by (simp add: send_payment_def pbind_def call_def read_clock_def Let_def info_def split: result.split)
  note out = run [unfolded assms(2)] q(2-5) q2(2,3)
  show "did s' = did s @ [attempt]"
    using out by (auto split: result.splits if_splits)
  show "payments E p (store s') = payments E p (store s) \<and> (\<forall>mi. r \<noteq> Ok mi)"
    if "\<not> takes E p (store s) (?h, False, info)"
    using out that by (auto split: result.splits)
  show "payments E p (store s') = (payments E p (store s))((?h, False) \<mapsto> info) \<and>
      r = Ok ((mutiny_of_invoice E invoice)\<lparr>mi_paid := False, mi_is_send := True\<rparr>) \<and>
      clock_reads s' = Suc (clock_reads s)"
    if "takes E p (store s) (?h, False, info)" "succeeded E (did s @ [attempt])"
    using out that by auto
  show "(\<exists>i \<in> {info, info\<lparr>status := Failed\<rparr>}. payments E p (store s') = (payments E p (store s))((?h, False) \<mapsto> i)) \<and>
      (\<forall>mi. r \<noteq> Ok mi)"
    if "takes E p (store s) (?h, False, info)" "\<not> succeeded E (did s @ [attempt])"
    using out that by (auto split: result.splits)
qed


text \<open>
  C35: paying an invoice again forgets the payment made: whatever record there was of it, even a
  succeeded one with its preimage (the proof of payment), once the storage takes the new record
  the payment is in flight or failed and has no preimage, also when LDK refused the second
  payment.
\<close>

theorem paying_again_forgets_preimage:
  assumes "ldk_ok E" "pay_invoice E p invoice amt s = (r, s')"
    "agreed_amount (inv_amount_msat (inv_fields invoice)) amt = Some a"
    "takes E p (store s) (invoice_hash invoice, False, outgoing E invoice a (now E (clock_reads s)))"
  shows "\<exists>i. payments E p (store s') (invoice_hash invoice, False) = Some i \<and>
    preimage i = None \<and> status i \<noteq> Succeeded"
proof -
  from assms(2,3) have "send_payment E p invoice (pay_attempt invoice amt) a s = (r, s')"
    by (simp add: pay_invoice_cases)
  from send_payment_runs(3,4) [OF assms(1) this] assms(4) show ?thesis
    by (cases "succeeded E (did s @ [pay_attempt invoice amt])") (auto simp: outgoing_def)
qed

section \<open>From the attempt to the wallet's view\<close>

lemma get_invoice_shows:
  assumes "get_invoice E p invoice s = (r, s')" "r \<noteq> Panic"
  shows "r = (case payments E p (store s) (invoice_hash invoice, True) of
      Some i \<Rightarrow> Ok ((mutiny_of_invoice E invoice)\<lparr>mi_is_send := False, mi_paid := (status i = Succeeded)\<rparr>)
    | None \<Rightarrow>
       (case payments E p (store s) (invoice_hash invoice, False) of
          Some i \<Rightarrow> Ok ((mutiny_of_invoice E invoice)\<lparr>mi_is_send := True, mi_paid := (status i = Succeeded)\<rparr>)
        | None \<Rightarrow> Err InvoiceInvalid))"
proof -
  obtain q u where q: "read_payment E p (invoice_hash invoice) True s = (q, u)" by fastforce
  obtain q2 u2 where q2: "read_payment E p (invoice_hash invoice) False s = (q2, u2)" by fastforce
  show ?thesis
    using assms q q2 read_payment_cases [OF q] read_payment_cases [OF q2]
    by (auto simp: get_invoice_def get_payment_info_from_persisters_def pbind_def preturn_def perr_def
        split: option.splits)
qed

text \<open>
  C6: a payment that LDK reports as sent is shown as paid: after \<open>pay_invoice\<close> succeeded and the
  \<open>PaymentSent\<close> event for its hash was handled with the storage taking the record, the record
  holds the preimage and the fee, and \<open>get_invoice\<close> shows the invoice as sent and paid (when the
  node has no inbound record of the same hash, which \<open>get_invoice\<close> would prefer).
\<close>

theorem sent_payment_is_shown_paid:
  assumes "ldk_ok E" "pay_invoice E p invoice amt s = (Ok mi, s1)"
    "handle_event E p net (PaymentSent pre (invoice_hash invoice) fee) s1 = (r2, s2)" "r2 \<noteq> Panic"
    "agreed_amount (inv_amount_msat (inv_fields invoice)) amt = Some a"
    "takes E p (store s1) (invoice_hash invoice, False, (outgoing E invoice a (now E (clock_reads s)))
       \<lparr>status := Succeeded, preimage := Some pre, fee_paid_msat := fee, last_update := now E (clock_reads s1)\<rparr>)"
    "payments E p (store s) (invoice_hash invoice, True) = None"
    "get_invoice E p invoice s2 = (r3, s3)" "r3 \<noteq> Panic"
  shows "(\<exists>i. payments E p (store s2) (invoice_hash invoice, False) = Some i \<and>
      preimage i = Some pre \<and> fee_paid_msat i = fee \<and> amt_msat i = MillisatAmount (Some a) \<and>
      bolt11 i = Some (invoice_to_string E invoice)) \<and>
    r3 = Ok ((mutiny_of_invoice E invoice)\<lparr>mi_is_send := True, mi_paid := True\<rparr>)"
proof -
  let ?h = "invoice_hash invoice"
  from assms(2,5) have "send_payment E p invoice (pay_attempt invoice amt) a s = (Ok mi, s1)"
    by (simp add: pay_invoice_cases)
  from send_payment_runs(2-4) [OF assms(1) this]
  have s1: "payments E p (store s1) = (payments E p (store s))((?h, False) \<mapsto> outgoing E invoice a (now E (clock_reads s)))"
    by blast
  from assms(6) handle_event_record [OF assms(1,3,4), unfolded record_in_def]
  have s2: "payments E p (store s2) = (payments E p (store s))((?h, False) \<mapsto> (outgoing E invoice a (now E (clock_reads s)))
      \<lparr>status := Succeeded, preimage := Some pre, fee_paid_msat := fee, last_update := now E (clock_reads s1)\<rparr>)"
    by (simp add: s1)
  moreover have "r3 = Ok ((mutiny_of_invoice E invoice)\<lparr>mi_is_send := True, mi_paid := True\<rparr>)"
    using get_invoice_shows [OF assms(8,9)] s2 assms(7) by simp
  ultimately show ?thesis by (simp add: outgoing_def)
qed

text \<open>
  A payment whose record the storage refused is lost: LDK was asked to pay, the caller gets an
  error, and when the payment succeeds all the same the \<open>PaymentSent\<close> event leaves no record of it
  (the attempt is made before the record is stored).
\<close>

theorem unrecorded_payment_is_lost:
  assumes "ldk_ok E" "pay_invoice E p invoice amt s = (r, s1)"
    "agreed_amount (inv_amount_msat (inv_fields invoice)) amt = Some a"
    "\<not> takes E p (store s) (invoice_hash invoice, False, outgoing E invoice a (now E (clock_reads s)))"
    "payments E p (store s) (invoice_hash invoice, False) = None"
    "handle_event E p net (PaymentSent pre (invoice_hash invoice) fee) s1 = (r2, s2)" "r2 \<noteq> Panic"
  shows "pay_attempt invoice amt \<in> set (did s1) \<and> (\<forall>mi. r \<noteq> Ok mi) \<and>
    payments E p (store s2) = payments E p (store s)"
proof -
  from assms(2,3) have "send_payment E p invoice (pay_attempt invoice amt) a s = (r, s1)"
    by (simp add: pay_invoice_cases)
  note run = send_payment_runs(1,2) [OF assms(1) this]
  from run(2) [OF assms(4)] have s1: "payments E p (store s1) = payments E p (store s)" "\<forall>mi. r \<noteq> Ok mi" by auto
  with run(1) handle_event_record [OF assms(1,6,7), unfolded record_in_def] assms(5) show ?thesis by simp
qed

section \<open>Receiving\<close>

lemma create_invoice_records:
  assumes "ldk_ok E" "create_invoice E p net amt desc hints s = (r, s')"
  shows "case r of
      Ok invoice \<Rightarrow>
        payments E p (store s') = (payments E p (store s))((invoice_hash invoice, True) \<mapsto>
          \<lparr>preimage = None, secret = Some (secret_bytes (inv_payment_secret (inv_fields invoice))),
           status = Pending, amt_msat = MillisatAmount (map_option sats_to_msats amt), fee_paid_msat = None,
           bolt11 = Some (invoice_to_string E invoice), last_update = now E (Suc (clock_reads s))\<rparr>)
    | _ \<Rightarrow> payments E p (store s') = payments E p (store s)"
proof -
  let ?s1 = "s\<lparr>clock_reads := Suc (clock_reads s)\<rparr>"
  let ?made = "case hints of
      None \<Rightarrow> (case direct_invoice E (map_option sats_to_msats amt) desc (now E (clock_reads s)) 1500 (currency_from_network net) of
           Some i \<Rightarrow> Ok i | None \<Rightarrow> Err InvoiceCreationFailed)
    | Some r \<Rightarrow> map_err (\<lambda>_. InvoiceCreationFailed)
           (create_phantom_invoice ((keys E)\<lparr>now_secs := now E (clock_reads s)\<rparr>) (map_option sats_to_msats amt) None desc 1500 r
              (currency_from_network net))"
  let ?info = "\<lambda>i. \<lparr>preimage = None, secret = Some (secret_bytes (inv_payment_secret (inv_fields i))),
           status = Pending, amt_msat = MillisatAmount (map_option sats_to_msats amt), fee_paid_msat = None,
           bolt11 = Some (invoice_to_string E i), last_update = now E (Suc (clock_reads s))\<rparr>"
  have run: "create_invoice E p net amt desc hints s =
     (case ?made of
        Ok i \<Rightarrow> (case persist_payment E p (invoice_hash i) (?info i) True (?s1\<lparr>clock_reads := Suc (clock_reads ?s1)\<rparr>) of
            (Ok _, u) \<Rightarrow> (Ok i, u) | (Err _, u) \<Rightarrow> (Err InvoiceCreationFailed, u) | (Panic, u) \<Rightarrow> (Panic, u))
      | Err e \<Rightarrow> (Err e, ?s1) | Panic \<Rightarrow> (Panic, ?s1))"
    unfolding create_invoice_def Let_def
    by (cases hints) (auto simp: pbind_def preturn_def perr_def pread_def pmap_err_def read_clock_def
        split: option.splits result.splits prod.splits)
  show ?thesis
  proof (cases ?made)
    case (Ok i)
    obtain q u where "persist_payment E p (invoice_hash i) (?info i) True (?s1\<lparr>clock_reads := Suc (clock_reads ?s1)\<rparr>) = (q, u)"
        "payments E p (store u) = (if takes E p (store s) (invoice_hash i, True, ?info i)
           then (payments E p (store s))((invoice_hash i, True) \<mapsto> ?info i) else payments E p (store s))"
        "q = Ok () \<longleftrightarrow> takes E p (store s) (invoice_hash i, True, ?info i)"
      by (rule persist_state [OF assms(1), of p "invoice_hash i" "?info i" True "?s1\<lparr>clock_reads := Suc (clock_reads ?s1)\<rparr>"]) simp
    with run Ok assms(2) show ?thesis by (auto split: result.splits)
  qed (use run assms(2) in auto)
qed

text \<open>
  C7: creating an invoice records it as pending, inbound, under its hash, with the amount asked
  for in millisatoshis; when LDK then reports the payment claimed and the storage takes the
  record, the record holds what arrived and \<open>get_invoice\<close> shows the invoice as received and paid.
\<close>

theorem received_invoice_is_shown_paid:
  assumes "ldk_ok E" "create_invoice E p net amt desc hints s = (Ok invoice, s1)"
    "handle_event E p net (PaymentClaimed (invoice_hash invoice) purpose msat) s1 = (r2, s2)" "r2 \<noteq> Panic"
    "takes E p (store s1) (invoice_hash invoice, True,
       \<lparr>preimage = purpose_preimage purpose, secret = purpose_secret purpose, status = Succeeded,
        amt_msat = MillisatAmount (Some msat), fee_paid_msat = None,
        bolt11 = Some (invoice_to_string E invoice), last_update = now E (clock_reads s1)\<rparr>)"
    "get_invoice E p invoice s2 = (r3, s3)" "r3 \<noteq> Panic"
  shows "(\<exists>i. payments E p (store s1) (invoice_hash invoice, True) = Some i \<and> status i = Pending \<and>
      amt_msat i = MillisatAmount (map_option sats_to_msats amt)) \<and>
    (\<exists>i. payments E p (store s2) (invoice_hash invoice, True) = Some i \<and> status i = Succeeded \<and>
      amt_msat i = MillisatAmount (Some msat) \<and> preimage i = purpose_preimage purpose \<and>
      bolt11 i = Some (invoice_to_string E invoice)) \<and>
    r3 = Ok ((mutiny_of_invoice E invoice)\<lparr>mi_is_send := False, mi_paid := True\<rparr>)"
proof -
  let ?h = "invoice_hash invoice"
  from create_invoice_records [OF assms(1,2)]
  obtain i where s1: "payments E p (store s1) = (payments E p (store s))((?h, True) \<mapsto> i)" and
      i: "status i = Pending" "amt_msat i = MillisatAmount (map_option sats_to_msats amt)"
        "bolt11 i = Some (invoice_to_string E invoice)" "fee_paid_msat i = None" by auto
  then have "i\<lparr>status := Succeeded, preimage := purpose_preimage purpose,
      secret := purpose_secret purpose, amt_msat := MillisatAmount (Some msat), last_update := now E (clock_reads s1)\<rparr> =
      \<lparr>preimage = purpose_preimage purpose, secret = purpose_secret purpose, status = Succeeded,
        amt_msat = MillisatAmount (Some msat), fee_paid_msat = None,
        bolt11 = Some (invoice_to_string E invoice), last_update = now E (clock_reads s1)\<rparr>"
    by simp
  with assms(5) handle_event_record [OF assms(1,3,4), unfolded record_in_def]
  have s2: "payments E p (store s2) (?h, True) = Some \<lparr>preimage = purpose_preimage purpose,
      secret = purpose_secret purpose, status = Succeeded, amt_msat = MillisatAmount (Some msat),
      fee_paid_msat = None, bolt11 = Some (invoice_to_string E invoice), last_update = now E (clock_reads s1)\<rparr>"
    by (simp add: s1)
  with get_invoice_shows [OF assms(6,7)] s1 i show ?thesis by simp
qed

section \<open>The list of payments\<close>

lemma listed_of_read:
  assumes "ldk_ok E" "list_payment_info E p i b = Some l" "storage q = storage p"
    "payments E q b (h, i) = Some info"
  shows "(get_key q (payment_key E i h), info) \<in> set l"
proof -
  let ?k = "get_key q (payment_key E i h)"
  have read: "mbs_get E (json_payment E) (storage p) ?k b = Ok info"
    using assms(3,4) by (cases "mbs_get E (json_payment E) (storage q) ?k b")
      (auto simp: payments_def read_payment_info_def)
  then have "raw_item b ?k \<noteq> None"
    by (metis mbs.get_absent result.distinct(1))
  moreover have "scan_matches (payment_prefix i) None ?k"
    by (cases h) (simp add: scan_matches_def get_key_def)
  ultimately have "map_of l ?k = Some info"
    using read assms(2) mbs_scan_cases [of E "json_payment E" "storage p" "payment_prefix i" None b]
    by (metis list_payment_info_def option.distinct(1) option.inject)
  then show ?thesis by (rule map_of_SomeD)
qed

lemma list_invoices_run:
  assumes "list_invoices E p s = (Ok l, s')"
  obtains ins outs where "list_payment_info E p True (store s) = Some ins"
    "list_payment_info E p False (store s) = Some outs"
    "l = List.map_filter (listed_invoice E True (now E (clock_reads s))) ins @
         List.map_filter (listed_invoice E False (now E (Suc (clock_reads s)))) outs"
  using assms
  by (auto simp: list_invoices_def list_payment_info_from_persisters_def pbind_def pread_def preturn_def
      read_clock_def of_option_def split: option.splits)

lemma listed_when_recorded:
  assumes "ldk_ok E" "list_invoices E p s = (Ok l, s')" "storage q = storage p"
    "payments E q (store s) (h, inbound) = Some info"
    "listed_invoice E inbound (now E (if inbound then clock_reads s else Suc (clock_reads s)))
       (get_key q (payment_key E inbound h), info) = Some mi"
  shows "mi \<in> set l"
proof -
  obtain ins outs where run: "list_payment_info E p True (store s) = Some ins"
      "list_payment_info E p False (store s) = Some outs"
      "l = List.map_filter (listed_invoice E True (now E (clock_reads s))) ins @
           List.map_filter (listed_invoice E False (now E (Suc (clock_reads s)))) outs"
    by (rule list_invoices_run [OF assms(2)])
  show ?thesis
  proof (cases inbound)
    case True
    with listed_of_read [OF assms(1) run(1) assms(3)] assms(4,5) run(3) show ?thesis
      by (force simp: List.map_filter_def)
  next
    case False
    with listed_of_read [OF assms(1) run(2) assms(3)] assms(4,5) run(3) show ?thesis
      by (force simp: List.map_filter_def)
  qed
qed

text \<open>
  The list of one node's payments holds those of every node of the wallet (with the same
  storage password): a record in the payment map of node \<open>q\<close> is shown by node \<open>p\<close>, with the
  fields \<open>listed_invoice\<close> gives it. So a list made by asking each node in turn repeats every
  payment once per node.
\<close>

theorem list_shows_every_node:
  assumes "ldk_ok E" "list_invoices E p s = (Ok l, s')" "storage q = storage p"
    "payments E q (store s) (h, inbound) = Some info"
    "listed_invoice E inbound (now E (if inbound then clock_reads s else Suc (clock_reads s)))
       (get_key q (payment_key E inbound h), info) = Some mi"
  shows "mi \<in> set l"
  using assms by (rule listed_when_recorded)

lemma keysend_records:
  assumes "ldk_ok E" "keysend E p to_node amt s = (Ok mi, s')"
  obtains pre where "entropy_of E (did s @ [GetRandom]) = Some pre" "mi_preimage mi = Some (to_hex E pre)"
    "mi_payment_hash mi = to_hex E (sha256 E pre)" "mi_is_send mi" "\<not> mi_paid mi"
    "payments E p (store s') (PaymentHash (sha256 E pre), False) = Some \<lparr>preimage = Some pre, secret = None,
       status = InFlight, amt_msat = MillisatAmount (Some (sats_to_msats amt)), fee_paid_msat = None,
       bolt11 = None, last_update = now E (clock_reads s)\<rparr>"
proof -
  obtain pre where pre: "entropy_of E (did s @ [GetRandom]) = Some pre"
    using assms(2) by (cases "entropy_of E (did s @ [GetRandom])") (auto simp: keysend_def pbind_def call_def perr_def Let_def)
  let ?h = "PaymentHash (sha256 E pre)"
  let ?info = "\<lparr>preimage = Some pre, secret = None,
       status = InFlight, amt_msat = MillisatAmount (Some (sats_to_msats amt)), fee_paid_msat = None,
       bolt11 = None, last_update = now E (clock_reads s)\<rparr>"
  let ?s1 = "s\<lparr>did := did s @ [GetRandom, PayPubkey to_node pre (sats_to_msats amt) 40], clock_reads := Suc (clock_reads s)\<rparr>"
  obtain q u where q: "persist_payment E p ?h ?info False ?s1 = (q, u)"
      "payments E p (store u) = (if takes E p (store s) (?h, False, ?info)
         then (payments E p (store s))((?h, False) \<mapsto> ?info) else payments E p (store s))"
      "q = Ok () \<longleftrightarrow> takes E p (store s) (?h, False, ?info)"
    by (rule persist_state [OF assms(1), of p ?h ?info False ?s1]) simp
  have run: "q = Ok () \<and> s' = u \<and> mi_preimage mi = Some (to_hex E pre) \<and> mi_payment_hash mi = to_hex E (sha256 E pre) \<and>
      mi_is_send mi \<and> \<not> mi_paid mi"
    using assms(2) pre q(1)
    by (auto simp: keysend_def pbind_def preturn_def perr_def call_def read_clock_def Let_def
        split: result.splits if_splits prod.splits)
  from run q(2,3) pre show ?thesis by (intro that [of pre]) auto
qed

text \<open>
  A spontaneous payment is listed under its storage key instead of its hash: it is in the
  list, with the preimage \<open>keysend\<close> returned, but its \<open>payment_hash\<close> is the full key of the
  record, never the hash \<open>keysend\<close> returned. So no search of the list for that hash finds it.
\<close>

theorem keysend_listed_under_storage_key:
  assumes "ldk_ok E" "keysend E p to_node amt s = (Ok mi, s1)" "list_invoices E p s1 = (Ok l, s2)"
  shows "\<exists>x \<in> set l. mi_preimage x = mi_preimage mi \<and> mi_is_send x \<and> mi_bolt11 x = None \<and>
    mi_payment_hash x = ''payment_outbound/'' @ mi_payment_hash mi @ ''_'' @ node_id p \<and>
    mi_payment_hash x \<noteq> mi_payment_hash mi"
proof -
  obtain pre where pre: "mi_preimage mi = Some (to_hex E pre)" "mi_payment_hash mi = to_hex E (sha256 E pre)"
    and rec: "payments E p (store s1) (PaymentHash (sha256 E pre), False) = Some \<lparr>preimage = Some pre, secret = None,
       status = InFlight, amt_msat = MillisatAmount (Some (sats_to_msats amt)), fee_paid_msat = None,
       bolt11 = None, last_update = now E (clock_reads s)\<rparr>"
    by (rule keysend_records [OF assms(1,2)])
  let ?key = "get_key p (payment_key E False (PaymentHash (sha256 E pre)))"
  have key: "?key = ''payment_outbound/'' @ mi_payment_hash mi @ ''_'' @ node_id p"
    by (simp add: get_key_def payment_prefix_def PAYMENT_OUTBOUND_PREFIX_KEY_def pre)
  moreover have "?key \<noteq> mi_payment_hash mi"
    unfolding key by (rule notI, drule arg_cong [where f = length]) simp
  ultimately show ?thesis
    using listed_when_recorded [OF assms(1,3) refl rec] pre
    by (intro bexI [of _ "\<lparr>mi_bolt11 = None, mi_description = None, mi_payment_hash = ?key,
           mi_preimage = Some (to_hex E pre), mi_payee_pubkey = None,
           mi_amount_sats = Some (sats_to_msats amt div 1000), mi_expire = now E (clock_reads s),
           mi_paid = False, mi_fees_paid = None, mi_is_send = True\<rparr>"]) (auto simp: listed_invoice_def)
qed

section \<open>A concrete instance\<close>

lemma plain_never_panics:
  assumes "storage p = plain"
  shows "fst (persist_payment E p h info i s) \<noteq> Panic" "fst (read_payment E p h i s) \<noteq> Panic"
proof -
  have "fst (mbs_set E c plain k v b) \<noteq> Panic" "mbs_get E c plain k b \<noteq> Panic" for c :: "'c codec" and k v b
    by (auto simp: mbs_set_def mbs_get_def ls_set_def ls_get_def pmap_err_def split: option.splits)
  note run = this
  show "fst (persist_payment E p h info i s) \<noteq> Panic"
    using run(1) [of "json_payment E" "get_key p (payment_key E i h)" info "store s"] assms
    by (auto simp: persist_payment_def persist_payment_info_def on_store_def pmap_err_def split: prod.splits)
  show "fst (read_payment E p h i s) \<noteq> Panic"
    using run(2) [of "json_payment E" "get_key p (payment_key E i h)" "store s"] assms
    by (auto simp: read_payment_def read_payment_info_def on_store_def split: prod.splits)
qed

lemma plain_read:
  assumes "storage p = plain"
  shows "read_payment E p h i s = (Ok (payments E p (store s) (h, i)), s)"
proof -
  obtain r s' where r: "read_payment E p h i s = (r, s')" by fastforce
  from read_payment_cases [OF r] plain_never_panics(2) [OF assms, of E h i s] r show ?thesis by auto
qed

lemma plain_get_invoice: "storage p = plain \<Longrightarrow> fst (get_invoice E p invoice s) \<noteq> Panic"
  by (simp add: get_invoice_def get_payment_info_from_persisters_def pbind_def preturn_def perr_def plain_read
      split: option.split)

lemma plain_handle_event:
  assumes "storage p = plain" "is_payment_outcome ev"
  shows "fst (handle_event E p net ev s) \<noteq> Panic"
proof -
  have "fst (ignore_err (persist_payment E p h info i) u) \<noteq> Panic" for h info i u
    using plain_never_panics(1) [OF assms(1), of E h info i u]
    by (auto simp: ignore_err_def split: result.splits prod.splits)
  then show ?thesis
    using assms
    by (cases ev) (auto simp: on_payment_claimed_def on_payment_sent_def on_payment_failed_def pbind_def preturn_def
        read_clock_def plain_read split: option.splits)
qed

definition demo_invoice :: Invoice where
  "demo_invoice = Invoice \<lparr>inv_currency = Regtest, inv_description = Direct ''tea'', inv_timestamp = 1,
     inv_payment_hash = PaymentHash [1], inv_payment_secret = PaymentSecret [9], inv_min_final_cltv = 24,
     inv_expiry_secs = 3600, inv_amount_msat = Some 5000, inv_payee = None, inv_routes = []\<rparr> []"

definition demo_pay :: "PaymentInfo list \<Rightarrow> bool \<Rightarrow> pay_env" where
  "demo_pay infos lucky = ldk_env.extend (demo_ldk infos) (pay_env.fields
     (\<lambda>_. 5) demo_keys (\<lambda>_ _ _ _ _. Some demo_invoice) (\<lambda>_. ''lnbcrt1'') (\<lambda>_. Some demo_invoice) (\<lambda>_ _. False)
     (\<lambda>b. b) (\<lambda>_. lucky) (\<lambda>_. Some [7]) (\<lambda>_. None) (\<lambda>_. None) (\<lambda>_. None) (\<lambda>_. None) (\<lambda>_ _. None) 253 (\<lambda>_. 1))"

lemmas demo_pay_defs = demo_pay_def ldk_env.defs pay_env.defs demo_ldk_defs

lemma demo_pay_ok: "ldk_ok (demo_pay infos lucky)"
proof -
  have "ldk_ok (demo_pay infos lucky) = ldk_ok (demo_ldk infos)"
    unfolding ldk_ok_def bdk_ok_def web_ok_def crypto_ok_def by (simp add: demo_pay_defs)
  then show ?thesis by (simp add: demo_ldk_ok)
qed

lemma demo_takes:
  assumes "info \<in> set infos" "storage p = plain"
  shows "takes (demo_pay infos lucky) p b (h, i, info)"
proof -
  have "\<exists>j. index_of info infos = Some j" using assms(1) by (induction infos) auto
  then obtain j where "to_json (json_payment (demo_pay infos lucky)) info = Some (replicate j CHR ''a'')"
    by (auto simp: demo_pay_defs list_codec_def)
  from set_plain [OF _ _ this, of "demo_pay infos lucky"]
  have "\<exists>b'. mbs_set (demo_pay infos lucky) (json_payment (demo_pay infos lucky)) plain key info b = (Ok (), b')" for key
    by (simp add: ascii_def) (simp add: demo_pay_defs demo_web_def)
  then obtain b' where "persist_payment_info (demo_pay infos lucky) p h info i b = (Ok (), b')"
    unfolding persist_payment_info_iff assms(2) by blast
  then show ?thesis unfolding takes_def by (simp del: persist_payment_info_iff)
qed

definition demo_state :: node_state where
  "demo_state = \<lparr>store = demo_browser, did = [], clock_reads = 0\<rparr>"

lemmas demo_pay_eval = demo_invoice_def demo_pay_defs demo_state_def Let_def

abbreviation demo_sent :: PaymentInfo where
  "demo_sent \<equiv> \<lparr>preimage = None, secret = None, status = InFlight, amt_msat = MillisatAmount (Some 5000),
     fee_paid_msat = None, bolt11 = Some ''lnbcrt1'', last_update = 5\<rparr>"

lemma demo_outgoing: "outgoing (demo_pay infos lucky) demo_invoice 5000 (now (demo_pay infos lucky) n) = demo_sent"
  by (simp add: outgoing_def demo_pay_defs)

lemma demo_invoice_simps [simp]:
  "invoice_hash demo_invoice = PaymentHash [1]" "inv_amount_msat (inv_fields demo_invoice) = Some 5000"
  by (simp_all add: demo_invoice_def)

lemma demo_no_payments: "payments E p demo_browser = Map.empty"
proof
  fix x :: "PaymentHash \<times> bool"
  obtain h i where "x = (h, i)" by fastforce
  moreover have "\<exists>e. mbs_get E (json_payment E) (storage p) (get_key p (payment_key E i h)) demo_browser = Err e"
    by (rule mbs.get_absent) (simp add: demo_browser_def raw_item_def)
  ultimately show "payments E p demo_browser x = None"
    by (auto simp: payments_def read_payment_info_def)
qed


lemma paying_again_forgets_preimage_witness:
  "\<exists>r s' i. pay_invoice (demo_pay [demo_sent] False) demo_persister demo_invoice None demo_state = (r, s') \<and>
    payments (demo_pay [demo_sent] False) demo_persister (store s') (PaymentHash [1], False) = Some i \<and> preimage i = None"
proof -
  let ?E = "demo_pay [demo_sent] False"
  obtain r s' where run: "pay_invoice ?E demo_persister demo_invoice None demo_state = (r, s')" by fastforce
  from paying_again_forgets_preimage [OF demo_pay_ok run, of 5000] demo_takes [OF _ demo_uuids(3), of demo_sent "[demo_sent]"] run
  show ?thesis by (auto simp: demo_outgoing)
qed

lemma unrecorded_payment_is_lost_witness:
  "\<exists>r s1. pay_invoice (demo_pay [] True) demo_persister demo_invoice None demo_state = (r, s1) \<and>
    PayInvoice demo_invoice \<in> set (did s1) \<and> (\<forall>mi. r \<noteq> Ok mi)"
proof -
  let ?E = "demo_pay [] True"
  obtain r s1 where run: "pay_invoice ?E demo_persister demo_invoice None demo_state = (r, s1)" by fastforce
  obtain r2 s2 where ev: "handle_event ?E demo_persister NetRegtest (PaymentSent [2] (invoice_hash demo_invoice) None) s1 = (r2, s2)"
    by fastforce
  have "r2 \<noteq> Panic"
    using plain_handle_event [OF demo_uuids(3), of "PaymentSent [2] (invoice_hash demo_invoice) None" ?E NetRegtest s1] ev by simp
  moreover have "\<not> takes ?E demo_persister b (h, i, info)" for b h i info
    by (simp add: takes_def persist_payment_info_def pmap_err_def mbs_set_def demo_pay_defs list_codec_def)
  moreover have "payments ?E demo_persister (store demo_state) = Map.empty"
    by (simp add: demo_state_def demo_no_payments)
  ultimately show ?thesis
    using unrecorded_payment_is_lost [OF demo_pay_ok run _ _ _ ev, of 5000] run by simp
qed

abbreviation demo_received :: PaymentInfo where
  "demo_received \<equiv> \<lparr>preimage = Some [2], secret = None, status = Succeeded, amt_msat = MillisatAmount (Some 7000),
     fee_paid_msat = None, bolt11 = None, last_update = 5\<rparr>"

lemma handle_event_refines_witness:
  "\<exists>r s'. handle_event (demo_pay [demo_received] True) demo_persister NetRegtest
      (PaymentClaimed (PaymentHash [1]) (SpontaneousPayment [2]) 7000) demo_state = (r, s') \<and>
    payments (demo_pay [demo_received] True) demo_persister (store s') (PaymentHash [1], True) = Some demo_received"
proof -
  let ?E = "demo_pay [demo_received] True"
  let ?ev = "PaymentClaimed (PaymentHash [1]) (SpontaneousPayment [2]) 7000"
  obtain r s' where run: "handle_event ?E demo_persister NetRegtest ?ev demo_state = (r, s')"
    by fastforce
  have "r \<noteq> Panic"
    using plain_handle_event [OF demo_uuids(3), of ?ev ?E NetRegtest demo_state] run by simp
  moreover have "payments ?E demo_persister (store demo_state) = Map.empty" "now ?E n = 5" for n
    by (simp_all add: demo_state_def demo_no_payments demo_pay_defs)
  ultimately show ?thesis
    using handle_event_refines [OF demo_pay_ok run] run demo_takes [OF _ demo_uuids(3), of demo_received "[demo_received]"] by simp
qed

lemma sent_payment_is_shown_paid_witness:
  "\<exists>s2 s3. get_invoice (demo_pay [demo_sent, demo_sent\<lparr>status := Succeeded, preimage := Some [2]\<rparr>] True) demo_persister
      demo_invoice s2 =
      (Ok ((mutiny_of_invoice (demo_pay [demo_sent, demo_sent\<lparr>status := Succeeded, preimage := Some [2]\<rparr>] True)
        demo_invoice)\<lparr>mi_is_send := True, mi_paid := True\<rparr>), s3)"
proof -
  let ?infos = "[demo_sent, demo_sent\<lparr>status := Succeeded, preimage := Some [2]\<rparr>]"
  let ?E = "demo_pay ?infos True"
  let ?ev = "PaymentSent [2] (invoice_hash demo_invoice) None"
  obtain r s1 where pay: "pay_invoice ?E demo_persister demo_invoice None demo_state = (r, s1)" by fastforce
  have lucky: "succeeded ?E log" "now ?E n = 5" for log n by (simp_all add: demo_pay_defs)
  have "\<exists>mi. r = Ok mi"
    using send_payment_runs(3) [OF demo_pay_ok, of ?infos True demo_persister demo_invoice "PayInvoice demo_invoice" 5000 demo_state r s1]
      pay lucky demo_takes [OF _ demo_uuids(3), of demo_sent ?infos]
    by (simp add: pay_invoice_cases demo_outgoing [unfolded lucky])
  with pay obtain mi where pay: "pay_invoice ?E demo_persister demo_invoice None demo_state = (Ok mi, s1)" by blast
  obtain r2 s2 where ev: "handle_event ?E demo_persister NetRegtest ?ev s1 = (r2, s2)" by fastforce
  have r2: "r2 \<noteq> Panic"
    using plain_handle_event [OF demo_uuids(3), of ?ev ?E NetRegtest s1] ev by simp
  obtain r3 s3 where get: "get_invoice ?E demo_persister demo_invoice s2 = (r3, s3)" by fastforce
  have r3: "r3 \<noteq> Panic"
    using plain_get_invoice [OF demo_uuids(3), of ?E demo_invoice s2] get by simp
  have none: "payments ?E demo_persister (store demo_state) (invoice_hash demo_invoice, True) = None"
    by (simp add: demo_state_def demo_no_payments)
  have takes: "takes ?E demo_persister (store s1) (invoice_hash demo_invoice, False,
      (outgoing ?E demo_invoice 5000 (now ?E (clock_reads demo_state)))\<lparr>status := Succeeded, preimage := Some [2],
        fee_paid_msat := None, last_update := now ?E (clock_reads s1)\<rparr>)"
    unfolding demo_outgoing unfolding lucky(2) by (rule demo_takes) (simp_all add: demo_uuids)
  show ?thesis
    using sent_payment_is_shown_paid [OF demo_pay_ok pay ev r2 _ takes none get r3] get by auto
qed

abbreviation demo_made :: PaymentInfo where
  "demo_made \<equiv> \<lparr>preimage = None, secret = Some [9], status = Pending, amt_msat = MillisatAmount (Some 5000),
     fee_paid_msat = None, bolt11 = Some ''lnbcrt1'', last_update = 5\<rparr>"

abbreviation demo_claimed :: PaymentInfo where
  "demo_claimed \<equiv> \<lparr>preimage = Some [2], secret = Some [9], status = Succeeded, amt_msat = MillisatAmount (Some 5000),
     fee_paid_msat = None, bolt11 = Some ''lnbcrt1'', last_update = 5\<rparr>"

lemma demo_create_invoice:
  assumes "demo_made \<in> set infos"
  shows "fst (create_invoice (demo_pay infos lucky) demo_persister NetRegtest (Some 5) ''tea'' None demo_state) = Ok demo_invoice"
proof -
  have d: "direct_invoice (demo_pay infos lucky) a d t x c = Some demo_invoice" "now (demo_pay infos lucky) n = 5"
    "invoice_to_string (demo_pay infos lucky) demo_invoice = ''lnbcrt1''" "sats_to_msats 5 = 5000"
    "inv_payment_secret (inv_fields demo_invoice) = PaymentSecret [9]" for a d t x c n
    by (simp_all add: demo_pay_defs sats_to_msats_def demo_invoice_def)
  obtain r u where run: "persist_payment (demo_pay infos lucky) demo_persister (PaymentHash [1]) demo_made True
      (demo_state\<lparr>clock_reads := 2\<rparr>) = (r, u)"
    by (rule prod.exhaust)
  moreover have "r = Ok ()"
    using persist_payment_map(2) [OF demo_pay_ok run] demo_takes [OF assms demo_uuids(3)] by blast
  ultimately have "persist_payment (demo_pay infos lucky) demo_persister (PaymentHash [1]) demo_made True
      (demo_state\<lparr>clock_reads := 2\<rparr>) = (Ok (), u)" by blast
  then show ?thesis
    by (simp add: create_invoice_def d pbind_def preturn_def pmap_err_def read_clock_def demo_state_def numeral_2_eq_2)
qed

lemma received_invoice_is_shown_paid_witness:
  "\<exists>s2 s3. get_invoice (demo_pay [demo_made, demo_claimed] True) demo_persister demo_invoice s2 =
      (Ok ((mutiny_of_invoice (demo_pay [demo_made, demo_claimed] True) demo_invoice)
        \<lparr>mi_is_send := False, mi_paid := True\<rparr>), s3)"
proof -
  let ?E = "demo_pay [demo_made, demo_claimed] True"
  let ?ev = "PaymentClaimed (invoice_hash demo_invoice) (InvoicePayment (Some [2]) [9]) 5000"
  obtain s1 where made: "create_invoice ?E demo_persister NetRegtest (Some 5) ''tea'' None demo_state = (Ok demo_invoice, s1)"
    using demo_create_invoice [of "[demo_made, demo_claimed]" True] by (metis list.set_intros(1) prod.collapse)
  obtain r2 s2 where ev: "handle_event ?E demo_persister NetRegtest ?ev s1 = (r2, s2)" by fastforce
  have r2: "r2 \<noteq> Panic"
    using plain_handle_event [OF demo_uuids(3), of ?ev ?E NetRegtest s1] ev by simp
  obtain r3 s3 where get: "get_invoice ?E demo_persister demo_invoice s2 = (r3, s3)" by fastforce
  have r3: "r3 \<noteq> Panic"
    using plain_get_invoice [OF demo_uuids(3), of ?E demo_invoice s2] get by simp
  have n: "now ?E n = 5" "invoice_to_string ?E demo_invoice = ''lnbcrt1''" for n by (simp_all add: demo_pay_defs)
  show ?thesis
    using received_invoice_is_shown_paid [OF demo_pay_ok made ev r2 _ get r3] get
      demo_takes [OF _ demo_uuids(3), of demo_claimed "[demo_made, demo_claimed]"] by (simp add: n) blast
qed

lemma one_record_lists:
  assumes "ldk_ok E" "persist_payment_info E q h info i demo_browser = (Ok (), b)" "storage p = storage q"
  obtains l where "list_payment_info E p j b = Some l"
proof (cases "list_payment_info E p j b")
  case None
  let ?key = "get_key q (payment_key E i h)"
  have set: "mbs_set E (json_payment E) (storage q) ?key info demo_browser = (Ok (), b)"
    using assms(2) by simp
  from None obtain k where k: "raw_item b k \<noteq> None" "\<And>v. mbs_get E (json_payment E) (storage p) k b \<noteq> Ok v"
    using mbs_scan_cases [of E "json_payment E" "storage p" "payment_prefix j" None b]
    by (metis list_payment_info_def option.distinct(1))
  have "k = ?key"
  proof (rule ccontr)
    assume "k \<noteq> ?key"
    then have "raw_item b k = raw_item demo_browser k" by (rule mbs.put_frame [OF set])
    with k(1) show False by (simp add: demo_browser_def raw_item_def)
  qed
  moreover have "mbs_get E (json_payment E) (storage q) ?key b = Ok info"
    using mbs.put_get [OF _ set] ldk_okD [OF assms(1)] by simp
  ultimately have False using k(2) assms(3) by (metis (no_types))
  then show ?thesis ..
qed (rule that)

lemma one_record_list_invoices:
  assumes "ldk_ok E" "persist_payment_info E q h info i demo_browser = (Ok (), store s)" "storage p = storage q"
  obtains l s' where "list_invoices E p s = (Ok l, s')"
proof -
  obtain ins outs where "list_payment_info E p True (store s) = Some ins" "list_payment_info E p False (store s) = Some outs"
    using one_record_lists [OF assms, of True] one_record_lists [OF assms, of False] by metis
  then show ?thesis
    by (intro that) (simp add: list_invoices_def list_payment_info_from_persisters_def pbind_def pread_def preturn_def
        read_clock_def of_option_def)
qed

lemma list_shows_every_node_witness:
  "\<exists>l s s'. list_invoices (demo_pay [demo_received] True) demo_persister s = (Ok l, s') \<and>
    (\<exists>mi \<in> set l. mi_preimage mi = Some ''02'') \<and> node_id demo_other_persister \<noteq> node_id demo_persister"
proof -
  let ?E = "demo_pay [demo_received] True"
  have "takes ?E demo_other_persister demo_browser (PaymentHash [1], True, demo_received)"
    by (rule demo_takes) (simp_all add: demo_uuids)
  then obtain b where b: "persist_payment_info ?E demo_other_persister (PaymentHash [1]) demo_received True demo_browser = (Ok (), b)"
    by (cases "persist_payment_info ?E demo_other_persister (PaymentHash [1]) demo_received True demo_browser")
      (simp add: takes_def del: persist_payment_info_iff)
  let ?s = "\<lparr>store = b, did = [], clock_reads = 0\<rparr>"
  have st: "storage demo_other_persister = storage demo_persister" by (simp add: demo_uuids)
  obtain l s' where l: "list_invoices ?E demo_persister ?s = (Ok l, s')"
    by (rule one_record_list_invoices [OF demo_pay_ok _ st [symmetric], where s = ?s]) (simp del: persist_payment_info_iff, rule b)
  have "payments ?E demo_other_persister b (PaymentHash [1], True) = Some demo_received"
    using payments_persist [OF demo_pay_ok b] by simp
  moreover have "to_hex ?E [2] = ''02''"
    by (simp add: demo_pay_defs byte_hex_def hex_digits_def)
  ultimately have "\<lparr>mi_bolt11 = None, mi_description = None,
      mi_payment_hash = get_key demo_other_persister (payment_key ?E True (PaymentHash [1])),
      mi_preimage = Some ''02'', mi_payee_pubkey = None, mi_amount_sats = Some 7, mi_expire = 5, mi_paid = True,
      mi_fees_paid = None, mi_is_send = False\<rparr> \<in> set l"
    by (intro list_shows_every_node [OF demo_pay_ok l st, of "PaymentHash [1]" True demo_received])
      (simp_all add: listed_invoice_def)
  with l demo_uuids(5) show ?thesis by force
qed

abbreviation demo_keysend :: PaymentInfo where
  "demo_keysend \<equiv> \<lparr>preimage = Some [7], secret = None, status = InFlight, amt_msat = MillisatAmount (Some 5000),
     fee_paid_msat = None, bolt11 = None, last_update = 5\<rparr>"

lemma keysend_listed_under_storage_key_witness:
  "\<exists>mi s1 l s2. keysend (demo_pay [demo_keysend] True) demo_persister (PublicKey [3]) 5 demo_state = (Ok mi, s1) \<and>
    list_invoices (demo_pay [demo_keysend] True) demo_persister s1 = (Ok l, s2) \<and>
    (\<exists>x \<in> set l. mi_preimage x = mi_preimage mi \<and> mi_payment_hash x \<noteq> mi_payment_hash mi)"
proof -
  let ?E = "demo_pay [demo_keysend] True"
  have "takes ?E demo_persister demo_browser (PaymentHash [7], False, demo_keysend)"
    by (rule demo_takes) (simp_all add: demo_uuids)
  then obtain b where b: "persist_payment_info ?E demo_persister (PaymentHash [7]) demo_keysend False demo_browser = (Ok (), b)"
    by (cases "persist_payment_info ?E demo_persister (PaymentHash [7]) demo_keysend False demo_browser")
      (simp add: takes_def del: persist_payment_info_iff)
  have d: "entropy_of ?E log = Some [7]" "sha256 ?E x = x" "succeeded ?E log" "now ?E n = 5" "sats_to_msats 5 = 5000" for log x n
    by (simp_all add: demo_pay_defs sats_to_msats_def)
  have put: "persist_payment ?E demo_persister (PaymentHash [7]) demo_keysend False s = (Ok (), s\<lparr>store := b\<rparr>)"
    if "store s = demo_browser" for s
    unfolding persist_payment_def on_store_def pmap_err_def that b by simp
  obtain mi s1 where k: "keysend ?E demo_persister (PublicKey [3]) 5 demo_state = (Ok mi, s1)" "store s1 = b"
    by (simp add: keysend_def pbind_def preturn_def call_def read_clock_def Let_def d demo_state_def
        put)
  obtain l s2 where l: "list_invoices ?E demo_persister s1 = (Ok l, s2)"
    by (rule one_record_list_invoices [OF demo_pay_ok b [folded k(2)] refl])
  from keysend_listed_under_storage_key [OF demo_pay_ok k(1) l] k l show ?thesis by blast
qed

end
