(* ===== verification/Ledger.thy ===== *)
theory Ledger
  imports PaymentFlows
begin

text \<open>
  The payments of a node over its whole life: any interleaving of LDK's events, of the calls that
  create and pay, and of everything else the wallet does, restarts included
  (\<open>node-manager/src/event.rs\<close> and \<open>node.rs\<close>). What the wallet shows as paid is what LDK reported.
\<close>

section \<open>Runs of a node\<close>

text \<open>
  A step is an event LDK hands out or a call that creates or pays; an invoice is created with
  its result.
\<close>

datatype NodeAction =
    HandleEvent Event
  | CreateInvoice "(Invoice, MutinyError) result"
  | Pay Invoice "u64 option"
  | Keysend PublicKey u64

inductive node_step ::
  "'x pay_env_scheme \<Rightarrow> MutinyNodePersister \<Rightarrow> Network \<Rightarrow> NodeAction \<Rightarrow> node_state \<Rightarrow> node_state \<Rightarrow> bool"
  for E p net where
  HandleEvent: "handle_event E p net ev s = (r, s') \<Longrightarrow> node_step E p net (HandleEvent ev) s s'"
| CreateInvoice: "create_invoice E p net amt desc hints s = (r, s') \<Longrightarrow> node_step E p net (CreateInvoice r) s s'"
| Pay: "pay_invoice E p invoice amt s = (r, s') \<Longrightarrow> node_step E p net (Pay invoice amt) s s'"
| Keysend: "keysend E p to_node sats s = (r, s') \<Longrightarrow> node_step E p net (Keysend to_node sats) s s'"

section \<open>What an action may write\<close>

type_synonym payment_record = "PaymentHash \<times> bool \<times> PaymentInfo"

definition apply_records :: "payment_record list \<Rightarrow> payment_map \<Rightarrow> payment_map" where
  "apply_records = fold (\<lambda>(h, i, info) m. m((h, i) \<mapsto> info))"

text \<open>Between two states only records with a property were written.\<close>

definition wrote ::
  "'x ldk_env_scheme \<Rightarrow> MutinyNodePersister \<Rightarrow> (payment_record \<Rightarrow> bool) \<Rightarrow> node_state \<Rightarrow> node_state \<Rightarrow> bool" where
  "wrote E p P s s' \<longleftrightarrow> (\<exists>recs. payments E p (store s') = apply_records recs (payments E p (store s)) \<and> list_all P recs)"

interpretation wrote: run_preorder "wrote E p P" for E :: "'x ldk_env_scheme" and p P
proof
  show "wrote E p P s s" for s by (auto simp: wrote_def apply_records_def intro: exI [of _ "[]"])
next
  fix s t u assume "wrote E p P s t" "wrote E p P t u"
  then obtain xs ys where "payments E p (store t) = apply_records xs (payments E p (store s))" "list_all P xs"
    "payments E p (store u) = apply_records ys (payments E p (store t))" "list_all P ys"
    by (auto simp: wrote_def)
  then show "wrote E p P s u" by (auto simp: wrote_def apply_records_def intro!: exI [of _ "xs @ ys"])
qed

lemma wrote_nothing: "store s' = store s \<Longrightarrow> wrote E p P s s'"
  by (auto simp: wrote_def apply_records_def intro: exI [of _ "[]"])

lemma wrote_refl [simp]: "wrote E p P s s"
  by (rule wrote_nothing) simp

lemma wrote_mono: "wrote E p P s s' \<Longrightarrow> (\<And>x. P x \<Longrightarrow> Q x) \<Longrightarrow> wrote E p Q s s'"
  unfolding wrote_def by (metis list.pred_mono_strong)

lemma wrote_basic [intro!]:
  "wrote E p P s (snd (preturn v s))" "wrote E p P s (snd (perr e s))" "wrote E p P s (snd (pread f s))"
  "wrote E p P s (snd (call e a s))" "wrote E p P s (snd (read_clock E' s))" "wrote E p P s (snd (expect v s))"
  "wrote E p P s (snd (read_payment E' q h i s))"
  by (auto intro!: wrote_nothing simp: read_clock_def read_payment_def on_store_def preturn_def perr_def pread_def)

lemma wrote_persist:
  assumes "ldk_ok E" "P (h, i, info)"
  shows "wrote E p P s (snd (persist_payment E p h info i s))"
proof -
  obtain r s' where run: "persist_payment E p h info i s = (r, s')" by fastforce
  have "payments E p (store s') = apply_records (if takes E p (store s) (h, i, info) then [(h, i, info)] else []) (payments E p (store s))"
    using persist_payment_map(1) [OF assms(1) run] by (simp add: apply_records_def)
  then show ?thesis using assms(2) by (auto simp: wrote_def run)
qed

lemma wrote_ignoring: "wrote E p P s (snd (m s)) \<Longrightarrow> wrote E p P s (snd (ignore_err m s))"
  by (auto simp: ignore_err_def split: prod.splits result.splits)

lemma wrote_pmap_err: "wrote E p P s (snd (m s)) \<Longrightarrow> wrote E p P s (snd (pmap_err f m s))"
  by simp

fun event_writes :: "Event \<Rightarrow> payment_record \<Rightarrow> bool" where
  "event_writes (PaymentClaimed h purpose amount) (h', i, info) \<longleftrightarrow> h' = h \<and> i \<and> status info = Succeeded \<and>
     preimage info = purpose_preimage purpose \<and> amt_msat info = MillisatAmount (Some amount)"
| "event_writes (PaymentSent pre h fee) (h', i, info) \<longleftrightarrow> h' = h \<and> \<not> i \<and> status info = Succeeded \<and>
     preimage info = Some pre \<and> fee_paid_msat info = fee"
| "event_writes (PaymentFailed h) (h', i, info) \<longleftrightarrow> h' = h \<and> \<not> i \<and> status info = Failed"
| "event_writes _ _ \<longleftrightarrow> False"

fun action_writes :: "'x pay_env_scheme \<Rightarrow> NodeAction \<Rightarrow> payment_record \<Rightarrow> bool" where
  "action_writes E (HandleEvent ev) x \<longleftrightarrow> event_writes ev x"
| "action_writes E (CreateInvoice r) (h, i, info) \<longleftrightarrow> i \<and> status info = Pending \<and> (\<exists>invoice. r = Ok invoice \<and> h = invoice_hash invoice)"
| "action_writes E (Pay invoice _) (h, i, info) \<longleftrightarrow> \<not> i \<and> status info \<noteq> Succeeded \<and> h = invoice_hash invoice"
| "action_writes E (Keysend _ _) (h, i, info) \<longleftrightarrow> \<not> i \<and> status info \<noteq> Succeeded \<and>
     (\<exists>log pre. entropy_of E log = Some pre \<and> h = PaymentHash (sha256 E pre))"

lemma event_wrote:
  assumes "ldk_ok E"
  shows "wrote E p (event_writes ev) s (snd (handle_event E p net ev s))"
proof (cases "is_payment_outcome ev")
  case True
  then show ?thesis
    by (cases ev)
      (auto simp: on_payment_claimed_def on_payment_sent_def on_payment_failed_def simp del: pbind_read_clock
        intro!: wrote.run_pbind wrote_ignoring wrote_persist [OF assms] split: option.split)
next
  case False
  then show ?thesis by (intro wrote_nothing other_event_store)
qed

lemma create_wrote:
  assumes "ldk_ok E" "create_invoice E p net amt desc hints s = (r, s')"
  shows "wrote E p (action_writes E (CreateInvoice r)) s s'"
proof (cases r)
  case (Ok invoice)
  then show ?thesis
    using create_invoice_records [OF assms] unfolding wrote_def
    by (intro exI [of _ "[(invoice_hash invoice, True, the (payments E p (store s') (invoice_hash invoice, True)))]"])
      (simp add: apply_records_def)
qed (use create_invoice_records [OF assms] in \<open>auto simp: wrote_def apply_records_def intro: exI [of _ "[]"]\<close>)

lemma pay_wrote:
  assumes "ldk_ok E"
  shows "wrote E p (action_writes E (Pay invoice amt)) s (snd (pay_invoice E p invoice amt s))"
  unfolding pay_invoice_cases send_payment_def
  by (auto simp: outgoing_def simp del: pbind_read_clock intro!: wrote.run_pbind wrote_persist [OF assms] split: option.split)

lemma keysend_wrote:
  assumes "ldk_ok E"
  shows "wrote E p (action_writes E (Keysend to_node sats)) s (snd (keysend E p to_node sats s))"
  unfolding keysend_def Let_def
  by (rule wrote.run_pbind, rule wrote_basic)
    (auto simp del: pbind_read_clock simp: call_def Let_def intro!: wrote.run_pbind [OF wrote_basic(4)] wrote.run_pbind wrote_persist [OF assms]
      split: option.split, blast+)

lemma node_step_wrote:
  assumes "ldk_ok E" "node_step E p net a s s'"
  shows "wrote E p (action_writes E a) s s'"
  using assms(2)
proof (cases rule: node_step.cases)
  case (HandleEvent ev r)
  with event_wrote [OF assms(1), of p ev s net] show ?thesis by (auto elim: wrote_mono)
next
  case (CreateInvoice amt desc hints r)
  with create_wrote [OF assms(1)] show ?thesis by simp
next
  case (Pay invoice amt r)
  with pay_wrote [OF assms(1), of p invoice amt s] show ?thesis by simp
next
  case (Keysend to_node sats r)
  with keysend_wrote [OF assms(1), of p to_node sats s] show ?thesis by simp
qed

lemma apply_records_cases:
  assumes "apply_records recs m (h, i) = Some info"
  shows "(h, i, info) \<in> set recs \<or> m (h, i) = Some info"
  using assms
proof (induction recs arbitrary: m)
  case (Cons x recs)
  obtain h' i' info' where x: "x = (h', i', info')" by (rule prod_cases3)
  with Cons.prems have "apply_records recs (m((h', i') \<mapsto> info')) (h, i) = Some info" by (simp add: apply_records_def)
  from Cons.IH [OF this] show ?case by (auto simp: x split: if_splits)
qed (simp add: apply_records_def)

section \<open>Many nodes\<close>

text \<open>What one node writes does not touch the payments of another.\<close>

interpretation spared: run_preorder "\<lambda>s s'. payments E p (store s') = payments E p (store s)" for E :: "'x ldk_env_scheme" and p
  by standard auto

lemma spared_basic [simp]:
  "payments E p (store (snd (preturn v s))) = payments E p (store s)"
  "payments E p (store (snd (perr e s))) = payments E p (store s)"
  "payments E p (store (snd (pread f s))) = payments E p (store s)"
  "payments E p (store (snd (read_clock E' s))) = payments E p (store s)"
  "payments E p (store (snd (read_payment E' q h i s))) = payments E p (store s)"
  by (simp_all add: read_clock_def read_payment_def on_store_def preturn_def perr_def pread_def)

lemma spared_persist:
  assumes "ldk_ok E" "uuid_like (node_id p)" "uuid_like (node_id q)" "node_id q \<noteq> node_id p"
  shows "payments E p (store (snd (persist_payment E q h info i s))) = payments E p (store s)"
proof -
  obtain r b where run: "persist_payment_info E q h info i (store s) = (r, b)" by fastforce
  have "(read_payment_info E p h' j b :: (PaymentInfo option, unit) result) = read_payment_info E p h' j (store s)" for h' j
    by (rule read_unaffected [OF run]) (use get_key_inject [OF assms(2,3)] assms(4) in auto)
  then have "payments E p b = payments E p (store s)" by (simp add: payments_def)
  then show ?thesis by (simp add: persist_payment_def on_store_def pmap_err_def run)
qed

lemma spared_ignoring: "payments E p (store (snd (m s))) = x \<Longrightarrow> payments E p (store (snd (ignore_err m s))) = x"
  by (auto simp: ignore_err_def split: prod.splits result.splits)

lemma other_node_spares:
  assumes "ldk_ok E" "uuid_like (node_id p)" "uuid_like (node_id q)" "node_id q \<noteq> node_id p"
    and "node_step E q net a s s'"
  shows "payments E p (store s') = payments E p (store s)"
proof -
  note keep = spared_persist [OF assms(1-4)]
  have event: "payments E p (store (snd (handle_event E q net ev s))) = payments E p (store s)" for ev
  proof (cases "is_payment_outcome ev")
    case True
    then show ?thesis
      by (cases ev)
        (auto simp: on_payment_claimed_def on_payment_sent_def on_payment_failed_def keep simp del: pbind_read_clock
          intro!: spared.run_pbind spared_ignoring split: option.split)
  next
    case False
    then show ?thesis by (simp add: other_event_store)
  qed
  have create: "payments E p (store (snd (create_invoice E q net amt desc hints s))) = payments E p (store s)" for amt desc hints
    unfolding create_invoice_def Let_def
    by (auto simp: keep simp del: pbind_read_clock pbind_pread intro!: spared.run_pbind split: option.split)
  have pay: "payments E p (store (snd (pay_invoice E q invoice amt s))) = payments E p (store s)" for invoice amt
    unfolding pay_invoice_cases send_payment_def
    by (auto simp: keep simp del: pbind_read_clock intro!: spared.run_pbind split: option.split)
  have keysend: "payments E p (store (snd (keysend E q to_node sats s))) = payments E p (store s)" for to_node sats
    unfolding keysend_def Let_def
    by (auto simp: keep simp del: pbind_read_clock intro!: spared.run_pbind split: option.split)
  from assms(5) show ?thesis
    by (cases rule: node_step.cases) (use event create pay keysend in \<open>metis snd_conv\<close>)+
qed

text \<open>
  A run of the wallet: its nodes act in any order, and between their actions anything may happen
  that leaves their payments alone: LDK's own work, the on-chain wallet, peers, a restart.
\<close>

inductive wallet_run ::
  "'x pay_env_scheme \<Rightarrow> Network \<Rightarrow> MutinyNodePersister set \<Rightarrow> node_state \<Rightarrow> (MutinyNodePersister \<times> NodeAction) list \<Rightarrow> node_state \<Rightarrow> bool"
  for E net nodes s0 where
  Start: "wallet_run E net nodes s0 [] s0"
| Act: "wallet_run E net nodes s0 acts s \<Longrightarrow> q \<in> nodes \<Longrightarrow> node_step E q net a s s' \<Longrightarrow>
    wallet_run E net nodes s0 (acts @ [(q, a)]) s'"
| Rest: "wallet_run E net nodes s0 acts s \<Longrightarrow> \<forall>q \<in> nodes. payments E q (store s') = payments E q (store s) \<Longrightarrow>
    wallet_run E net nodes s0 acts s'"

definition different_nodes :: "MutinyNodePersister set \<Rightarrow> bool" where
  "different_nodes nodes \<longleftrightarrow> (\<forall>q \<in> nodes. uuid_like (node_id q)) \<and> inj_on node_id nodes"

definition seen_by :: "MutinyNodePersister \<Rightarrow> (MutinyNodePersister \<times> NodeAction) list \<Rightarrow> NodeAction list" where
  "seen_by p acts = map snd (filter (\<lambda>(q, _). q = p) acts)"

text \<open>Each node sees its own run.\<close>

lemma wallet_run_records:
  assumes "ldk_ok E" "different_nodes nodes" "p \<in> nodes" "wallet_run E net nodes s0 acts s"
  shows "wrote E p (\<lambda>x. \<exists>a \<in> set (seen_by p acts). action_writes E a x) s0 s"
  using assms(4)
proof (induction rule: wallet_run.induct)
  case (Act acts s q a s')
  let ?P = "\<lambda>x. \<exists>a \<in> set (seen_by p (acts @ [(q, a)])). action_writes E a x"
  have "wrote E p ?P s0 s" using Act.IH by (rule wrote_mono) (auto simp: seen_by_def)
  moreover have "wrote E p ?P s s'"
  proof (cases "q = p")
    case True
    with Act.hyps(3) have "wrote E p (action_writes E a) s s'" using node_step_wrote [OF assms(1)] by blast
    then show ?thesis by (rule wrote_mono) (simp add: seen_by_def True)
  next
    case False
    with assms(2,3) Act.hyps(2) have "uuid_like (node_id p)" "uuid_like (node_id q)" "node_id q \<noteq> node_id p"
      by (auto simp: different_nodes_def inj_on_def)
    from other_node_spares [OF assms(1) this Act.hyps(3)] show ?thesis
      by (auto simp: wrote_def apply_records_def intro: exI [of _ "[]"])
  qed
  ultimately show ?case by (rule wrote.R_trans)
next
  case (Rest acts s s')
  then have "wrote E p (\<lambda>x. \<exists>a \<in> set (seen_by p acts). action_writes E a x) s s'"
    using assms(3) by (auto simp: wrote_def apply_records_def intro: exI [of _ "[]"])
  with Rest.IH show ?case by (rule wrote.R_trans)
qed simp

section \<open>What the wallet shows as paid\<close>

lemma record_seen:
  assumes "wrote E p P s0 s" "payments E p (store s) (h, i) = Some info"
  shows "payments E p (store s0) (h, i) = Some info \<or> P (h, i, info)"
  using assms apply_records_cases unfolding wrote_def list_all_iff by metis

lemma settled_record_cases:
  assumes "action_writes E a (h, i, info)" "status info = Succeeded"
  obtains (Sent) pre fee where "a = HandleEvent (PaymentSent pre h fee)" "\<not> i" "preimage info = Some pre" "fee_paid_msat info = fee"
    | (Claimed) purpose amount where "a = HandleEvent (PaymentClaimed h purpose amount)" "i"
        "preimage info = purpose_preimage purpose" "amt_msat info = MillisatAmount (Some amount)"
proof (cases a)
  case (HandleEvent ev)
  with assms that show ?thesis by (cases ev) auto
qed (use assms in auto)

text \<open>
  C4: the wallet shows an invoice as paid only when LDK said so. From a start without payments,
  whatever the nodes of the wallet did, in any order: an invoice a node shows as sent and paid was
  reported by a \<open>PaymentSent\<close> event to this node, and its record holds the preimage, the proof of the
  payment, and the fee of such an event; an invoice shown as received and paid was reported by
  \<open>PaymentClaimed\<close>, and its record holds the amount and the preimage reported.
\<close>

theorem paid_means_ldk_said_so:
  assumes "ldk_ok E" "different_nodes nodes" "p \<in> nodes" "payments E p (store s0) = Map.empty"
    and "wallet_run E net nodes s0 acts s" "get_invoice E p invoice s = (Ok mi, s')" "mi_paid mi"
  shows "if mi_is_send mi
    then \<exists>pre fee info. (p, HandleEvent (PaymentSent pre (invoice_hash invoice) fee)) \<in> set acts \<and>
      payments E p (store s) (invoice_hash invoice, False) = Some info \<and> preimage info = Some pre \<and> fee_paid_msat info = fee
    else \<exists>purpose amount info. (p, HandleEvent (PaymentClaimed (invoice_hash invoice) purpose amount)) \<in> set acts \<and>
      payments E p (store s) (invoice_hash invoice, True) = Some info \<and>
      preimage info = purpose_preimage purpose \<and> amt_msat info = MillisatAmount (Some amount)"
proof -
  obtain info where info: "payments E p (store s) (invoice_hash invoice, \<not> mi_is_send mi) = Some info" "status info = Succeeded"
    using get_invoice_shows [OF assms(6)] assms(7) by (auto split: option.splits)
  obtain a where a: "(p, a) \<in> set acts" "action_writes E a (invoice_hash invoice, \<not> mi_is_send mi, info)"
    using record_seen [OF wallet_run_records [OF assms(1-3,5)] info(1)] assms(4) by (auto simp: seen_by_def)
  show ?thesis
  proof (rule settled_record_cases [OF a(2) info(2)], goal_cases)
    case (1 pre fee)
    with a(1) info(1) show ?case by auto
  next
    case (2 purpose amount)
    with a(1) info(1) show ?case by auto
  qed
qed

lemma apply_records_simps:
  "apply_records [] m = m" "apply_records ((h, i, info) # recs) m = apply_records recs (m((h, i) \<mapsto> info))"
  by (simp_all add: apply_records_def)

lemma apply_records_kept:
  assumes "m (h, i) = Some info" "status info = Succeeded"
    and "\<And>info. (h, i, info) \<in> set recs \<Longrightarrow> status info = Succeeded"
  shows "\<exists>info'. apply_records recs m (h, i) = Some info' \<and> status info' = Succeeded"
  using assms
proof (induction recs arbitrary: m info)
  case (Cons x recs)
  obtain h' i' info' where x: "x = (h', i', info')" by (rule prod_cases3)
  have later: "(h, i, info) \<in> set recs \<Longrightarrow> status info = Succeeded" for info using Cons.prems(3) by simp
  show ?case
  proof (cases "(h', i') = (h, i)")
    case True
    with Cons.prems(3) x have "status info' = Succeeded" by simp
    moreover have "apply_records (x # recs) m = apply_records recs (m((h, i) \<mapsto> info'))" using x True by (simp only: apply_records_simps prod.inject)
    moreover have "\<exists>info''. apply_records recs (m((h, i) \<mapsto> info')) (h, i) = Some info'' \<and> status info'' = Succeeded"
      by (rule Cons.IH) (use calculation(1) later in simp_all)
    ultimately show ?thesis by (simp only:)
  next
    case False
    then have "(m((h', i') \<mapsto> info')) (h, i) = Some info" using Cons.prems(1) by auto
    moreover have "apply_records (x # recs) m = apply_records recs (m((h', i') \<mapsto> info'))" by (simp only: x apply_records_simps)
    moreover have "\<exists>info''. apply_records recs (m((h', i') \<mapsto> info')) (h, i) = Some info'' \<and> status info'' = Succeeded"
      by (rule Cons.IH) (use calculation(1) Cons.prems(2) later in simp_all)
    ultimately show ?thesis by (simp only:)
  qed
qed (simp add: apply_records_simps)

lemma apply_records_dom: "m x \<noteq> None \<Longrightarrow> apply_records recs m x \<noteq> None"
proof (induction recs arbitrary: m)
  case (Cons r recs)
  obtain h i info where r: "r = (h, i, info)" by (rule prod_cases3)
  have "(m((h, i) \<mapsto> info)) x \<noteq> None" using Cons.prems by simp
  from this have "apply_records recs (m((h, i) \<mapsto> info)) x \<noteq> None" by (rule Cons.IH)
  then show ?case by (simp only: r apply_records_simps) simp
qed (simp add: apply_records_simps)

text \<open>The actions that may write a record of a hash that is not, or not yet, settled.\<close>

fun unsettles :: "'x pay_env_scheme \<Rightarrow> NodeAction \<Rightarrow> PaymentHash \<Rightarrow> bool" where
  "unsettles E (HandleEvent ev) h \<longleftrightarrow> ev = PaymentFailed h"
| "unsettles E (CreateInvoice r) h \<longleftrightarrow> (\<exists>invoice. r = Ok invoice \<and> invoice_hash invoice = h)"
| "unsettles E (Pay invoice _) h \<longleftrightarrow> invoice_hash invoice = h"
| "unsettles E (Keysend _ _) h \<longleftrightarrow> (\<exists>log pre. entropy_of E log = Some pre \<and> PaymentHash (sha256 E pre) = h)"

lemma settling_write:
  assumes "action_writes E a (h, i, info)" "\<not> unsettles E a h"
  shows "status info = Succeeded"
proof (cases a)
  case (HandleEvent ev)
  with assms show ?thesis by (cases ev) auto
qed (use assms in auto)

text \<open>
  C8: no payment is ever forgotten, and one that succeeded stays so, until its own node acts on the
  same hash again: LDK reports that it failed, its invoice is paid again, or a new invoice or
  spontaneous payment has the same hash.
\<close>

theorem paid_stays_paid:
  assumes "ldk_ok E" "different_nodes nodes" "p \<in> nodes" "wallet_run E net nodes s0 acts s"
  shows "dom (payments E p (store s0)) \<subseteq> dom (payments E p (store s)) \<and>
    (\<forall>h i info. payments E p (store s0) (h, i) = Some info \<and> status info = Succeeded \<and>
       (\<forall>a. (p, a) \<in> set acts \<longrightarrow> \<not> unsettles E a h) \<longrightarrow>
       (\<exists>info'. payments E p (store s) (h, i) = Some info' \<and> status info' = Succeeded))"
proof -
  obtain recs where recs: "payments E p (store s) = apply_records recs (payments E p (store s0))"
    "list_all (\<lambda>x. \<exists>a \<in> set (seen_by p acts). action_writes E a x) recs"
    using wallet_run_records [OF assms] unfolding wrote_def by blast
  have "\<exists>info'. payments E p (store s) (h, i) = Some info' \<and> status info' = Succeeded"
    if "payments E p (store s0) (h, i) = Some info" "status info = Succeeded" "\<forall>a. (p, a) \<in> set acts \<longrightarrow> \<not> unsettles E a h"
    for h i info
  proof -
    have "\<not> unsettles E a h" if "a \<in> set (seen_by p acts)" for a
      using that \<open>\<forall>a. (p, a) \<in> set acts \<longrightarrow> \<not> unsettles E a h\<close> by (auto simp: seen_by_def)
    then have "(h, i, info) \<in> set recs \<Longrightarrow> status info = Succeeded" for info
      using recs(2) settling_write unfolding list_all_iff by blast
    then show ?thesis unfolding recs(1) by (rule apply_records_kept [of "payments E p (store s0)", OF that(1,2)])
  qed
  moreover have "dom (payments E p (store s0)) \<subseteq> dom (payments E p (store s))"
    using apply_records_dom [of "payments E p (store s0)" _ recs] unfolding recs(1) by blast
  ultimately show ?thesis by blast
qed

section \<open>A concrete run\<close>

definition demo_settled :: PaymentInfo where
  "demo_settled = demo_sent\<lparr>status := Succeeded, preimage := Some [2]\<rparr>"

definition demo_ledger :: pay_env where
  "demo_ledger = demo_pay [demo_sent, demo_settled] True"

abbreviation demo_report :: Event where
  "demo_report \<equiv> PaymentSent [2] (invoice_hash demo_invoice) None"

lemma demo_ledger_facts [simp]:
  "ldk_ok demo_ledger" "succeeded demo_ledger log" "now demo_ledger n = 5"
  "outgoing demo_ledger demo_invoice 5000 5 = demo_sent"
  "takes demo_ledger demo_persister b (h, i, demo_sent)" "takes demo_ledger demo_persister b (h, i, demo_settled)"
  "status demo_settled = Succeeded"
proof -
  have env: "succeeded demo_ledger log" "now demo_ledger n = 5" for log n by (simp_all add: demo_ledger_def demo_pay_defs)
  show "succeeded demo_ledger log" "now demo_ledger n = 5" by (fact env)+
  show "outgoing demo_ledger demo_invoice 5000 5 = demo_sent"
    using demo_outgoing [of "[demo_sent, demo_settled]" True] unfolding demo_ledger_def [symmetric] env .
qed (simp_all add: demo_ledger_def demo_pay_ok demo_takes demo_uuids, simp add: demo_settled_def)

lemma demo_nodes: "different_nodes {demo_persister}"
  by (simp add: different_nodes_def demo_uuids)

lemma demo_paid:
  obtains s2 where
    "wallet_run demo_ledger NetRegtest {demo_persister} demo_state [(demo_persister, Pay demo_invoice None), (demo_persister, HandleEvent demo_report)] s2"
    "payments demo_ledger demo_persister (store s2) = [(invoice_hash demo_invoice, False) \<mapsto> demo_settled]"
proof -
  let ?E = demo_ledger and ?h = "invoice_hash demo_invoice"
  obtain r s1 where pay: "pay_invoice ?E demo_persister demo_invoice None demo_state = (r, s1)" by fastforce
  have one: "payments ?E demo_persister (store s1) = [(?h, False) \<mapsto> demo_sent]"
    using send_payment_runs(3) [OF demo_ledger_facts(1), of demo_persister demo_invoice "PayInvoice demo_invoice" 5000 demo_state r s1] pay
    by (simp add: pay_invoice_cases demo_state_def demo_no_payments)
  obtain r2 s2 where ev: "handle_event ?E demo_persister NetRegtest demo_report s1 = (r2, s2)" by fastforce
  have "r2 \<noteq> Panic" using plain_handle_event [OF demo_uuids(3), of demo_report ?E NetRegtest s1] ev by simp
  from handle_event_record [OF demo_ledger_facts(1) ev this]
  have two: "payments ?E demo_persister (store s2) = [(?h, False) \<mapsto> demo_settled]"
    using demo_ledger_facts(6) [unfolded demo_settled_def] by (simp add: one record_in_def demo_settled_def)
  have "wallet_run ?E NetRegtest {demo_persister} demo_state ([] @ [(demo_persister, Pay demo_invoice None)]) s1"
    by (rule wallet_run.Act [OF wallet_run.Start _ node_step.Pay [OF pay]]) simp
  from wallet_run.Act [OF this _ node_step.HandleEvent [OF ev]] two that show ?thesis by simp
qed

lemma sent_is_shown:
  assumes "storage p = plain" "payments E p (store s) = [(invoice_hash invoice, False) \<mapsto> i]" "status i = Succeeded"
  obtains mi s' where "get_invoice E p invoice s = (Ok mi, s')" "mi_paid mi" "mi_is_send mi"
proof -
  obtain r s' where get: "get_invoice E p invoice s = (r, s')" by fastforce
  have "r \<noteq> Panic" using plain_get_invoice [OF assms(1), of E invoice s] get by simp
  from get_invoice_shows [OF get this] assms(2,3) get that show ?thesis by simp
qed

lemma paid_means_ldk_said_so_witness:
  "\<exists>acts s mi s' pre. wallet_run demo_ledger NetRegtest {demo_persister} demo_state acts s \<and>
     get_invoice demo_ledger demo_persister demo_invoice s = (Ok mi, s') \<and> mi_paid mi \<and>
     (\<exists>fee. (demo_persister, HandleEvent (PaymentSent pre (invoice_hash demo_invoice) fee)) \<in> set acts)"
proof -
  obtain s where run: "wallet_run demo_ledger NetRegtest {demo_persister} demo_state
      [(demo_persister, Pay demo_invoice None), (demo_persister, HandleEvent demo_report)] s"
    and paid: "payments demo_ledger demo_persister (store s) =
       [(invoice_hash demo_invoice, False) \<mapsto> demo_settled]"
    by (rule demo_paid)
  obtain mi s' where get: "get_invoice demo_ledger demo_persister demo_invoice s = (Ok mi, s')" "mi_paid mi" "mi_is_send mi"
    by (rule sent_is_shown [OF demo_uuids(3) paid]) simp_all
  have "payments demo_ledger demo_persister (store demo_state) = Map.empty" by (simp add: demo_state_def demo_no_payments)
  from paid_means_ldk_said_so [OF demo_ledger_facts(1) demo_nodes insertI1 this run get(1,2)]
  obtain pre fee where
    "(demo_persister, HandleEvent (PaymentSent pre (invoice_hash demo_invoice) fee)) \<in>
       set [(demo_persister, Pay demo_invoice None), (demo_persister, HandleEvent demo_report)]"
    unfolding if_P [OF get(3)] by blast
  then show ?thesis using run get(1,2) by blast
qed

lemma paid_stays_paid_witness:
  "\<exists>s s' info. wallet_run demo_ledger NetRegtest {demo_persister} s [(demo_persister, HandleEvent PaymentPathFailed)] s' \<and>
     payments demo_ledger demo_persister (store s') (invoice_hash demo_invoice, False) = Some info \<and> status info = Succeeded"
proof -
  obtain s :: node_state where paid: "payments demo_ledger demo_persister (store s) =
       [(invoice_hash demo_invoice, False) \<mapsto> demo_settled]"
    by (rule demo_paid) (rule that)
  have shown: "payments demo_ledger demo_persister (store s) (invoice_hash demo_invoice, False) =
      Some demo_settled" unfolding paid by (rule fun_upd_same)
  obtain r s' where "handle_event demo_ledger demo_persister NetRegtest PaymentPathFailed s = (r, s')" by fastforce
  from wallet_run.Act [OF wallet_run.Start insertI1 node_step.HandleEvent [OF this]]
  have run: "wallet_run demo_ledger NetRegtest {demo_persister} s [(demo_persister, HandleEvent PaymentPathFailed)] s'"
    unfolding append_Nil by blast
  have "\<exists>info'. payments demo_ledger demo_persister (store s') (invoice_hash demo_invoice, False) = Some info' \<and> status info' = Succeeded"
    by (rule paid_stays_paid [OF demo_ledger_facts(1) demo_nodes insertI1 run, THEN conjunct2, rule_format, OF conjI, OF shown]) simp_all
  with run show ?thesis by blast
qed

end
