(* ===== verification/Background.thy ===== *)
theory Background
  imports PaymentFlows Complex_Main "HOL-Library.Countable"
begin

text \<open>
  \<open>node-manager/src/background.rs\<close>: the background processor of a node, LDK's loop that hands out
  events, persists the channel manager and drives LDK's timers, as \<open>Node::new\<close> runs it. LDK is a
  parameter: what it answers may depend on everything that the processor called before
  (\<open>bg_calls\<close>). A clock reading is an exact number of milliseconds. Other tasks that run while the
  processor waits are seen only in those answers. Log output is left out.
\<close>

section \<open>State and surroundings\<close>

definition FRESHNESS_TIMER :: nat where "FRESHNESS_TIMER = 60"
definition PING_TIMER :: nat where "PING_TIMER = 30"
definition NETWORK_PRUNE_TIMER :: nat where "NETWORK_PRUNE_TIMER = 60 * 60"
definition SCORER_PERSIST_TIMER :: nat where "SCORER_PERSIST_TIMER = 30"
definition FIRST_NETWORK_PRUNE_TIMER :: nat where "FIRST_NETWORK_PRUNE_TIMER = 60"

lemmas timer_defs = FRESHNESS_TIMER_def PING_TIMER_def NETWORK_PRUNE_TIMER_def SCORER_PERSIST_TIMER_def
  FIRST_NETWORK_PRUNE_TIMER_def

datatype GossipSync = P2P | Rapid | NoGossip

datatype BgCall =
    ManagerTick
  | ManagerEvents
  | MonitorEvents
  | PeerEvents
  | AwaitUpdate
  | PeerTick
  | DisconnectAllPeers
  | GraphSees Event
  | PruneGraph
  | EncodeManager
  | EncodeScorer
  | EncodeGraph

record bg_state =
  bg_node :: node_state
  bg_calls :: "BgCall list"
  instants :: nat

type_synonym 'a bg_prog = "(bg_state, 'a, MutinyError) prog"

text \<open>
  \<open>awaits\<close>: \<open>None\<close> when the channel manager has an update, otherwise what the sleeper returned. The
  keys are those under which LDK's \<open>Persister\<close> stores its objects.
\<close>

record bg_env = pay_env +
  instant :: "nat \<Rightarrow> real"
  events_of :: "BgCall list \<Rightarrow> Event list"
  awaits :: "BgCall list \<Rightarrow> bool option"
  encoding_of :: "BgCall list \<Rightarrow> bytes"
  rapid_complete :: "BgCall list \<Rightarrow> bool"
  manager_store_key :: string
  scorer_store_key :: string
  graph_store_key :: string

definition read_instant :: "'x bg_env_scheme \<Rightarrow> real bg_prog" where
  "read_instant E s = (Ok (instant E (instants s)), s\<lparr>instants := Suc (instants s)\<rparr>)"

definition bg_call :: "BgCall \<Rightarrow> (BgCall list \<Rightarrow> 'a) \<Rightarrow> 'a bg_prog" where
  "bg_call c answer s = (let made = bg_calls s @ [c] in (Ok (answer made), s\<lparr>bg_calls := made\<rparr>))"

definition on_node :: "'a node_prog \<Rightarrow> 'a bg_prog" where
  "on_node m s = (let (r, n) = m (bg_node s) in (r, s\<lparr>bg_node := n\<rparr>))"

text \<open>\<open>let _ = persister.persist_..(..)\<close>: an error is only logged.\<close>

definition store_object ::
  "'x bg_env_scheme \<Rightarrow> MutinyNodePersister \<Rightarrow> string \<Rightarrow> BgCall \<Rightarrow> unit bg_prog" where
  "store_object E p key what =
     pbind (bg_call what (encoding_of E)) (\<lambda>encoded.
     on_node (ignore_err (on_store (pmap_err mutiny_of_io (persist E p key encoded)))))"

section \<open>Events\<close>

fun network_graph :: "GossipSync \<Rightarrow> bool" where
  "network_graph P2P \<longleftrightarrow> True"
| "network_graph Rapid \<longleftrightarrow> True"
| "network_graph NoGossip \<longleftrightarrow> False"

fun prunable_network_graph :: "'x bg_env_scheme \<Rightarrow> GossipSync \<Rightarrow> BgCall list \<Rightarrow> bool" where
  "prunable_network_graph E P2P made \<longleftrightarrow> True"
| "prunable_network_graph E Rapid made \<longleftrightarrow> rapid_complete E made"
| "prunable_network_graph E NoGossip made \<longleftrightarrow> False"

text \<open>A failed payment path may carry an update for the graph.\<close>

definition handle_network_graph_update :: "Event \<Rightarrow> unit bg_prog" where
  "handle_network_graph_update ev =
     (if ev = PaymentPathFailed then bg_call (GraphSees ev) (\<lambda>_. ()) else preturn ())"

definition async_event_handler ::
  "'x bg_env_scheme \<Rightarrow> GossipSync \<Rightarrow> MutinyNodePersister \<Rightarrow> Network \<Rightarrow> Event \<Rightarrow> unit bg_prog" where
  "async_event_handler E g p net ev =
     pbind (if network_graph g then handle_network_graph_update ev else preturn ()) (\<lambda>_.
     on_node (handle_event E p net ev))"

fun handle_all ::
  "'x bg_env_scheme \<Rightarrow> GossipSync \<Rightarrow> MutinyNodePersister \<Rightarrow> Network \<Rightarrow> Event list \<Rightarrow> unit bg_prog" where
  "handle_all E g p net [] = preturn ()"
| "handle_all E g p net (ev # evs) =
     pbind (async_event_handler E g p net ev) (\<lambda>_. handle_all E g p net evs)"

text \<open>\<open>process_pending_events_async\<close> of the channel manager or of the chain monitor.\<close>

definition process_pending_events ::
  "'x bg_env_scheme \<Rightarrow> GossipSync \<Rightarrow> MutinyNodePersister \<Rightarrow> Network \<Rightarrow> BgCall \<Rightarrow> unit bg_prog" where
  "process_pending_events E g p net from = pbind (bg_call from (events_of E)) (handle_all E g p net)"

section \<open>The loop\<close>

record bg_timers =
  last_freshness_call :: real
  last_ping_call :: real
  last_prune_call :: real
  last_scorer_persist_call :: real
  have_pruned :: bool
  should_break :: bool

definition due :: "'x bg_env_scheme \<Rightarrow> real \<Rightarrow> nat \<Rightarrow> bool bg_prog" where
  "due E last_call secs = pbind (read_instant E) (\<lambda>n. preturn (n - last_call > real (1000 * secs)))"

definition tick_manager :: "'x bg_env_scheme \<Rightarrow> bg_timers \<Rightarrow> bg_timers bg_prog" where
  "tick_manager E t =
     pbind (due E (last_freshness_call t) FRESHNESS_TIMER) (\<lambda>d.
     if d then
       pbind (bg_call ManagerTick (\<lambda>_. ())) (\<lambda>_.
       pbind (read_instant E) (\<lambda>n. preturn (t\<lparr>last_freshness_call := n\<rparr>)))
     else preturn t)"

definition tick_peers :: "'x bg_env_scheme \<Rightarrow> real \<Rightarrow> bg_timers \<Rightarrow> bg_timers bg_prog" where
  "tick_peers E slept t =
     (if slept > real (1000 * 2) then
        pbind (bg_call DisconnectAllPeers (\<lambda>_. ())) (\<lambda>_.
        pbind (read_instant E) (\<lambda>n. preturn (t\<lparr>last_ping_call := n\<rparr>)))
      else
        pbind (due E (last_ping_call t) PING_TIMER) (\<lambda>d.
        if d then
          pbind (bg_call PeerTick (\<lambda>_. ())) (\<lambda>_.
          pbind (read_instant E) (\<lambda>n. preturn (t\<lparr>last_ping_call := n\<rparr>)))
        else preturn t))"

definition prune_graph :: "'x bg_env_scheme \<Rightarrow> GossipSync \<Rightarrow> MutinyNodePersister \<Rightarrow> bg_timers \<Rightarrow> bg_timers bg_prog" where
  "prune_graph E g p t =
     pbind (due E (last_prune_call t) (if have_pruned t then NETWORK_PRUNE_TIMER else FIRST_NETWORK_PRUNE_TIMER)) (\<lambda>d.
     pbind (pread (\<lambda>s. Ok (prunable_network_graph E g (bg_calls s)))) (\<lambda>prunable.
     if d \<and> prunable then
       pbind (bg_call PruneGraph (\<lambda>_. ())) (\<lambda>_.
       pbind (store_object E p (graph_store_key E) EncodeGraph) (\<lambda>_.
       pbind (read_instant E) (\<lambda>n. preturn (t\<lparr>last_prune_call := n, have_pruned := True\<rparr>))))
     else preturn t))"

definition persist_scorer_in_time ::
  "'x bg_env_scheme \<Rightarrow> bool \<Rightarrow> MutinyNodePersister \<Rightarrow> bg_timers \<Rightarrow> bg_timers bg_prog" where
  "persist_scorer_in_time E scorer p t =
     pbind (due E (last_scorer_persist_call t) SCORER_PERSIST_TIMER) (\<lambda>d.
     if d then
       pbind (if scorer then store_object E p (scorer_store_key E) EncodeScorer else preturn ()) (\<lambda>_.
       pbind (read_instant E) (\<lambda>n. preturn (t\<lparr>last_scorer_persist_call := n\<rparr>)))
     else preturn t)"

text \<open>One turn of the loop; the flag says that the loop ends.\<close>

definition bg_turn ::
  "'x bg_env_scheme \<Rightarrow> GossipSync \<Rightarrow> bool \<Rightarrow> MutinyNodePersister \<Rightarrow> Network \<Rightarrow> bg_timers \<Rightarrow> (bool \<times> bg_timers) bg_prog" where
  "bg_turn E g scorer p net t =
     pbind (process_pending_events E g p net ManagerEvents) (\<lambda>_.
     pbind (process_pending_events E g p net MonitorEvents) (\<lambda>_.
     pbind (bg_call PeerEvents (\<lambda>_. ())) (\<lambda>_.
     pbind (read_instant E) (\<lambda>await_start.
     pbind (bg_call AwaitUpdate (awaits E)) (\<lambda>w.
     let updates_available = (w = None);
         t1 = (case w of Some exit \<Rightarrow> t\<lparr>should_break := exit\<rparr> | None \<Rightarrow> t) in
     pbind (read_instant E) (\<lambda>await_time.
     pbind (if updates_available then store_object E p (manager_store_key E) EncodeManager else preturn ()) (\<lambda>_.
     if should_break t1 then preturn (True, t1)
     else
       pbind (tick_manager E t1) (\<lambda>t2.
       pbind (tick_peers E (await_time - await_start) t2) (\<lambda>t3.
       pbind (prune_graph E g p t3) (\<lambda>t4.
       pbind (persist_scorer_in_time E scorer p t4) (\<lambda>t5.
       preturn (False, t5))))))))))))"

definition bg_leave :: "'x bg_env_scheme \<Rightarrow> GossipSync \<Rightarrow> bool \<Rightarrow> MutinyNodePersister \<Rightarrow> unit bg_prog" where
  "bg_leave E g scorer p =
     pbind (store_object E p (manager_store_key E) EncodeManager) (\<lambda>_.
     pbind (if scorer then store_object E p (scorer_store_key E) EncodeScorer else preturn ()) (\<lambda>_.
     if network_graph g then store_object E p (graph_store_key E) EncodeGraph else preturn ()))"

fun bg_loop ::
  "'x bg_env_scheme \<Rightarrow> GossipSync \<Rightarrow> bool \<Rightarrow> MutinyNodePersister \<Rightarrow> Network \<Rightarrow> nat \<Rightarrow> bg_timers \<Rightarrow> bg_state \<Rightarrow>
   ((unit, MutinyError) result \<times> bg_state) option" where
  "bg_loop E g scorer p net 0 t s = None"
| "bg_loop E g scorer p net (Suc fuel) t s =
     (case bg_turn E g scorer p net t s of
        (Ok (stop, t'), s') \<Rightarrow>
          if stop then Some (bg_leave E g scorer p s') else bg_loop E g scorer p net fuel t' s'
      | (Err e, s') \<Rightarrow> Some (Err e, s')
      | (Panic, s') \<Rightarrow> Some (Panic, s'))"

definition bg_start :: "'x bg_env_scheme \<Rightarrow> bg_timers bg_prog" where
  "bg_start E =
     pbind (bg_call ManagerTick (\<lambda>_. ())) (\<lambda>_.
     pbind (read_instant E) (\<lambda>a. pbind (read_instant E) (\<lambda>b. pbind (read_instant E) (\<lambda>c. pbind (read_instant E) (\<lambda>d.
     preturn \<lparr>last_freshness_call = a, last_ping_call = b, last_prune_call = c, last_scorer_persist_call = d,
       have_pruned = False, should_break = True\<rparr>)))))"

definition process_events_async ::
  "'x bg_env_scheme \<Rightarrow> GossipSync \<Rightarrow> bool \<Rightarrow> MutinyNodePersister \<Rightarrow> Network \<Rightarrow> nat \<Rightarrow> bg_state \<Rightarrow>
   ((unit, MutinyError) result \<times> bg_state) option" where
  "process_events_async E g scorer p net fuel s =
     (case bg_start E s of
        (Ok t, s') \<Rightarrow> bg_loop E g scorer p net fuel t s'
      | (Err e, s') \<Rightarrow> Some (Err e, s')
      | (Panic, s') \<Rightarrow> Some (Panic, s'))"

section \<open>What the parts do\<close>

lemma read_instant_run [simp]: "pbind (read_instant E) k s = k (instant E (instants s)) (s\<lparr>instants := Suc (instants s)\<rparr>)"
  by (simp add: read_instant_def pbind_def)

lemma bg_call_run [simp]:
  "pbind (bg_call c answer) k s = k (answer (bg_calls s @ [c])) (s\<lparr>bg_calls := bg_calls s @ [c]\<rparr>)"
  by (simp add: bg_call_def pbind_def Let_def)

lemma read_instant_Ok [simp]:
  "read_instant E s = (Ok n, s') \<longleftrightarrow> n = instant E (instants s) \<and> s' = s\<lparr>instants := Suc (instants s)\<rparr>"
  by (auto simp: read_instant_def)

lemma bg_call_Ok [simp]:
  "bg_call c answer s = (Ok v, s') \<longleftrightarrow> v = answer (bg_calls s @ [c]) \<and> s' = s\<lparr>bg_calls := bg_calls s @ [c]\<rparr>"
  by (auto simp: bg_call_def Let_def)

lemma preturn_run [simp]: "preturn v s = (Ok v, s)"
  by (simp add: preturn_def)

text \<open>Running a part on the node's state touches nothing else.\<close>

lemma on_node_frame: "bg_calls (snd (on_node m s)) = bg_calls s" "instants (snd (on_node m s)) = instants s"
  by (simp_all add: on_node_def case_prod_beta)

lemma store_object_run:
  "store_object E p key what s =
     on_node (ignore_err (on_store (pmap_err mutiny_of_io (persist E p key (encoding_of E (bg_calls s @ [what]))))))
       (s\<lparr>bg_calls := bg_calls s @ [what]\<rparr>)"
  by (simp add: store_object_def)

lemma store_object_frame:
  "bg_calls (snd (store_object E p key what s)) = bg_calls s @ [what]"
  "instants (snd (store_object E p key what s)) = instants s"
  by (simp_all add: store_object_run on_node_frame)

lemma persist_cases:
  assumes "persist E p key bs b = (r, b')"
  shows "(\<exists>r0. mbs_set E (json_bytes E) (storage p) (get_key p key) bs b = (r0, b') \<and> r = map_err (\<lambda>_. IoError) r0)"
  using assms by (auto simp: persist_def pmap_err_def split: prod.splits)

lemma store_object_cases:
  assumes "store_object E p key what s = (r, s')"
  obtains q b' where "persist E p key (encoding_of E (bg_calls s @ [what])) (store (bg_node s)) = (q, b')"
    "s' = s\<lparr>bg_calls := bg_calls s @ [what], bg_node := (bg_node s)\<lparr>store := b'\<rparr>\<rparr>"
    "r = (if q = Panic then Panic else Ok ())"
proof -
  obtain q b' where q: "persist E p key (encoding_of E (bg_calls s @ [what])) (store (bg_node s)) = (q, b')" by fastforce
  show ?thesis
    using assms that [OF q] q
    by (cases q) (auto simp: store_object_run on_node_def ignore_err_def on_store_def pmap_err_def Let_def)
qed

section \<open>Time\<close>

lemma due_run [simp]:
  "pbind (due E last_call secs) k s =
     k (instant E (instants s) - last_call > real (1000 * secs)) (s\<lparr>instants := Suc (instants s)\<rparr>)"
  by (simp add: due_def pbind_def read_instant_def)

lemma tick_manager_run:
  "tick_manager E t s =
    (if instant E (instants s) - last_freshness_call t > real (1000 * FRESHNESS_TIMER)
     then (Ok (t\<lparr>last_freshness_call := instant E (Suc (instants s))\<rparr>),
       s\<lparr>bg_calls := bg_calls s @ [ManagerTick], instants := Suc (Suc (instants s))\<rparr>)
     else (Ok t, s\<lparr>instants := Suc (instants s)\<rparr>))"
  by (simp add: tick_manager_def)

lemma tick_peers_run:
  "tick_peers E slept t s =
    (if slept > 2000
     then (Ok (t\<lparr>last_ping_call := instant E (instants s)\<rparr>),
       s\<lparr>bg_calls := bg_calls s @ [DisconnectAllPeers], instants := Suc (instants s)\<rparr>)
     else if instant E (instants s) - last_ping_call t > real (1000 * PING_TIMER)
     then (Ok (t\<lparr>last_ping_call := instant E (Suc (instants s))\<rparr>),
       s\<lparr>bg_calls := bg_calls s @ [PeerTick], instants := Suc (Suc (instants s))\<rparr>)
     else (Ok t, s\<lparr>instants := Suc (instants s)\<rparr>))"
  by (simp add: tick_peers_def)

text \<open>
  What a timer that was last served at \<open>last\<close> has at the end of a turn between the readings \<open>i\<close> and
  \<open>j\<close> of the clock: it was served, and its time is one of these readings, or it was not overdue.
\<close>

definition served :: "'x bg_env_scheme \<Rightarrow> nat \<Rightarrow> nat \<Rightarrow> nat \<Rightarrow> real \<Rightarrow> real \<Rightarrow> bool \<Rightarrow> bool" where
  "served E i j secs before after made \<longleftrightarrow>
     (if made then \<exists>k. i \<le> k \<and> k < j \<and> after = instant E k
      else after = before \<and> (\<exists>k. i \<le> k \<and> k < j \<and> instant E k - before \<le> real (1000 * secs)))"

lemma served_wider: "served E i j secs a b m \<Longrightarrow> i' \<le> i \<Longrightarrow> j \<le> j' \<Longrightarrow> served E i' j' secs a b m"
  unfolding served_def by (meson le_trans less_le_trans)

section \<open>A turn of the loop\<close>

text \<open>Handling events takes no reading of the processor's clock and makes no other call.\<close>

abbreviation events_only :: "bg_state \<Rightarrow> bg_state \<Rightarrow> bool" where
  "events_only s s' \<equiv> instants s' = instants s \<and>
     (\<exists>more. bg_calls s' = bg_calls s @ more \<and> set more \<subseteq> range GraphSees)"

interpretation events_only: run_preorder events_only
proof
  fix s t u :: bg_state
  show "events_only s s" by simp
  assume st: "events_only s t" and tu: "events_only t u"
  from st tu obtain a b where "bg_calls t = bg_calls s @ a" "set a \<subseteq> range GraphSees"
    "bg_calls u = bg_calls t @ b" "set b \<subseteq> range GraphSees" by blast
  with st tu show "events_only s u" by (intro conjI exI [of _ "a @ b"]) auto
qed

lemma events_only_handler: "events_only s (snd (async_event_handler E g p net ev s))"
  unfolding async_event_handler_def handle_network_graph_update_def
  by (rule events_only.run_pbind) (auto simp: on_node_frame bg_call_def Let_def)

lemma events_only_all: "events_only s (snd (handle_all E g p net evs s))"
proof (induction evs arbitrary: s)
  case (Cons ev evs)
  then show ?case
    unfolding handle_all.simps by (intro events_only.run_pbind events_only_handler) simp
qed simp

lemma process_pending_frame:
  assumes "process_pending_events E g p net c s = (r, s')"
  obtains more where "bg_calls s' = bg_calls s @ c # more" "set more \<subseteq> range GraphSees" "instants s' = instants s"
proof -
  have "handle_all E g p net (events_of E (bg_calls s @ [c])) (s\<lparr>bg_calls := bg_calls s @ [c]\<rparr>) = (r, s')"
    using assms by (simp add: process_pending_events_def)
  then have "events_only (s\<lparr>bg_calls := bg_calls s @ [c]\<rparr>) s'"
    using events_only_all by (metis snd_conv)
  with that show ?thesis by auto
qed

definition timers_awaited :: "bool option \<Rightarrow> bg_timers \<Rightarrow> bg_timers" where
  "timers_awaited w t = (case w of Some exit \<Rightarrow> t\<lparr>should_break := exit\<rparr> | None \<Rightarrow> t)"

text \<open>A turn in two halves: up to the wait and what it brought, and the timers.\<close>

definition before_timers ::
  "'x bg_env_scheme \<Rightarrow> GossipSync \<Rightarrow> MutinyNodePersister \<Rightarrow> Network \<Rightarrow> (bool option \<times> real) bg_prog" where
  "before_timers E g p net =
     pbind (process_pending_events E g p net ManagerEvents) (\<lambda>_.
     pbind (process_pending_events E g p net MonitorEvents) (\<lambda>_.
     pbind (bg_call PeerEvents (\<lambda>_. ())) (\<lambda>_.
     pbind (read_instant E) (\<lambda>await_start.
     pbind (bg_call AwaitUpdate (awaits E)) (\<lambda>w.
     pbind (read_instant E) (\<lambda>await_time.
     pbind (if w = None then store_object E p (manager_store_key E) EncodeManager else preturn ()) (\<lambda>_.
     preturn (w, await_time - await_start))))))))"

definition serve_timers ::
  "'x bg_env_scheme \<Rightarrow> GossipSync \<Rightarrow> bool \<Rightarrow> MutinyNodePersister \<Rightarrow> real \<Rightarrow> bg_timers \<Rightarrow> bg_timers bg_prog" where
  "serve_timers E g scorer p slept t =
     pbind (tick_manager E t) (\<lambda>t2.
     pbind (tick_peers E slept t2) (\<lambda>t3.
     pbind (prune_graph E g p t3) (persist_scorer_in_time E scorer p)))"

lemma bg_turn_halves:
  "bg_turn E g scorer p net t =
     pbind (before_timers E g p net) (\<lambda>(w, slept).
     let t1 = timers_awaited w t in
     if should_break t1 then preturn (True, t1)
     else pbind (serve_timers E g scorer p slept t1) (\<lambda>t5. preturn (False, t5)))"
  unfolding bg_turn_def before_timers_def serve_timers_def timers_awaited_def pbind_assoc Let_def
  by (simp add: pbind_assoc pbind_preturn_fun)

lemma before_timers_parts:
  assumes "before_timers E g p net s = (Ok (w, slept), s')"
  obtains s1 s2 s3 where "process_pending_events E g p net ManagerEvents s = (Ok (), s1)"
    "process_pending_events E g p net MonitorEvents s1 = (Ok (), s2)"
    "s3 = s2\<lparr>bg_calls := bg_calls s2 @ [PeerEvents, AwaitUpdate], instants := Suc (Suc (instants s2))\<rparr>"
    "w = awaits E (bg_calls s3)" "slept = instant E (Suc (instants s2)) - instant E (instants s2)"
    "(if w = None then store_object E p (manager_store_key E) EncodeManager s3 else (Ok (), s3)) = (Ok (), s')"
proof -
  obtain s1 where one: "process_pending_events E g p net ManagerEvents s = (Ok (), s1)"
    using assms unfolding before_timers_def by (auto elim!: pbind_OkE)
  obtain s2 where two: "process_pending_events E g p net MonitorEvents s1 = (Ok (), s2)"
    using assms one unfolding before_timers_def by (auto simp: pbind_Ok_iff)
  show ?thesis
    using assms one two by (intro that [OF one two refl]) (auto simp: before_timers_def pbind_Ok_iff split: if_splits)
qed

lemma before_timers_cases:
  assumes "before_timers E g p net s = (Ok (w, slept), s')"
  obtains more where "bg_calls s' = bg_calls s @ more" "instants s' = Suc (Suc (instants s))"
    "slept = instant E (Suc (instants s)) - instant E (instants s)"
    "set more \<inter> {ManagerTick, PeerTick, DisconnectAllPeers, EncodeScorer} = {}"
    "w = None \<longleftrightarrow> EncodeManager \<in> set more"
proof -
  obtain s1 s2 s3 where one: "process_pending_events E g p net ManagerEvents s = (Ok (), s1)"
    and two: "process_pending_events E g p net MonitorEvents s1 = (Ok (), s2)"
    and s3: "s3 = s2\<lparr>bg_calls := bg_calls s2 @ [PeerEvents, AwaitUpdate], instants := Suc (Suc (instants s2))\<rparr>"
    and slept: "slept = instant E (Suc (instants s2)) - instant E (instants s2)"
    and rest: "(if w = None then store_object E p (manager_store_key E) EncodeManager s3 else (Ok (), s3)) = (Ok (), s')"
    using before_timers_parts [OF assms] .
  obtain a where a: "bg_calls s1 = bg_calls s @ ManagerEvents # a" "set a \<subseteq> range GraphSees" "instants s1 = instants s"
    using process_pending_frame [OF one] .
  obtain b where b: "bg_calls s2 = bg_calls s1 @ MonitorEvents # b" "set b \<subseteq> range GraphSees" "instants s2 = instants s1"
    using process_pending_frame [OF two] .
  have last: "bg_calls s' = bg_calls s3 @ (if w = None then [EncodeManager] else [])" "instants s' = instants s3"
    using rest store_object_frame [of E p "manager_store_key E" EncodeManager s3] by (auto split: if_splits)
  have sees: "c \<in> set a \<Longrightarrow> \<exists>ev. c = GraphSees ev" "c \<in> set b \<Longrightarrow> \<exists>ev. c = GraphSees ev" for c
    using a(2) b(2) by blast+
  show ?thesis
    by (intro that [of "ManagerEvents # a @ MonitorEvents # b @ [PeerEvents, AwaitUpdate] @ (if w = None then [EncodeManager] else [])"])
      (auto simp: last a b slept s3 dest!: sees)
qed

lemma pread_Ok_run [simp]: "pbind (pread (\<lambda>s. Ok (f s))) k s = k (f s) s"
  by (simp add: pbind_def pread_def)

lemma prune_graph_cases:
  assumes "prune_graph E g p t s = (Ok t', s')"
  obtains more where "bg_calls s' = bg_calls s @ more" "set more \<subseteq> {PruneGraph, EncodeGraph}" "instants s < instants s'"
    "last_freshness_call t' = last_freshness_call t" "last_ping_call t' = last_ping_call t"
    "last_scorer_persist_call t' = last_scorer_persist_call t" "should_break t' = should_break t"
    "network_graph g \<or> (more = [] \<and> t' = t)"
proof (cases "instant E (instants s) - last_prune_call t >
    real (1000 * (if have_pruned t then NETWORK_PRUNE_TIMER else FIRST_NETWORK_PRUNE_TIMER)) \<and>
    prunable_network_graph E g (bg_calls s)")
  case True
  let ?s = "s\<lparr>instants := Suc (instants s), bg_calls := bg_calls s @ [PruneGraph]\<rparr>"
  from True have "network_graph g" by (cases g) simp_all
  have "pbind (store_object E p (graph_store_key E) EncodeGraph)
      (\<lambda>_. pbind (read_instant E) (\<lambda>n. preturn (t\<lparr>last_prune_call := n, have_pruned := True\<rparr>))) ?s = (Ok t', s')"
    using assms True by (simp add: prune_graph_def)
  then obtain u where u: "store_object E p (graph_store_key E) EncodeGraph ?s = (Ok (), u)"
    "t' = t\<lparr>last_prune_call := instant E (instants u), have_pruned := True\<rparr>" "s' = u\<lparr>instants := Suc (instants u)\<rparr>"
    by (auto elim!: pbind_OkE)
  have "bg_calls u = bg_calls s @ [PruneGraph, EncodeGraph]" "instants u = Suc (instants s)"
    using store_object_frame [of E p "graph_store_key E" EncodeGraph ?s] u(1) by simp_all
  with that [of "[PruneGraph, EncodeGraph]"] \<open>network_graph g\<close> u show ?thesis by simp
next
  case False
  then have "t' = t" "s' = s\<lparr>instants := Suc (instants s)\<rparr>"
    using assms by (auto simp: prune_graph_def)
  then show ?thesis using that [of "[]"] by simp
qed

lemma persist_scorer_cases:
  assumes "persist_scorer_in_time E scorer p t s = (Ok t', s')"
  obtains "instant E (instants s) - last_scorer_persist_call t > real (1000 * SCORER_PERSIST_TIMER)"
      "bg_calls s' = bg_calls s @ (if scorer then [EncodeScorer] else [])"
      "t' = t\<lparr>last_scorer_persist_call := instant E (Suc (instants s))\<rparr>" "instants s' = Suc (Suc (instants s))"
    | "instant E (instants s) - last_scorer_persist_call t \<le> real (1000 * SCORER_PERSIST_TIMER)"
      "bg_calls s' = bg_calls s" "t' = t" "instants s' = Suc (instants s)"
proof (cases "instant E (instants s) - last_scorer_persist_call t > real (1000 * SCORER_PERSIST_TIMER)")
  case True
  let ?s = "s\<lparr>instants := Suc (instants s)\<rparr>"
  have "pbind (if scorer then store_object E p (scorer_store_key E) EncodeScorer else preturn ())
      (\<lambda>_. pbind (read_instant E) (\<lambda>n. preturn (t\<lparr>last_scorer_persist_call := n\<rparr>))) ?s = (Ok t', s')"
    using assms True by (simp add: persist_scorer_in_time_def)
  then obtain u where u: "(if scorer then store_object E p (scorer_store_key E) EncodeScorer else preturn ()) ?s = (Ok (), u)"
    "t' = t\<lparr>last_scorer_persist_call := instant E (instants u)\<rparr>" "s' = u\<lparr>instants := Suc (instants u)\<rparr>"
    by (auto elim!: pbind_OkE)
  have "bg_calls u = bg_calls s @ (if scorer then [EncodeScorer] else [])" "instants u = Suc (instants s)"
    using store_object_frame [of E p "scorer_store_key E" EncodeScorer ?s] u(1) by (auto split: if_splits)
  with that(1) True u show ?thesis by simp
next
  case False
  then show ?thesis using assms by (intro that(2)) (auto simp: persist_scorer_in_time_def)
qed

lemma serve_timers_cases:
  assumes "serve_timers E g scorer p slept t s = (Ok t', s')"
  obtains s2 t2 s3 t3 s4 t4 where "tick_manager E t s = (Ok t2, s2)" "tick_peers E slept t2 s2 = (Ok t3, s3)"
    "prune_graph E g p t3 s3 = (Ok t4, s4)" "persist_scorer_in_time E scorer p t4 s4 = (Ok t', s')"
  using assms unfolding serve_timers_def by (auto elim!: pbind_OkE)

lemma bg_turn_cases:
  assumes "bg_turn E g scorer p net t s = (Ok (stop, t'), s')"
  obtains w slept s1 where "before_timers E g p net s = (Ok (w, slept), s1)"
    "stop \<longleftrightarrow> should_break (timers_awaited w t)"
    "if stop then t' = timers_awaited w t \<and> s' = s1
     else serve_timers E g scorer p slept (timers_awaited w t) s1 = (Ok t', s')"
  using assms unfolding bg_turn_halves
  by (auto elim!: pbind_OkE simp: Let_def split: if_splits)

definition overdue :: "'x bg_env_scheme \<Rightarrow> nat \<Rightarrow> nat \<Rightarrow> nat \<Rightarrow> real \<Rightarrow> bool" where
  "overdue E i j secs last_call \<longleftrightarrow> (\<exists>k. i \<le> k \<and> k < j \<and> instant E k - last_call > real (1000 * secs))"

lemma served_intros:
  "i \<le> k \<Longrightarrow> k < j \<Longrightarrow> served E i j secs b (instant E k) True"
  "i \<le> k \<Longrightarrow> k < j \<Longrightarrow> instant E k - b \<le> real (1000 * secs) \<Longrightarrow> served E i j secs b b False"
  "i \<le> k \<Longrightarrow> k < j \<Longrightarrow> instant E k - b > real (1000 * secs) \<Longrightarrow> overdue E i j secs b"
  unfolding served_def overdue_def by auto

lemma overdue_wider: "overdue E i j secs b \<Longrightarrow> i' \<le> i \<Longrightarrow> j \<le> j' \<Longrightarrow> overdue E i' j' secs b"
  unfolding overdue_def by (meson le_trans less_le_trans)

lemma tick_manager_serves:
  assumes "tick_manager E t s = (Ok t', s')"
  obtains c where "bg_calls s' = bg_calls s @ c" "set c \<subseteq> {ManagerTick}" "instants s \<le> instants s'"
    "last_ping_call t' = last_ping_call t" "last_scorer_persist_call t' = last_scorer_persist_call t"
    "served E (instants s) (instants s') FRESHNESS_TIMER (last_freshness_call t) (last_freshness_call t') (c \<noteq> [])"
    "c \<noteq> [] \<longrightarrow> overdue E (instants s) (instants s') FRESHNESS_TIMER (last_freshness_call t)"
proof (cases "instant E (instants s) - last_freshness_call t > real (1000 * FRESHNESS_TIMER)")
  case True
  then show ?thesis
    using assms by (intro that [of "[ManagerTick]"])
      (auto simp: tick_manager_run served_intros(1) intro: served_intros(3) [of _ "instants s"])
next
  case False
  then show ?thesis
    using assms by (intro that [of "[]"]) (auto simp: tick_manager_run intro!: served_intros(2) [of _ "instants s"])
qed

lemma tick_peers_serves:
  assumes "tick_peers E slept t s = (Ok t', s')"
  obtains c where "bg_calls s' = bg_calls s @ c" "set c \<subseteq> {PeerTick, DisconnectAllPeers}" "instants s \<le> instants s'"
    "last_freshness_call t' = last_freshness_call t" "last_scorer_persist_call t' = last_scorer_persist_call t"
    "served E (instants s) (instants s') PING_TIMER (last_ping_call t) (last_ping_call t') (c \<noteq> [])"
    "PeerTick \<in> set c \<longrightarrow> overdue E (instants s) (instants s') PING_TIMER (last_ping_call t)"
    "DisconnectAllPeers \<in> set c \<longleftrightarrow> slept > 2000"
proof -
  consider "slept > 2000" | "\<not> slept > 2000" "instant E (instants s) - last_ping_call t > real (1000 * PING_TIMER)"
    | "\<not> slept > 2000" "\<not> instant E (instants s) - last_ping_call t > real (1000 * PING_TIMER)" by blast
  then show ?thesis
  proof cases
    case 1
    then show ?thesis
      using assms by (intro that [of "[DisconnectAllPeers]"]) (auto simp: tick_peers_run served_intros(1))
  next
    case 2
    then show ?thesis
      using assms by (intro that [of "[PeerTick]"])
        (auto simp: tick_peers_run served_intros(1) intro: served_intros(3) [of _ "instants s"])
  next
    case 3
    then show ?thesis
      using assms by (intro that [of "[]"]) (auto simp: tick_peers_run intro!: served_intros(2) [of _ "instants s"])
  qed
qed

lemma scorer_serves:
  assumes "persist_scorer_in_time E scorer p t s = (Ok t', s')"
  obtains c where "bg_calls s' = bg_calls s @ c" "set c \<subseteq> {EncodeScorer}" "instants s \<le> instants s'"
    "last_freshness_call t' = last_freshness_call t" "last_ping_call t' = last_ping_call t"
    "should_break t' = should_break t"
    "scorer \<longrightarrow> served E (instants s) (instants s') SCORER_PERSIST_TIMER (last_scorer_persist_call t)
       (last_scorer_persist_call t') (c \<noteq> [])"
    "c \<noteq> [] \<longrightarrow> scorer \<and> overdue E (instants s) (instants s') SCORER_PERSIST_TIMER (last_scorer_persist_call t)"
  using assms
proof (cases rule: persist_scorer_cases)
  case 1
  then show ?thesis
    by (intro that [of "if scorer then [EncodeScorer] else []"])
      (auto simp: served_intros(1) intro: served_intros(3) [of _ "instants s"])
next
  case 2
  then show ?thesis by (intro that [of "[]"]) (auto intro!: served_intros(2) [of _ "instants s"])
qed

section \<open>Properties of the processor\<close>

text \<open>The calls made between two states.\<close>

definition new_calls :: "bg_state \<Rightarrow> bg_state \<Rightarrow> BgCall set" where
  "new_calls s s' = set (drop (length (bg_calls s)) (bg_calls s'))"

text \<open>What a turn that goes on calls for each timer, between which readings of the clock.\<close>

lemma turn_timers:
  assumes "bg_turn E g scorer p net t s = (Ok (False, t'), s')"
  obtains a b d n1 n2 n3 n4 where
    "instants s \<le> n1" "n1 \<le> n2" "n2 \<le> n3" "n3 \<le> n4" "n4 \<le> instants s'"
    "set a \<subseteq> {ManagerTick}" "set b \<subseteq> {PeerTick, DisconnectAllPeers}" "set d \<subseteq> {EncodeScorer}"
    "new_calls s s' \<inter> {ManagerTick, PeerTick, DisconnectAllPeers, EncodeScorer} = set a \<union> set b \<union> set d"
    "served E n1 n2 FRESHNESS_TIMER (last_freshness_call t) (last_freshness_call t') (a \<noteq> [])"
    "a \<noteq> [] \<longrightarrow> overdue E n1 n2 FRESHNESS_TIMER (last_freshness_call t)"
    "served E n2 n3 PING_TIMER (last_ping_call t) (last_ping_call t') (b \<noteq> [])"
    "PeerTick \<in> set b \<longrightarrow> overdue E n2 n3 PING_TIMER (last_ping_call t)"
    "DisconnectAllPeers \<in> set b \<longleftrightarrow> instant E (Suc (instants s)) - instant E (instants s) > 2000"
    "scorer \<longrightarrow> served E n4 (instants s') SCORER_PERSIST_TIMER (last_scorer_persist_call t) (last_scorer_persist_call t') (d \<noteq> [])"
    "d \<noteq> [] \<longrightarrow> scorer \<and> overdue E n4 (instants s') SCORER_PERSIST_TIMER (last_scorer_persist_call t)"
proof -
  obtain w slept s1 where one: "before_timers E g p net s = (Ok (w, slept), s1)"
    and rest: "serve_timers E g scorer p slept (timers_awaited w t) s1 = (Ok t', s')"
    using bg_turn_cases [OF assms] by metis
  obtain more where m: "bg_calls s1 = bg_calls s @ more" "instants s1 = Suc (Suc (instants s))"
    "slept = instant E (Suc (instants s)) - instant E (instants s)"
    "set more \<inter> {ManagerTick, PeerTick, DisconnectAllPeers, EncodeScorer} = {}"
    using before_timers_cases [OF one] .
  obtain s2 t2 s3 t3 s4 t4 where tm: "tick_manager E (timers_awaited w t) s1 = (Ok t2, s2)"
    and tp: "tick_peers E slept t2 s2 = (Ok t3, s3)" and pg: "prune_graph E g p t3 s3 = (Ok t4, s4)"
    and ps: "persist_scorer_in_time E scorer p t4 s4 = (Ok t', s')"
    using serve_timers_cases [OF rest] .
  have aw: "last_freshness_call (timers_awaited w t) = last_freshness_call t"
    "last_ping_call (timers_awaited w t) = last_ping_call t"
    "last_scorer_persist_call (timers_awaited w t) = last_scorer_persist_call t"
    by (simp_all add: timers_awaited_def split: option.split)
  obtain a where a: "bg_calls s2 = bg_calls s1 @ a" "set a \<subseteq> {ManagerTick}" "instants s1 \<le> instants s2"
    "last_ping_call t2 = last_ping_call t" "last_scorer_persist_call t2 = last_scorer_persist_call t"
    "served E (instants s1) (instants s2) FRESHNESS_TIMER (last_freshness_call t) (last_freshness_call t2) (a \<noteq> [])"
    "a \<noteq> [] \<longrightarrow> overdue E (instants s1) (instants s2) FRESHNESS_TIMER (last_freshness_call t)"
    using tick_manager_serves [OF tm] unfolding aw by metis
  obtain b where b: "bg_calls s3 = bg_calls s2 @ b" "set b \<subseteq> {PeerTick, DisconnectAllPeers}" "instants s2 \<le> instants s3"
    "last_freshness_call t3 = last_freshness_call t2" "last_scorer_persist_call t3 = last_scorer_persist_call t2"
    "served E (instants s2) (instants s3) PING_TIMER (last_ping_call t2) (last_ping_call t3) (b \<noteq> [])"
    "PeerTick \<in> set b \<longrightarrow> overdue E (instants s2) (instants s3) PING_TIMER (last_ping_call t2)"
    "DisconnectAllPeers \<in> set b \<longleftrightarrow> slept > 2000"
    using tick_peers_serves [OF tp] .
  obtain c where c: "bg_calls s4 = bg_calls s3 @ c" "set c \<subseteq> {PruneGraph, EncodeGraph}" "instants s3 < instants s4"
    "last_freshness_call t4 = last_freshness_call t3" "last_ping_call t4 = last_ping_call t3"
    "last_scorer_persist_call t4 = last_scorer_persist_call t3"
    using prune_graph_cases [OF pg] by metis
  obtain d where d: "bg_calls s' = bg_calls s4 @ d" "set d \<subseteq> {EncodeScorer}" "instants s4 \<le> instants s'"
    "last_freshness_call t' = last_freshness_call t4" "last_ping_call t' = last_ping_call t4"
    "scorer \<longrightarrow> served E (instants s4) (instants s') SCORER_PERSIST_TIMER (last_scorer_persist_call t4)
       (last_scorer_persist_call t') (d \<noteq> [])"
    "d \<noteq> [] \<longrightarrow> scorer \<and> overdue E (instants s4) (instants s') SCORER_PERSIST_TIMER (last_scorer_persist_call t4)"
    using scorer_serves [OF ps] by metis
  show thesis
  proof (rule that [of "instants s1" "instants s2" "instants s3" "instants s4" a b d])
    show "new_calls s s' \<inter> {ManagerTick, PeerTick, DisconnectAllPeers, EncodeScorer} = set a \<union> set b \<union> set d"
      using m(4) a(2) b(2) c(2) d(2) by (auto simp: new_calls_def m(1) a(1) b(1) c(1) d(1))
  qed (use m a b c d in simp_all)
qed

text \<open>
  C12: a turn of the loop that goes on serves each timer: LDK's channel manager is ticked, the peers
  are pinged or dropped, the scorer is stored, and the timer set anew; or some reading of the clock
  in this turn was within the timer's limit. Nothing is called before its time, and the peers are
  dropped exactly when the wait took over two seconds.
\<close>

theorem turn_serves_the_timers:
  assumes "bg_turn E g scorer p net t s = (Ok (False, t'), s')"
    and "i = instants s" "j = instants s'" "new = new_calls s s'"
  shows "served E i j FRESHNESS_TIMER (last_freshness_call t) (last_freshness_call t') (ManagerTick \<in> new) \<and>
    served E i j PING_TIMER (last_ping_call t) (last_ping_call t') (PeerTick \<in> new \<or> DisconnectAllPeers \<in> new) \<and>
    (scorer \<longrightarrow> served E i j SCORER_PERSIST_TIMER (last_scorer_persist_call t) (last_scorer_persist_call t')
       (EncodeScorer \<in> new)) \<and>
    (ManagerTick \<in> new \<longrightarrow> overdue E i j FRESHNESS_TIMER (last_freshness_call t)) \<and>
    (PeerTick \<in> new \<longrightarrow> overdue E i j PING_TIMER (last_ping_call t)) \<and>
    (EncodeScorer \<in> new \<longrightarrow> scorer \<and> overdue E i j SCORER_PERSIST_TIMER (last_scorer_persist_call t)) \<and>
    (DisconnectAllPeers \<in> new \<longleftrightarrow> instant E (Suc i) - instant E i > 2000)"
proof -
  obtain a b d n1 n2 n3 n4 where n: "i \<le> n1" "n1 \<le> n2" "n2 \<le> n3" "n3 \<le> n4" "n4 \<le> j"
    and calls: "set a \<subseteq> {ManagerTick}" "set b \<subseteq> {PeerTick, DisconnectAllPeers}" "set d \<subseteq> {EncodeScorer}"
      "new \<inter> {ManagerTick, PeerTick, DisconnectAllPeers, EncodeScorer} = set a \<union> set b \<union> set d"
    and fresh: "served E n1 n2 FRESHNESS_TIMER (last_freshness_call t) (last_freshness_call t') (a \<noteq> [])"
      "a \<noteq> [] \<longrightarrow> overdue E n1 n2 FRESHNESS_TIMER (last_freshness_call t)"
    and ping: "served E n2 n3 PING_TIMER (last_ping_call t) (last_ping_call t') (b \<noteq> [])"
      "PeerTick \<in> set b \<longrightarrow> overdue E n2 n3 PING_TIMER (last_ping_call t)"
      "DisconnectAllPeers \<in> set b \<longleftrightarrow> instant E (Suc i) - instant E i > 2000"
    and score: "scorer \<longrightarrow> served E n4 j SCORER_PERSIST_TIMER (last_scorer_persist_call t) (last_scorer_persist_call t') (d \<noteq> [])"
      "d \<noteq> [] \<longrightarrow> scorer \<and> overdue E n4 j SCORER_PERSIST_TIMER (last_scorer_persist_call t)"
    using turn_timers [OF assms(1), folded assms(2-4)] .
  have made: "ManagerTick \<in> new \<longleftrightarrow> a \<noteq> []" "PeerTick \<in> new \<or> DisconnectAllPeers \<in> new \<longleftrightarrow> b \<noteq> []"
    "EncodeScorer \<in> new \<longleftrightarrow> d \<noteq> []" "PeerTick \<in> new \<longleftrightarrow> PeerTick \<in> set b"
    "DisconnectAllPeers \<in> new \<longleftrightarrow> DisconnectAllPeers \<in> set b"
    using calls by (cases a; cases b; cases d; auto)+
  have order: "n2 \<le> j" "i \<le> n2" "n3 \<le> j" "i \<le> n4" using n by simp_all
  have "scorer \<longrightarrow> served E i j SCORER_PERSIST_TIMER (last_scorer_persist_call t) (last_scorer_persist_call t') (d \<noteq> [])"
    using score(1) served_wider [OF _ order(4) order_refl] by blast
  moreover have "d \<noteq> [] \<longrightarrow> scorer \<and> overdue E i j SCORER_PERSIST_TIMER (last_scorer_persist_call t)"
    using score(2) overdue_wider [OF _ order(4) order_refl] by blast
  moreover have "a \<noteq> [] \<longrightarrow> overdue E i j FRESHNESS_TIMER (last_freshness_call t)"
    using fresh(2) overdue_wider [OF _ n(1) order(1)] by blast
  moreover have "PeerTick \<in> set b \<longrightarrow> overdue E i j PING_TIMER (last_ping_call t)"
    using ping(2) overdue_wider [OF _ order(2,3)] by blast
  ultimately show ?thesis
    unfolding made(2) unfolding made(1,3-) using served_wider [OF fresh(1) n(1) order(1)] served_wider [OF ping(1) order(2,3)] ping(3) by blast
qed

lemma turn_goes_on:
  assumes "\<And>made. awaits E made \<noteq> Some True" "before_timers E g p net s = (Ok (w, slept), s1)"
  shows "w \<noteq> Some True"
  using assms unfolding before_timers_def by (auto elim!: pbind_OkE split: if_splits)

lemma timers_keep_break:
  assumes "serve_timers E g scorer p slept t s = (Ok t', s')"
  shows "should_break t' = should_break t"
proof -
  obtain s2 t2 s3 t3 s4 t4 where "tick_manager E t s = (Ok t2, s2)" "tick_peers E slept t2 s2 = (Ok t3, s3)"
    and pg: "prune_graph E g p t3 s3 = (Ok t4, s4)" and ps: "persist_scorer_in_time E scorer p t4 s4 = (Ok t', s')"
    using serve_timers_cases [OF assms] .
  then have "should_break t2 = should_break t" "should_break t3 = should_break t2"
    by (auto simp: tick_manager_run tick_peers_run split: if_splits)
  moreover have "should_break t4 = should_break t3" by (rule prune_graph_cases [OF pg])
  moreover have "should_break t' = should_break t4" by (rule scorer_serves [OF ps])
  ultimately show ?thesis by simp
qed

lemma loop_never_ends:
  assumes "\<And>made. awaits E made \<noteq> Some True" "\<not> should_break t"
  shows "bg_loop E g scorer p net fuel t s \<noteq> Some (Ok (), s')"
  using assms(2)
proof (induction fuel arbitrary: t s)
  case (Suc fuel)
  show ?case
  proof (cases "bg_turn E g scorer p net t s")
    case (Pair r u)
    show ?thesis
    proof (cases r)
      case (Ok v)
      obtain stop t' where v: "v = (stop, t')" by fastforce
      obtain w slept s1 where one: "before_timers E g p net s = (Ok (w, slept), s1)"
        and stop: "stop \<longleftrightarrow> should_break (timers_awaited w t)"
        and rest: "if stop then t' = timers_awaited w t \<and> u = s1
          else serve_timers E g scorer p slept (timers_awaited w t) s1 = (Ok t', u)"
        using bg_turn_cases Pair Ok v by metis
      have "\<not> stop"
        using stop Suc.prems turn_goes_on [OF assms(1) one] by (auto simp: timers_awaited_def split: option.splits)
      with rest stop have "\<not> should_break t'" by (simp add: timers_keep_break)
      from Suc.IH [OF this] \<open>\<not> stop\<close> show ?thesis by (simp add: Pair Ok v)
    qed (simp_all add: Pair)
  qed
qed simp

text \<open>
  C26: with a sleeper that never asks to stop, as the node's, the processor ends when the channel
  manager has an update before the first sleep is over, after it has stored the manager twice and
  served no timer; otherwise it never returns.
\<close>

theorem an_early_update_ends_the_processor:
  assumes "\<And>made. awaits E made \<noteq> Some True" "bg_start E s = (Ok t, s1)" "before_timers E g p net s1 = (Ok (w, slept), s2)"
  shows "if w = None then process_events_async E g scorer p net (Suc fuel) s = Some (bg_leave E g scorer p s2)
    else process_events_async E g scorer p net fuel s \<noteq> Some (Ok (), s')"
proof (cases w)
  case None
  have "should_break t" using assms(2) by (auto simp: bg_start_def)
  with None assms(2,3) show ?thesis
    by (simp add: process_events_async_def bg_turn_halves timers_awaited_def pbind_def)
next
  case (Some exit)
  then have exit: "\<not> exit" using turn_goes_on [OF assms(1,3)] by simp
  show ?thesis
  proof (cases fuel)
    case (Suc n)
    obtain r u where u: "serve_timers E g scorer p slept (t\<lparr>should_break := False\<rparr>) s2 = (r, u)" by fastforce
    have "bg_loop E g scorer p net n t' u \<noteq> Some (Ok (), s')" if "r = Ok t'" for t'
      using loop_never_ends [OF assms(1)] timers_keep_break [OF u [unfolded that]] by simp
    with Some exit u assms(2,3) Suc show ?thesis
      by (cases r) (auto simp: process_events_async_def bg_turn_halves timers_awaited_def pbind_def)
  qed (use Some assms(2) in \<open>simp add: process_events_async_def\<close>)
qed

section \<open>The node's processor\<close>

text \<open>The loop of \<open>Node::new\<close> that starts the processor again when it has ended, \<open>n\<close> times.\<close>

fun node_background ::
  "'x bg_env_scheme \<Rightarrow> MutinyNodePersister \<Rightarrow> Network \<Rightarrow> nat \<Rightarrow> nat \<Rightarrow> bg_state \<Rightarrow>
   ((unit, MutinyError) result \<times> bg_state) option" where
  "node_background E p net fuel 0 s = Some (Ok (), s)"
| "node_background E p net fuel (Suc n) s =
     (case process_events_async E NoGossip True p net fuel s of
        None \<Rightarrow> None
      | Some (Ok _, s') \<Rightarrow> node_background E p net fuel n s'
      | Some (_, s') \<Rightarrow> Some (Panic, s'))"

definition ticks :: "bg_state \<Rightarrow> nat" where
  "ticks s = length (filter (\<lambda>c. c = ManagerTick) (bg_calls s))"

lemma ticks_simps:
  "ticks (snd (store_object E p key EncodeManager s)) = ticks s" "ticks (snd (store_object E p key EncodeScorer s)) = ticks s"
  by (simp_all add: ticks_def store_object_frame)

lemma leave_ticks: "ticks (snd (bg_leave E NoGossip scorer p s)) = ticks s"
proof -
  have "ticks (snd (pbind m k u)) = ticks u"
    if "ticks (snd (m u)) = ticks u" "\<And>v u'. ticks (snd (k v u')) = ticks u'" for m :: "unit bg_prog" and k :: "unit \<Rightarrow> unit bg_prog" and u
    using that by (auto simp: pbind_def split: prod.split result.split)
  then show ?thesis
    unfolding bg_leave_def by (auto simp: ticks_simps)
qed

text \<open>
  As long as the channel manager always has an update by the time the processor waits, the node
  starts the processor over and over, and each start ticks LDK's channel manager, whatever time has
  passed since the last tick.
\<close>

theorem updates_tick_without_time:
  assumes "\<And>made. awaits E made = None" "node_background E p net (Suc fuel) n s = Some (r, s')" "r \<noteq> Panic"
  shows "ticks s' = ticks s + n"
  using assms(2,3)
proof (induction n arbitrary: s)
  case (Suc n)
  obtain t s1 where start: "bg_start E s = (Ok t, s1)" "should_break t" "ticks s1 = Suc (ticks s)"
    by (simp add: bg_start_def ticks_def)
  obtain q s2 where one: "before_timers E NoGossip p net s1 = (q, s2)" by fastforce
  show ?case
  proof (cases q)
    case (Ok v)
    then obtain w slept where v: "before_timers E NoGossip p net s1 = (Ok (w, slept), s2)" using one by (cases v) simp
    obtain more where m: "bg_calls s2 = bg_calls s1 @ more" "w = None \<longleftrightarrow> EncodeManager \<in> set more"
      "set more \<inter> {ManagerTick, PeerTick, DisconnectAllPeers, EncodeScorer} = {}"
      using before_timers_cases [OF v] by metis
    have w: "w = None"
      using v assms(1) unfolding before_timers_def by (auto elim!: pbind_OkE split: if_splits)
    obtain l u where leave: "bg_leave E NoGossip True p s2 = (l, u)" by fastforce
    have "process_events_async E NoGossip True p net (Suc fuel) s = Some (l, u)"
      using start v w leave by (simp add: process_events_async_def bg_turn_halves timers_awaited_def pbind_def)
    with Suc.prems obtain i where l: "l = Ok i" and rest: "node_background E p net (Suc fuel) n u = Some (r, s')"
      by (cases l) auto
    have "ticks u = ticks s2" using leave_ticks [of E True p s2] leave by simp
    moreover have "ticks s2 = ticks s1" using m(1,3) by (auto simp: ticks_def filter_empty_conv)
    ultimately show ?thesis using Suc.IH [OF rest Suc.prems(2)] start(3) by simp
  qed (use Suc.prems start one in \<open>simp_all add: process_events_async_def bg_turn_halves pbind_def\<close>)
qed simp

section \<open>What a turn leaves in the storage\<close>

text \<open>The keys LDK documents for its persister.\<close>

definition persister_keys_ok :: "'x bg_env_scheme \<Rightarrow> bool" where
  "persister_keys_ok E \<longleftrightarrow> manager_store_key E = ''manager'' \<and> scorer_store_key E = ''scorer'' \<and>
     graph_store_key E = ''network_graph''"

lemma store_object_other:
  assumes "store_object E p key what s = (r, s')" "key \<noteq> key'"
  shows "mbs_get E c (storage p) (get_key p key') (store (bg_node s')) = mbs_get E c (storage p) (get_key p key') (store (bg_node s))"
proof -
  obtain q b' where q: "persist E p key (encoding_of E (bg_calls s @ [what])) (store (bg_node s)) = (q, b')"
    and s': "s' = s\<lparr>bg_calls := bg_calls s @ [what], bg_node := (bg_node s)\<lparr>store := b'\<rparr>\<rparr>"
    using store_object_cases [OF assms(1)] .
  obtain r0 where "mbs_set E (json_bytes E) (storage p) (get_key p key) (encoding_of E (bg_calls s @ [what])) (store (bg_node s)) = (r0, b')"
    using persist_cases [OF q] by blast
  from mbs.put_frame [OF this, of "get_key p key'"] assms(2) have "raw_item b' (get_key p key') = raw_item (store (bg_node s)) (get_key p key')"
    by simp
  from mbs_get_cong [OF this, of E c "storage p"] show ?thesis by (simp add: s')
qed

lemma timers_other_keys:
  assumes "serve_timers E g scorer p slept t s = (Ok t', s')" "scorer_store_key E \<noteq> key" "graph_store_key E \<noteq> key"
  shows "mbs_get E c (storage p) (get_key p key) (store (bg_node s')) = mbs_get E c (storage p) (get_key p key) (store (bg_node s))"
proof -
  obtain s2 t2 s3 t3 s4 t4 where tm: "tick_manager E t s = (Ok t2, s2)" and tp: "tick_peers E slept t2 s2 = (Ok t3, s3)"
    and pg: "prune_graph E g p t3 s3 = (Ok t4, s4)" and ps: "persist_scorer_in_time E scorer p t4 s4 = (Ok t', s')"
    using serve_timers_cases [OF assms(1)] .
  have "bg_node s2 = bg_node s" "bg_node s3 = bg_node s2"
    using tm tp by (auto simp: tick_manager_run tick_peers_run split: if_splits)
  moreover have "mbs_get E c (storage p) (get_key p key) (store (bg_node s4)) = mbs_get E c (storage p) (get_key p key) (store (bg_node s3))"
    using pg assms(3) unfolding prune_graph_def
    by (auto elim!: pbind_OkE split: if_splits dest!: store_object_other [where key' = key])
  moreover have "mbs_get E c (storage p) (get_key p key) (store (bg_node s')) = mbs_get E c (storage p) (get_key p key) (store (bg_node s4))"
    using ps assms(2) unfolding persist_scorer_in_time_def
    by (auto elim!: pbind_OkE split: if_splits dest!: store_object_other [where key' = key])
  ultimately show ?thesis by simp
qed

text \<open>
  C22: when the wait of a turn reports an update and the storage has room, the node that opens again
  after the turn reads back the channel manager as it was encoded in the turn, whatever the turn
  stored afterwards.
\<close>

theorem restart_finds_the_update:
  assumes "ldk_ok E" "persister_keys_ok E" "\<And>key bs b. fst (persist E p key bs b) = Ok ()"
    and "bg_turn E g scorer p net t s = (Ok (stop, t'), s')" "before_timers E g p net s = (Ok (None, slept), s1)"
  shows "read_channel_manager E decode fresh p monitors height hash (store (bg_node s')) =
    (case decode (encoding_of E (bg_calls s1)) monitors of
       None \<Rightarrow> Err (ReadError OtherStorageError)
     | Some c \<Rightarrow> Ok \<lparr>channel_manager = c, is_restarting = True, channel_monitors = monitors\<rparr>)"
proof -
  have keys: "manager_store_key E = CHANNEL_MANAGER_KEY" "scorer_store_key E \<noteq> CHANNEL_MANAGER_KEY"
    "graph_store_key E \<noteq> CHANNEL_MANAGER_KEY"
    using assms(2) by (simp_all add: persister_keys_ok_def CHANNEL_MANAGER_KEY_def)
  obtain s0 where s0: "store_object E p (manager_store_key E) EncodeManager s0 = (Ok (), s1)"
    by (rule before_timers_parts [OF assms(5)]) simp
  obtain q b' where st: "persist E p (manager_store_key E) (encoding_of E (bg_calls s0 @ [EncodeManager])) (store (bg_node s0)) = (q, b')"
    "s1 = s0\<lparr>bg_calls := bg_calls s0 @ [EncodeManager], bg_node := (bg_node s0)\<lparr>store := b'\<rparr>\<rparr>"
    using store_object_cases [OF s0] .
  then have q: "persist E p CHANNEL_MANAGER_KEY (encoding_of E (bg_calls s1)) (store (bg_node s0)) = (q, b')"
    and s1: "store (bg_node s1) = b'"
    by (simp_all add: keys(1))
  have "q = Ok ()" using assms(3) q by (metis fst_conv)
  obtain r0 where r0: "mbs_set E (json_bytes E) (storage p) (get_key p CHANNEL_MANAGER_KEY)
      (encoding_of E (bg_calls s1)) (store (bg_node s0)) = (r0, b')" "q = map_err (\<lambda>_. IoError) r0"
    using persist_cases [OF q] by blast
  with \<open>q = Ok ()\<close> have "r0 = Ok ()" by (metis map_err_Ok_iff)
  with r0(1) have "mbs_set E (json_bytes E) (storage p) (get_key p CHANNEL_MANAGER_KEY)
      (encoding_of E (bg_calls s1)) (store (bg_node s0)) = (Ok (), b')" by simp
  then have read: "mbs_get E (json_bytes E) (storage p) (get_key p CHANNEL_MANAGER_KEY) (store (bg_node s1)) =
      Ok (encoding_of E (bg_calls s1))"
    unfolding s1 by (intro mbs.put_get) (simp_all add: ldk_okD [OF assms(1)])
  obtain w sl u where turn: "before_timers E g p net s = (Ok (w, sl), u)"
    "if stop then t' = timers_awaited w t \<and> s' = u
     else serve_timers E g scorer p sl (timers_awaited w t) u = (Ok t', s')"
    using bg_turn_cases [OF assms(4)] by metis
  then have "u = s1" using assms(5) by simp
  with turn(2) have "mbs_get E (json_bytes E) (storage p) (get_key p CHANNEL_MANAGER_KEY) (store (bg_node s')) =
      mbs_get E (json_bytes E) (storage p) (get_key p CHANNEL_MANAGER_KEY) (store (bg_node s1))"
    by (cases stop) (simp_all add: timers_other_keys keys(2,3))
  with read show ?thesis by (simp add: read_channel_manager_def read_value_def split: option.split)
qed

text \<open>What the events of a turn ask to be recorded, one after the other.\<close>

definition book :: "u64 \<Rightarrow> Event \<Rightarrow> payment_map \<Rightarrow> payment_map" where
  "book t ev m = (case recorded t m ev of Some (h, i, info) \<Rightarrow> m((h, i) \<mapsto> info) | None \<Rightarrow> m)"

lemma handler_books:
  assumes "ldk_ok E" "\<And>b x. takes E p b x" "async_event_handler E g p net ev s = (Ok (), s')"
  shows "\<exists>t. payments E p (store (bg_node s')) = book t ev (payments E p (store (bg_node s)))"
proof -
  let ?s1 = "if network_graph g \<and> ev = PaymentPathFailed then s\<lparr>bg_calls := bg_calls s @ [GraphSees ev]\<rparr> else s"
  have "on_node (handle_event E p net ev) ?s1 = (Ok (), s')"
    using assms(3) by (auto simp: async_event_handler_def handle_network_graph_update_def split: if_splits)
  moreover have "bg_node ?s1 = bg_node s" by simp
  ultimately obtain n where n: "handle_event E p net ev (bg_node s) = (Ok (), n)" "bg_node s' = n"
    by (auto simp: on_node_def split: prod.splits)
  have "payments E p (store n) = book (now E (clock_reads (bg_node s))) ev (payments E p (store (bg_node s)))"
    using handle_event_record [OF assms(1) n(1)] assms(2)
    by (simp add: record_in_def book_def split: option.split)
  with n(2) show ?thesis by blast
qed

lemma all_books:
  assumes "ldk_ok E" "\<And>b x. takes E p b x" "handle_all E g p net evs s = (Ok (), s')"
  shows "\<exists>ts. length ts = length evs \<and> payments E p (store (bg_node s')) =
    fold (\<lambda>(t, ev). book t ev) (zip ts evs) (payments E p (store (bg_node s)))"
  using assms(3)
proof (induction evs arbitrary: s)
  case (Cons ev evs)
  then obtain u where u: "async_event_handler E g p net ev s = (Ok (), u)" "handle_all E g p net evs u = (Ok (), s')"
    by (auto elim!: pbind_OkE)
  obtain t where t: "payments E p (store (bg_node u)) = book t ev (payments E p (store (bg_node s)))"
    using handler_books [OF assms(1,2) u(1)] by blast
  obtain ts where "length ts = length evs"
    "payments E p (store (bg_node s')) = fold (\<lambda>(t, ev). book t ev) (zip ts evs) (payments E p (store (bg_node u)))"
    using Cons.IH [OF u(2)] by blast
  with t show ?case by (intro exI [of _ "t # ts"]) simp
qed simp

lemma pending_books:
  assumes "ldk_ok E" "\<And>b x. takes E p b x" "process_pending_events E g p net from s = (Ok (), s')"
  shows "\<exists>ts. length ts = length (events_of E (bg_calls s @ [from])) \<and> payments E p (store (bg_node s')) =
    fold (\<lambda>(t, ev). book t ev) (zip ts (events_of E (bg_calls s @ [from]))) (payments E p (store (bg_node s)))"
  using all_books [OF assms(1,2), of g net "events_of E (bg_calls s @ [from])" "s\<lparr>bg_calls := bg_calls s @ [from]\<rparr>" s'] assms(3)
  by (simp add: process_pending_events_def)

lemma payments_reads_cong:
  assumes "\<And>i h. mbs_get E (json_payment E) (storage p) (get_key p (payment_key E i h)) b' =
    mbs_get E (json_payment E) (storage p) (get_key p (payment_key E i h)) b"
  shows "payments E p b' = payments E p b"
  using assms by (simp add: payments_def read_payment_info_def)

lemma payment_key_apart:
  "persister_keys_ok E \<Longrightarrow> manager_store_key E \<noteq> payment_key E i h \<and> scorer_store_key E \<noteq> payment_key E i h \<and>
     graph_store_key E \<noteq> payment_key E i h"
  by (cases h) (auto simp: persister_keys_ok_def payment_prefix_def storage_key_defs)

text \<open>
  C10: a turn implements the abstract step on the map of payments: with room in the storage it books
  the events of the channel manager, then those of the chain monitor, each at some time, in order,
  and what else it stores leaves the payments alone.
\<close>

theorem turn_books_the_events:
  assumes "ldk_ok E" "persister_keys_ok E" "\<And>b x. takes E p b x" "bg_turn E g scorer p net t s = (Ok (stop, t'), s')"
  shows "\<exists>made ts evs. evs = events_of E (bg_calls s @ [ManagerEvents]) @ events_of E (bg_calls s @ ManagerEvents # made @ [MonitorEvents]) \<and>
    length ts = length evs \<and>
    payments E p (store (bg_node s')) = fold (\<lambda>(t, ev). book t ev) (zip ts evs) (payments E p (store (bg_node s)))"
proof -
  obtain w sl u where bt: "before_timers E g p net s = (Ok (w, sl), u)"
    and rest: "if stop then t' = timers_awaited w t \<and> s' = u
     else serve_timers E g scorer p sl (timers_awaited w t) u = (Ok t', s')"
    using bg_turn_cases [OF assms(4)] by metis
  obtain s1 s2 s3 where one: "process_pending_events E g p net ManagerEvents s = (Ok (), s1)"
    and two: "process_pending_events E g p net MonitorEvents s1 = (Ok (), s2)"
    and "s3 = s2\<lparr>bg_calls := bg_calls s2 @ [PeerEvents, AwaitUpdate], instants := Suc (Suc (instants s2))\<rparr>"
    and "w = awaits E (bg_calls s3)" and "sl = instant E (Suc (instants s2)) - instant E (instants s2)"
    and u: "(if w = None then store_object E p (manager_store_key E) EncodeManager s3 else (Ok (), s3)) = (Ok (), u)"
    using before_timers_parts [OF bt] .
  then have s3: "bg_node s3 = bg_node s2" by simp
  have "payments E p (store (bg_node s')) = payments E p (store (bg_node u))"
  proof (cases stop)
    case False
    with rest have served: "serve_timers E g scorer p sl (timers_awaited w t) u = (Ok t', s')" by simp
    show ?thesis
      by (intro payments_reads_cong timers_other_keys [OF served]) (simp_all add: payment_key_apart [OF assms(2)])
  qed (use rest in simp)
  also have "\<dots> = payments E p (store (bg_node s2))"
  proof (cases "w = None")
    case True
    with u have stored: "store_object E p (manager_store_key E) EncodeManager s3 = (Ok (), u)" by simp
    have "payments E p (store (bg_node u)) = payments E p (store (bg_node s3))"
      by (intro payments_reads_cong store_object_other [OF stored]) (simp add: payment_key_apart [OF assms(2)])
    then show ?thesis by (simp add: s3)
  qed (use u s3 in auto)
  finally have after: "payments E p (store (bg_node s')) = payments E p (store (bg_node s2))" .
  obtain ts1 where ts1: "length ts1 = length (events_of E (bg_calls s @ [ManagerEvents]))"
    "payments E p (store (bg_node s1)) =
      fold (\<lambda>(t, ev). book t ev) (zip ts1 (events_of E (bg_calls s @ [ManagerEvents]))) (payments E p (store (bg_node s)))"
    using pending_books [OF assms(1,3) one] by blast
  obtain ts2 where ts2: "length ts2 = length (events_of E (bg_calls s1 @ [MonitorEvents]))"
    "payments E p (store (bg_node s2)) =
      fold (\<lambda>(t, ev). book t ev) (zip ts2 (events_of E (bg_calls s1 @ [MonitorEvents]))) (payments E p (store (bg_node s1)))"
    using pending_books [OF assms(1,3) two] by blast
  obtain made where "bg_calls s1 = bg_calls s @ ManagerEvents # made"
    using process_pending_frame [OF one] by metis
  then show ?thesis
    using ts1 ts2 after by (intro exI [of _ made] exI [of _ "ts1 @ ts2"]) simp
qed

section \<open>A concrete run\<close>

instance HTLCStatus :: countable by countable_datatype

instance MillisatAmount :: countable by countable_datatype

text \<open>A codec that takes every value, from an injection into the numbers.\<close>

definition coded :: "('a \<Rightarrow> nat) \<Rightarrow> 'a codec" where
  "coded f = \<lparr>to_json = (\<lambda>v. Some (replicate (f v) CHR ''a'')), from_json = (\<lambda>s. Some (inv f (length s)))\<rparr>"

lemma coded_ok: "inj f \<Longrightarrow> codec_ok (coded f)"
  by (auto simp: codec_ok_def coded_def intro!: utf8_valid_string)

definition payment_nat :: "PaymentInfo \<Rightarrow> nat" where
  "payment_nat i = to_nat (preimage i, secret i, status i, amt_msat i, fee_paid_msat i, bolt11 i, last_update i)"

lemma payment_nat_inj: "inj payment_nat"
  by (rule injI) (auto simp: payment_nat_def intro: PaymentInfo.equality)

definition demo_bg :: "bool option \<Rightarrow> (nat \<Rightarrow> real) \<Rightarrow> Event list \<Rightarrow> bg_env" where
  "demo_bg woken clock evs =
     pay_env.extend ((demo_pay [] True)\<lparr>json_bytes := coded to_nat, json_payment := coded payment_nat\<rparr>)
       (bg_env.fields clock (\<lambda>_. evs) (\<lambda>_. woken) (\<lambda>made. [of_nat (length made)]) (\<lambda>_. False)
          ''manager'' ''scorer'' ''network_graph'')"

lemmas demo_bg_defs = demo_bg_def pay_env.defs bg_env.defs

lemma demo_bg_simps [simp]:
  "instant (demo_bg w clock evs) = clock" "events_of (demo_bg w clock evs) made = evs" "awaits (demo_bg w clock evs) made = w"
  "json_bytes (demo_bg w clock evs) = coded to_nat" "json_payment (demo_bg w clock evs) = coded payment_nat"
  "persister_keys_ok (demo_bg w clock evs)"
  by (simp_all add: demo_bg_defs persister_keys_ok_def)

lemma demo_bg_ok: "ldk_ok (demo_bg w clock evs)"
proof -
  have "bdk_ok (demo_bg w clock evs) \<longleftrightarrow> bdk_ok ((demo_pay [] True)\<lparr>json_bytes := coded to_nat\<rparr>)"
    unfolding bdk_ok_def web_ok_def crypto_ok_def by (simp add: demo_bg_defs)
  moreover have "bdk_ok ((demo_pay [] True)\<lparr>json_bytes := coded to_nat\<rparr>)"
    using ldk_okD(1) [OF demo_pay_ok [of "[]" True]] coded_ok [OF inj_to_nat]
    unfolding bdk_ok_def web_ok_def crypto_ok_def by simp
  ultimately show ?thesis
    using ldk_okD(6) [OF demo_pay_ok [of "[]" True]] coded_ok [OF payment_nat_inj]
    by (simp add: ldk_ok_def demo_bg_defs)
qed

lemma demo_bg_set: "\<exists>b'. mbs_set (demo_bg w clock evs) (coded f) plain key v b = (Ok (), b')"
  by (rule set_plain [where data = "replicate (f v) CHR ''a''"]) (simp_all add: demo_bg_defs demo_pay_defs demo_web_def coded_def ascii_def)

lemma demo_bg_persist: "fst (persist (demo_bg w clock evs) demo_persister key bs b) = Ok ()"
proof -
  obtain b' where "mbs_set (demo_bg w clock evs) (coded to_nat) plain (get_key demo_persister key) bs b = (Ok (), b')"
    using demo_bg_set [of w clock evs to_nat "get_key demo_persister key" bs b] by auto
  then show ?thesis by (simp add: persist_def demo_uuids pmap_err_def)
qed

lemma demo_bg_takes: "takes (demo_bg w clock evs) demo_persister b x"
proof -
  obtain h i info where x: "x = (h, i, info)" by (cases x)
  obtain b' where "mbs_set (demo_bg w clock evs) (coded payment_nat) plain
      (get_key demo_persister (payment_key (demo_bg w clock evs) i h)) info b = (Ok (), b')"
    using demo_bg_set [of w clock evs payment_nat "get_key demo_persister (payment_key (demo_bg w clock evs) i h)" info b] by auto
  then have "persist_payment_info (demo_bg w clock evs) demo_persister h info i b = (Ok (), b')"
    by (simp add: demo_uuids)
  then show ?thesis by (simp add: takes_def x del: persist_payment_info_iff)
qed

definition demo_bg_state :: bg_state where
  "demo_bg_state = \<lparr>bg_node = demo_state, bg_calls = [], instants = 0\<rparr>"

abbreviation slow_clock :: "nat \<Rightarrow> real" where "slow_clock \<equiv> \<lambda>k. 100000 * real k"

definition demo_timers :: bg_timers where
  "demo_timers = \<lparr>last_freshness_call = 0, last_ping_call = 0, last_prune_call = 0, last_scorer_persist_call = 0,
     have_pruned = False, should_break = False\<rparr>"

lemma demo_pending: "process_pending_events (demo_bg w clock []) g p net c s = (Ok (), s\<lparr>bg_calls := bg_calls s @ [c]\<rparr>)"
  by (simp add: process_pending_events_def)

lemma pbind_pending [simp]:
  "pbind (process_pending_events (demo_bg w clock []) g p net c) k s = k () (s\<lparr>bg_calls := bg_calls s @ [c]\<rparr>)"
  by (simp add: pbind_def demo_pending)

lemma turn_serves_the_timers_witness:
  "\<exists>t' s'. bg_turn (demo_bg (Some False) slow_clock []) NoGossip False demo_persister NetRegtest demo_timers demo_bg_state =
      (Ok (False, t'), s') \<and> ManagerTick \<in> new_calls demo_bg_state s' \<and> DisconnectAllPeers \<in> new_calls demo_bg_state s'"
proof -
  let ?E = "demo_bg (Some False) slow_clock []"
  obtain t' s' where run: "bg_turn ?E NoGossip False demo_persister NetRegtest demo_timers demo_bg_state = (Ok (False, t'), s')"
    "ManagerTick \<in> new_calls demo_bg_state s'"
    by (simp add: bg_turn_def pbind_def demo_pending bg_call_def read_instant_def tick_manager_run tick_peers_run
        prune_graph_def persist_scorer_in_time_def due_def pread_def demo_timers_def demo_bg_state_def timer_defs new_calls_def)
  with turn_serves_the_timers [OF run(1) refl refl refl] show ?thesis by (simp add: demo_bg_state_def)
qed

lemma demo_stored: "\<exists>s'. store_object (demo_bg w clock evs) demo_persister key what s = (Ok (), s')"
proof -
  obtain r s' where run: "store_object (demo_bg w clock evs) demo_persister key what s = (r, s')" by fastforce
  obtain q b' where "persist (demo_bg w clock evs) demo_persister key (encoding_of (demo_bg w clock evs) (bg_calls s @ [what]))
      (store (bg_node s)) = (q, b')" "r = (if q = Panic then Panic else Ok ())"
    using store_object_cases [OF run] by metis
  moreover from this demo_bg_persist have "q = Ok ()" by (metis fst_conv)
  ultimately show ?thesis using run by simp
qed

lemma demo_before_timers: "\<exists>slept s1. before_timers (demo_bg None clock []) g demo_persister net s = (Ok (None, slept), s1)"
proof -
  let ?s = "s\<lparr>bg_calls := bg_calls s @ [ManagerEvents, MonitorEvents, PeerEvents, AwaitUpdate], instants := Suc (Suc (instants s))\<rparr>"
  obtain s1 where "store_object (demo_bg None clock []) demo_persister (manager_store_key (demo_bg None clock [])) EncodeManager ?s = (Ok (), s1)"
    using demo_stored by blast
  then show ?thesis by (simp add: before_timers_def pbind_Ok_iff)
qed

lemma an_early_update_ends_the_processor_witness:
  "\<exists>s2. process_events_async (demo_bg None (\<lambda>_. 0) []) NoGossip True demo_persister NetRegtest 1 demo_bg_state =
    Some (bg_leave (demo_bg None (\<lambda>_. 0) []) NoGossip True demo_persister s2)"
proof -
  let ?E = "demo_bg None (\<lambda>_. 0) []"
  obtain t s1 where start: "bg_start ?E demo_bg_state = (Ok t, s1)" by (simp add: bg_start_def)
  obtain slept s2 where "before_timers ?E NoGossip demo_persister NetRegtest s1 = (Ok (None, slept), s2)"
    using demo_before_timers by blast
  from an_early_update_ends_the_processor [OF _ start this, of True 0] show ?thesis by auto
qed

lemma demo_leave: "\<exists>s'. bg_leave (demo_bg w clock evs) NoGossip True demo_persister s = (Ok (), s')"
proof -
  obtain s1 where one: "store_object (demo_bg w clock evs) demo_persister (manager_store_key (demo_bg w clock evs)) EncodeManager s = (Ok (), s1)"
    using demo_stored by blast
  obtain s2 where "store_object (demo_bg w clock evs) demo_persister (scorer_store_key (demo_bg w clock evs)) EncodeScorer s1 = (Ok (), s2)"
    using demo_stored by blast
  with one show ?thesis by (simp add: bg_leave_def pbind_def)
qed

lemma demo_restart:
  "\<exists>s'. process_events_async (demo_bg None clock []) NoGossip True demo_persister net (Suc fuel) s = Some (Ok (), s')"
proof -
  let ?E = "demo_bg None clock []"
  obtain t s1 where start: "bg_start ?E s = (Ok t, s1)" "should_break t" by (simp add: bg_start_def)
  obtain slept s2 where one: "before_timers ?E NoGossip demo_persister net s1 = (Ok (None, slept), s2)"
    using demo_before_timers by blast
  obtain s' where "bg_leave ?E NoGossip True demo_persister s2 = (Ok (), s')" using demo_leave by blast
  with start one show ?thesis
    by (simp add: process_events_async_def bg_turn_halves timers_awaited_def pbind_def)
qed

lemma updates_tick_without_time_witness:
  "\<exists>s'. node_background (demo_bg None (\<lambda>_. 0) []) demo_persister NetRegtest 1 3 demo_bg_state = Some (Ok (), s') \<and> ticks s' = 3"
proof -
  let ?E = "demo_bg None (\<lambda>_. 0) []"
  have "\<exists>s'. node_background ?E demo_persister NetRegtest 1 n s = Some (Ok (), s')" for n s
  proof (induction n arbitrary: s)
    case (Suc n)
    obtain u where "process_events_async ?E NoGossip True demo_persister NetRegtest 1 s = Some (Ok (), u)"
      using demo_restart [of "\<lambda>_. 0" NetRegtest 0 s] by auto
    with Suc.IH [of u] show ?case by simp
  qed simp
  then obtain s' where run: "node_background ?E demo_persister NetRegtest (Suc 0) 3 demo_bg_state = Some (Ok (), s')" by auto
  from updates_tick_without_time [OF _ run] run show ?thesis by (simp add: demo_bg_state_def ticks_def)
qed

lemma demo_turn:
  "\<exists>t' s' slept s1. bg_turn (demo_bg None clock []) NoGossip True demo_persister net (demo_timers\<lparr>should_break := True\<rparr>) s = (Ok (True, t'), s') \<and>
    before_timers (demo_bg None clock []) NoGossip demo_persister net s = (Ok (None, slept), s1)"
proof -
  obtain slept s1 where "before_timers (demo_bg None clock []) NoGossip demo_persister net s = (Ok (None, slept), s1)"
    using demo_before_timers by blast
  then show ?thesis by (simp add: bg_turn_halves timers_awaited_def pbind_def)
qed

lemma restart_finds_the_update_witness:
  "\<exists>c (s' :: bg_state). read_channel_manager (demo_bg None slow_clock []) (\<lambda>bs _. Some bs) (\<lambda>_ _. []) demo_persister [] None None (store (bg_node s')) =
     Ok \<lparr>channel_manager = c, is_restarting = True, channel_monitors = ([] :: unit list)\<rparr>"
proof -
  let ?E = "demo_bg None slow_clock []"
  obtain t' s' slept s1 where turn: "bg_turn ?E NoGossip True demo_persister NetRegtest (demo_timers\<lparr>should_break := True\<rparr>) demo_bg_state = (Ok (True, t'), s')"
    "before_timers ?E NoGossip demo_persister NetRegtest demo_bg_state = (Ok (None, slept), s1)"
    using demo_turn by blast
  have "read_channel_manager ?E (\<lambda>bs _. Some bs) (\<lambda>_ _. []) demo_persister ([] :: unit list) None None (store (bg_node s')) =
     Ok \<lparr>channel_manager = encoding_of ?E (bg_calls s1), is_restarting = True, channel_monitors = []\<rparr>"
    using restart_finds_the_update [OF demo_bg_ok demo_bg_simps(6) demo_bg_persist turn, of "\<lambda>bs _. Some bs"] by simp
  then show ?thesis by (intro exI)
qed

lemma turn_books_the_events_witness:
  "\<exists>t' s'. bg_turn (demo_bg None slow_clock []) NoGossip True demo_persister NetRegtest (demo_timers\<lparr>should_break := True\<rparr>) demo_bg_state =
      (Ok (True, t'), s') \<and>
    payments (demo_bg None slow_clock []) demo_persister (store (bg_node s')) =
      payments (demo_bg None slow_clock []) demo_persister (store (bg_node demo_bg_state))"
proof -
  let ?E = "demo_bg None slow_clock []"
  obtain t' s' where turn: "bg_turn ?E NoGossip True demo_persister NetRegtest (demo_timers\<lparr>should_break := True\<rparr>) demo_bg_state = (Ok (True, t'), s')"
    using demo_turn by blast
  with turn_books_the_events [OF demo_bg_ok _ demo_bg_takes turn] show ?thesis by simp
qed

end
