(* ===== verification/Connection.thy ===== *)
theory Connection
  imports LdkStorage
begin

text \<open>
  Peers and how a node reaches them: connection strings (\<open>node-manager/src/node.rs\<close>), the URLs
  under which the websocket proxy is asked for a peer (\<open>node-manager/src/proxy.rs\<close>), the address
  the proxy makes of such a URL (\<open>ln-websocket-proxy/src/main.rs\<close>), connecting to a peer and the
  loop that reconnects stored peers. The network and LDK's peer manager are parameters: their
  answers may depend on all that was asked of them (the log \<open>asked\<close>).
\<close>

section \<open>Connection strings\<close>

datatype ConnectionType = Tcp string | Mutiny string

record PubkeyConnectionInfo =
  pubkey :: PublicKey
  connection_type :: ConnectionType
  original_connection_string :: string

definition split_peer_connection_string ::
  "(string \<Rightarrow> PublicKey option) \<Rightarrow> string \<Rightarrow> (PublicKey \<times> string, MutinyError) result" where
  "split_peer_connection_string from_str s =
     (case split_on CHR ''@'' s of
        key # peer_addr_str # _ \<Rightarrow>
          (case from_str key of
             None \<Rightarrow> Err PeerInfoParseFailed
           | Some pk \<Rightarrow> Ok (pk, peer_addr_str))
      | _ \<Rightarrow> Err PeerInfoParseFailed)"

definition parse_peer_info ::
  "(string \<Rightarrow> PublicKey option) \<Rightarrow> string \<Rightarrow> (PublicKey \<times> string, MutinyError) result" where
  "parse_peer_info from_str s =
     and_then (split_peer_connection_string from_str s) (\<lambda>(pk, peer_addr_str).
     Ok (pk, if CHR '':'' \<in> set peer_addr_str then peer_addr_str else peer_addr_str @ '':9735''))"

text \<open>
  \<open>PubkeyConnectionInfo::new\<close>. An empty string is refused through \<open>.context(..)?\<close>, which turns
  the error into an \<open>anyhow\<close> one.
\<close>

definition connection_info_new ::
  "(string \<Rightarrow> PublicKey option) \<Rightarrow> string \<Rightarrow> (PubkeyConnectionInfo, MutinyError) result" where
  "connection_info_new from_str connection0 =
     (if connection0 = [] then Err mutiny_of_anyhow
      else
        (let connection = to_lowercase connection0 in
         if starts_with connection ''mutiny:'' then
           and_then (of_option (strip_prefix connection ''mutiny:'')) (\<lambda>stripped_connection.
           and_then (split_peer_connection_string from_str stripped_connection) (\<lambda>(pk, peer_addr_str).
           Ok \<lparr>pubkey = pk, connection_type = Mutiny peer_addr_str, original_connection_string = connection\<rparr>))
         else
           and_then (parse_peer_info from_str connection) (\<lambda>(pk, peer_addr_str).
           Ok \<lparr>pubkey = pk, connection_type = Tcp peer_addr_str, original_connection_string = connection\<rparr>)))"

section \<open>URLs of the proxy\<close>

definition tcp_proxy_to_url :: "string \<Rightarrow> string \<Rightarrow> (string, MutinyError) result" where
  "tcp_proxy_to_url proxy_url peer_addr =
     (case split_on CHR '':'' peer_addr of
        host # port # _ \<Rightarrow>
          Ok (proxy_url @ ''/v1/'' @ replace_char CHR ''.'' CHR ''_'' host @ ''/'' @ port)
      | _ \<Rightarrow> Err PeerInfoParseFailed)"

definition mutiny_conn_proxy_to_url :: "string \<Rightarrow> string \<Rightarrow> string" where
  "mutiny_conn_proxy_to_url proxy_url peer_pubkey = proxy_url @ ''/v1/mutiny/'' @ peer_pubkey"

definition format_addr_from_url :: "string \<Rightarrow> string \<Rightarrow> string" where
  "format_addr_from_url ip port = replace_char CHR ''_'' CHR ''.'' ip @ '':'' @ port"

text \<open>The proxy's route \<open>/v1/:ip/:port\<close>: two path segments.\<close>

definition ws_route :: "string \<Rightarrow> (string \<times> string) option" where
  "ws_route path =
     (case split_on CHR ''/'' path of
        [root, v1, ip, port] \<Rightarrow> if root = [] \<and> v1 = ''v1'' then Some (ip, port) else None
      | _ \<Rightarrow> None)"

section \<open>Connecting\<close>

datatype NetAddress = IPv4 bytes "16 word" | IPv6 bytes "16 word"

datatype NetEffect =
    OpenWebSocket string
  | CreateSubsocket PublicKey
  | NewOutboundConnection PublicKey "NetAddress option"
  | SendData bytes
  | ScheduleRead PublicKey
  | DisconnectByNodeId PublicKey

record net_state =
  net_store :: browser
  asked :: "NetEffect list"

type_synonym 'a net_prog = "(net_state, 'a, MutinyError) prog"

record net_env = ldk_env +
  websocket_proxy_addr :: string
  opens :: "NetEffect list \<Rightarrow> bool"
  initial_bytes :: "NetEffect list \<Rightarrow> bytes option"
  peer_node_ids :: "NetEffect list \<Rightarrow> PublicKey list"
  master_connected :: "NetEffect list \<Rightarrow> bool"
  parse_socket_addr :: "string \<Rightarrow> NetAddress option"

definition ask :: "NetEffect \<Rightarrow> (NetEffect list \<Rightarrow> 'a) \<Rightarrow> 'a net_prog" where
  "ask e answer s = (let log = asked s @ [e] in (Ok (answer log), s\<lparr>asked := log\<rparr>))"

definition ws_proxy_new :: "'x net_env_scheme \<Rightarrow> string \<Rightarrow> PubkeyConnectionInfo \<Rightarrow> unit net_prog" where
  "ws_proxy_new E proxy_url info =
     pbind (case connection_type info of
              Tcp a \<Rightarrow> pread (\<lambda>_. tcp_proxy_to_url proxy_url a)
            | Mutiny url \<Rightarrow> preturn (mutiny_conn_proxy_to_url url (pubkey_to_string E (pubkey info)))) (\<lambda>url.
     pbind (ask (OpenWebSocket url) (opens E)) (\<lambda>ok.
     if ok then preturn () else perr ConnectionFailed))"

definition connect_peer :: "'x net_env_scheme \<Rightarrow> PubkeyConnectionInfo \<Rightarrow> unit net_prog" where
  "connect_peer E info =
     pbind (case connection_type info of
              Tcp t \<Rightarrow> pbind (ws_proxy_new E (websocket_proxy_addr E) info) (\<lambda>_. preturn (parse_socket_addr E t))
            | Mutiny _ \<Rightarrow> pbind (ask (CreateSubsocket (pubkey info)) (\<lambda>_. ())) (\<lambda>_. preturn None)) (\<lambda>socket_addr_opt.
     pbind (ask (NewOutboundConnection (pubkey info) socket_addr_opt) (initial_bytes E)) (\<lambda>res.
     case res of
       None \<Rightarrow> perr (mutiny_of_peer PeerHandleError)
     | Some bs \<Rightarrow>
         pbind (ask (SendData bs) (\<lambda>_. ())) (\<lambda>_.
         ask (ScheduleRead (pubkey info)) (\<lambda>_. ()))))"

definition connect_peer_if_necessary :: "'x net_env_scheme \<Rightarrow> PubkeyConnectionInfo \<Rightarrow> unit net_prog" where
  "connect_peer_if_necessary E info =
     pbind (pread (\<lambda>s. Ok (peer_node_ids E (asked s)))) (\<lambda>ids.
     if pubkey info \<in> set ids then preturn () else connect_peer E info)"

text \<open>\<open>Node::connect_peer\<close>: a failed write is only logged.\<close>

definition store_peer :: "'x net_env_scheme \<Rightarrow> MutinyNodePersister \<Rightarrow> PubkeyConnectionInfo \<Rightarrow> unit net_prog" where
  "store_peer E p info s =
     (case persist_peer_connection_info E p (pubkey_to_string E (pubkey info)) (original_connection_string info) (net_store s) of
        (Panic, b) \<Rightarrow> (Panic, s\<lparr>net_store := b\<rparr>)
      | (_, b) \<Rightarrow> (Ok (), s\<lparr>net_store := b\<rparr>))"

definition node_connect_peer ::
  "'x net_env_scheme \<Rightarrow> MutinyNodePersister \<Rightarrow> PubkeyConnectionInfo \<Rightarrow> unit net_prog" where
  "node_connect_peer E p info =
     pbind (connect_peer_if_necessary E info) (\<lambda>_.
     pbind (pread (\<lambda>s. read_peer_connection_info E p (pubkey_to_string E (pubkey info)) (net_store s))) (\<lambda>saved.
     case saved of
       Some str \<Rightarrow> if str \<noteq> original_connection_string info then store_peer E p info else preturn ()
     | None \<Rightarrow> store_peer E p info))"

text \<open>One round of the reconnection loop of \<open>Node::new\<close>.\<close>

definition auto_connect_one :: "'x net_env_scheme \<Rightarrow> PublicKey \<times> string \<Rightarrow> unit net_prog" where
  "auto_connect_one E = (\<lambda>(pk, conn_str).
     case connection_info_new (pubkey_from_str E) conn_str of
       Ok info \<Rightarrow> (\<lambda>s. case connect_peer E info s of (Err _, s') \<Rightarrow> (Ok (), s') | r \<Rightarrow> r)
     | Err _ \<Rightarrow> preturn ()
     | Panic \<Rightarrow> (\<lambda>s. (Panic, s)))"

fun each :: "('a \<Rightarrow> unit net_prog) \<Rightarrow> 'a list \<Rightarrow> unit net_prog" where
  "each f [] = preturn ()"
| "each f (x # xs) = pbind (f x) (\<lambda>_. each f xs)"

definition auto_connect_round :: "'x net_env_scheme \<Rightarrow> MutinyNodePersister \<Rightarrow> unit net_prog" where
  "auto_connect_round E p s =
     (if \<not> master_connected E (asked s) then (Ok (), s)
      else
        (case list_peer_connection_info E p (net_store s) of
           None \<Rightarrow> (Panic, s)
         | Some peer_connections \<Rightarrow>
             each (auto_connect_one E)
               (filter (\<lambda>(pk, _). pk \<notin> set (peer_node_ids E (asked s))) peer_connections) s))"

section \<open>What the strings mean\<close>

lemma split_peer_cases:
  assumes "split_peer_connection_string f s = Ok (pk, a)"
  obtains key rest where "split_on CHR ''@'' s = key # a # rest" "f key = Some pk"
  using assms by (auto simp: split_peer_connection_string_def split: list.splits option.splits)

lemma connection_info_cases:
  assumes "connection_info_new f s = Ok info"
  obtains (mutiny) stripped a where "to_lowercase s = ''mutiny:'' @ stripped"
      "split_peer_connection_string f stripped = Ok (pubkey info, a)" "connection_type info = Mutiny a"
      "original_connection_string info = to_lowercase s" "s \<noteq> []"
    | (tcp) a where "\<not> starts_with (to_lowercase s) ''mutiny:''"
      "parse_peer_info f (to_lowercase s) = Ok (pubkey info, a)" "connection_type info = Tcp a"
      "original_connection_string info = to_lowercase s" "s \<noteq> []"
proof (cases "starts_with (to_lowercase s) ''mutiny:''")
  case True
  then obtain stripped where "to_lowercase s = ''mutiny:'' @ stripped" by (auto simp: starts_with_iff)
  with True assms mutiny show ?thesis
    by (auto simp: connection_info_new_def Let_def and_then_Ok_iff strip_prefix_def split: if_splits)
next
  case False
  with assms tcp show ?thesis
    by (auto simp: connection_info_new_def Let_def and_then_Ok_iff split: if_splits)
qed

text \<open>
  The string a connection is remembered by describes the same connection: parsing it again
  gives the same peer, kind, address and string. Reconnecting from the stored string is therefore
  reconnecting to the same place.
\<close>

lemma connection_info_reparses:
  assumes "connection_info_new f s = Ok info"
  shows "connection_info_new f (original_connection_string info) = Ok info"
proof -
  have o: "original_connection_string info = to_lowercase s" "s \<noteq> []"
    using assms by (auto elim: connection_info_cases)
  then have "to_lowercase s \<noteq> []" by (simp add: to_lowercase_def)
  with assms o show ?thesis by (simp add: connection_info_new_def)
qed

lemma parse_peer_info_port:
  assumes "parse_peer_info f s = Ok (pk, a)"
  shows "CHR '':'' \<in> set a"
  using assms by (auto simp: parse_peer_info_def and_then_Ok_iff split: if_splits)

lemma split_on_two: "d \<in> set s \<Longrightarrow> \<exists>a b rest. split_on d s = a # b # rest"
proof -
  assume "d \<in> set s"
  then obtain a b where "s = a @ d # b" "d \<notin> set a" by (meson split_list_first)
  moreover obtain c rest where "split_on d b = c # rest" by (meson neq_Nil_conv split_on_nonempty)
  ultimately show ?thesis by (simp add: split_on_append)
qed

lemma replace_char_same_iff: "replace_char b a (replace_char a b s) = s \<longleftrightarrow> b \<notin> set s \<or> a = b"
  by (induction s) (auto simp: replace_char_def)

lemma replace_char_set: "c \<in> set (replace_char a b s) \<Longrightarrow> c = b \<or> c \<in> set s"
  by (auto simp: replace_char_def split: if_splits)

lemma tcp_url:
  assumes "CHR '':'' \<notin> set host" "CHR '':'' \<notin> set port"
  shows "tcp_proxy_to_url base (host @ '':'' @ port) =
    Ok (base @ ''/v1/'' @ replace_char CHR ''.'' CHR ''_'' host @ ''/'' @ port)"
  using assms by (simp add: tcp_proxy_to_url_def split_on_append split_on_no_delim)

text \<open>
  The proxy dials the peer that was asked for: the URL of a parsed TCP connection with one
  colon is routed by the proxy, and the address the proxy makes of it is the address of the
  connection string, if and only if the host has no underscore.
\<close>

theorem proxy_dials_the_peer:
  assumes "connection_info_new f s = Ok info" "connection_type info = Tcp (host @ '':'' @ port)"
    and "CHR '':'' \<notin> set host" "CHR '':'' \<notin> set port" "CHR ''/'' \<notin> set host" "CHR ''/'' \<notin> set port"
  shows "\<exists>path ip. tcp_proxy_to_url base (host @ '':'' @ port) = Ok (base @ path) \<and>
    ws_route path = Some (ip, port) \<and>
    (format_addr_from_url ip port = host @ '':'' @ port \<longleftrightarrow> CHR ''_'' \<notin> set host)"
proof -
  let ?ip = "replace_char CHR ''.'' CHR ''_'' host"
  let ?path = "''/v1/'' @ ?ip @ ''/'' @ port"
  have "CHR ''/'' \<notin> set ?ip" using assms(5) by (auto dest: replace_char_set)
  then have "split_on CHR ''/'' (?ip @ CHR ''/'' # port) = [?ip, port]"
    using assms(6) by (simp add: split_on_append split_on_no_delim)
  then have "ws_route ?path = Some (?ip, port)" by (simp add: ws_route_def)
  moreover have "format_addr_from_url ?ip port = host @ '':'' @ port \<longleftrightarrow> CHR ''_'' \<notin> set host"
    by (simp add: format_addr_from_url_def replace_char_same_iff)
  ultimately show ?thesis
    using tcp_url [OF assms(3,4), of base] by blast
qed

text \<open>
  A parsed TCP connection always has a URL, and what follows a second colon of the address is
  dropped from it: an IPv6 address never reaches the proxy.
\<close>

theorem tcp_url_drops_after_second_colon:
  assumes "connection_info_new f s = Ok info" "connection_type info = Tcp a"
  shows "\<exists>host port. CHR '':'' \<notin> set host \<and> CHR '':'' \<notin> set port \<and>
    (a = host @ '':'' @ port \<or> (\<exists>rest. a = host @ '':'' @ port @ '':'' @ rest)) \<and>
    tcp_proxy_to_url base a = tcp_proxy_to_url base (host @ '':'' @ port) \<and>
    tcp_proxy_to_url base a = Ok (base @ ''/v1/'' @ replace_char CHR ''.'' CHR ''_'' host @ ''/'' @ port)"
proof -
  from assms have "CHR '':'' \<in> set a"
    by (elim connection_info_cases) (auto dest: parse_peer_info_port)
  then obtain host b where a: "a = host @ CHR '':'' # b" "CHR '':'' \<notin> set host" by (meson split_list_first)
  show ?thesis
  proof (cases "CHR '':'' \<in> set b")
    case True
    then obtain port rest where b: "b = port @ CHR '':'' # rest" "CHR '':'' \<notin> set port" by (meson split_list_first)
    then have "tcp_proxy_to_url base a = Ok (base @ ''/v1/'' @ replace_char CHR ''.'' CHR ''_'' host @ ''/'' @ port)"
      by (simp add: tcp_proxy_to_url_def a split_on_append)
    with a b tcp_url [OF a(2) b(2), of base] show ?thesis
      by (intro exI [of _ host] exI [of _ port]) simp
  next
    case False
    with a tcp_url [OF a(2) False, of base] show ?thesis
      by (intro exI [of _ host] exI [of _ b]) simp
  qed
qed

section \<open>Connecting and reconnecting\<close>

definition asks_more :: "net_state \<Rightarrow> net_state \<Rightarrow> bool" where
  "asks_more s s' \<longleftrightarrow> net_store s' = net_store s \<and> (\<exists>more. asked s' = asked s @ more)"

interpretation asks_more: run_preorder asks_more
  by standard (auto simp: asks_more_def)

lemma asks_more_basic [simp]:
  "asks_more s s"
  "asks_more s (snd (ask e a s))" "asks_more s (snd (preturn v s))" "asks_more s (snd (perr e' s))"
  "asks_more s (snd (pread g s))"
  by (simp_all add: asks_more_def ask_def Let_def preturn_def perr_def pread_def)

lemma asks_more_ws: "asks_more s (snd (ws_proxy_new E base info s))"
  unfolding ws_proxy_new_def
  by (cases "connection_type info") (auto intro!: asks_more.run_pbind simp del: pbind_pread)

lemma asks_more_connect: "asks_more s (snd (connect_peer E info s))"
  unfolding connect_peer_def
  by (cases "connection_type info") (auto intro!: asks_more.run_pbind asks_more_ws split: option.split)

lemma asks_more_if_necessary: "asks_more s (snd (connect_peer_if_necessary E info s))"
  unfolding connect_peer_if_necessary_def
  by (auto intro!: asks_more.run_pbind asks_more_connect simp del: pbind_pread)

lemma asks_more_one: "asks_more s (snd (auto_connect_one E pc s))"
proof -
  have "asks_more s s'" if "connect_peer E info s = (r, s')" for info r s'
    using asks_more_connect [of s E info] that by simp
  then show ?thesis
    by (auto simp: auto_connect_one_def split: prod.split result.split)
qed

lemma asks_more_each: "asks_more s (snd (each (auto_connect_one E) pcs s))"
  by (induction pcs arbitrary: s) (auto intro!: asks_more.run_pbind asks_more_one)

lemma read_peer_iff:
  "read_peer_connection_info E p key b = Ok (Some c) \<longleftrightarrow>
   mbs_get E (json_string E) (storage p) (get_key p (peer_key key)) b = Ok c"
  by (simp add: read_peer_connection_info_def)

text \<open>
  A peer that was connected to can be reconnected to: once \<open>connect_peer\<close> returned \<open>Ok\<close> and
  the storage takes the write, the string stored for the peer is the one of this connection, and
  parsing it gives the same connection. A connection that failed changes nothing in the storage.
\<close>

theorem connected_peer_is_remembered:
  assumes "ldk_ok E" "connection_info_new (pubkey_from_str E) str = Ok info" "node_connect_peer E p info s = (r, s')"
  defines "key \<equiv> pubkey_to_string E (pubkey info)"
  shows "(r = Ok () \<and> fst (persist_peer_connection_info E p key (original_connection_string info) (net_store s)) = Ok () \<longrightarrow>
      (read_peer_connection_info E p key (net_store s') :: (string option, unit) result) =
        Ok (Some (original_connection_string info)) \<and>
      connection_info_new (pubkey_from_str E) (original_connection_string info) = Ok info) \<and>
    (\<forall>e. r = Err e \<longrightarrow> net_store s' = net_store s)"
proof -
  obtain q u where q: "connect_peer_if_necessary E info s = (q, u)" by fastforce
  with asks_more_if_necessary [of s E info] have u: "net_store u = net_store s" by (simp add: asks_more_def)
  note read = read_peer_iff [of E p key]
  show ?thesis
  proof (cases "q = Ok ()")
    case True
    obtain x b' where put: "persist_peer_connection_info E p key (original_connection_string info) (net_store s) = (x, b')"
      by fastforce
    have stored: "mbs_get E (json_string E) (storage p) (get_key p (peer_key key)) b' = Ok (original_connection_string info)"
      if "x = Ok ()"
    proof -
      have "mbs_set E (json_string E) (storage p) (get_key p (peer_key key)) (original_connection_string info) (net_store s) = (Ok (), b')"
        using put that by (simp add: persist_peer_connection_info_def)
      then show ?thesis
        by (rule mbs.put_get [rotated]) (use ldk_okD [OF assms(1)] in \<open>simp add: web_ok_def\<close>)
    qed
    have "node_connect_peer E p info s =
        (case (read_peer_connection_info E p key (net_store s) :: (string option, MutinyError) result) of
           Ok saved \<Rightarrow>
             if saved = Some (original_connection_string info) then (Ok (), u)
             else (case x of Panic \<Rightarrow> (Panic, u\<lparr>net_store := b'\<rparr>) | _ \<Rightarrow> (Ok (), u\<lparr>net_store := b'\<rparr>))
         | Err e \<Rightarrow> (Err e, u) | Panic \<Rightarrow> (Panic, u))"
      using q True put u
      by (auto simp: node_connect_peer_def pbind_def pread_def preturn_def store_peer_def key_def
          split: result.split option.split)
    then show ?thesis
      using assms(3) stored put u connection_info_reparses [OF assms(2)]
      by (auto simp: read split: result.splits if_splits)
  next
    case False
    then show ?thesis
      using assms(3) q u by (auto simp: node_connect_peer_def pbind_def split: result.splits)
  qed
qed

text \<open>What an attempt to connect asks of the network first.\<close>

definition attempted :: "'x net_env_scheme \<Rightarrow> PubkeyConnectionInfo \<Rightarrow> NetEffect \<Rightarrow> bool" where
  "attempted E info e \<longleftrightarrow>
     (case connection_type info of
        Tcp a \<Rightarrow> (\<exists>url. tcp_proxy_to_url (websocket_proxy_addr E) a = Ok url \<and> e = OpenWebSocket url)
      | Mutiny _ \<Rightarrow> e = CreateSubsocket (pubkey info))"

lemma tcp_url_some:
  assumes "connection_info_new f str = Ok info" "connection_type info = Tcp a"
  obtains url where "tcp_proxy_to_url base a = Ok url"
proof -
  from assms have "CHR '':'' \<in> set a"
    by (elim connection_info_cases) (auto dest: parse_peer_info_port)
  from split_on_two [OF this] that show ?thesis by (auto simp: tcp_proxy_to_url_def)
qed

lemmas net_eval = connect_peer_def ws_proxy_new_def attempted_def pbind_def ask_def preturn_def perr_def pread_def Let_def

lemma connect_peer_attempts:
  assumes "connection_info_new f str = Ok info" "connect_peer E info s = (r, s')"
  shows "r \<noteq> Panic \<and> (\<exists>more. asked s' = asked s @ more \<and> (\<exists>e \<in> set more. attempted E info e))"
proof (cases "connection_type info")
  case (Mutiny x)
  with assms(2) show ?thesis by (auto simp: net_eval split: option.splits)
next
  case (Tcp a)
  from assms(1) this obtain url where "tcp_proxy_to_url (websocket_proxy_addr E) a = Ok url" by (rule tcp_url_some)
  with assms(2) Tcp show ?thesis by (auto simp: net_eval split: option.splits if_splits)
qed

lemma auto_connect_one_attempts:
  assumes "connection_info_new (pubkey_from_str E) str = Ok info"
  shows "fst (auto_connect_one E (pk, str) s) = Ok ()"
    and "\<exists>more. asked (snd (auto_connect_one E (pk, str) s)) = asked s @ more \<and> (\<exists>e \<in> set more. attempted E info e)"
  using connect_peer_attempts [OF assms, of E s] assms
  by (auto simp: auto_connect_one_def split: result.split prod.split)

lemma each_attempts:
  assumes "each (auto_connect_one E) pcs s = (Ok (), s')" "(pk, str) \<in> set pcs"
    "connection_info_new (pubkey_from_str E) str = Ok info"
  shows "\<exists>more. asked s' = asked s @ more \<and> (\<exists>e \<in> set more. attempted E info e)"
  using assms(1,2)
proof (induction pcs arbitrary: s)
  case (Cons pc pcs)
  then obtain u where u: "auto_connect_one E pc s = (Ok (), u)" "each (auto_connect_one E) pcs u = (Ok (), s')"
    by (auto elim!: pbind_OkE)
  show ?case
  proof (cases "pc = (pk, str)")
    case True
    with u(1) auto_connect_one_attempts(2) [OF assms(3), of pk s]
    obtain more e where "asked u = asked s @ more" "e \<in> set more" "attempted E info e" by auto
    moreover obtain rest where "asked s' = asked u @ rest"
      using asks_more_each [of u E pcs] u(2) by (auto simp: asks_more_def)
    ultimately show ?thesis by (intro exI [of _ "more @ rest"]) auto
  next
    case False
    with Cons.prems(2) have "(pk, str) \<in> set pcs" by auto
    from Cons.IH [OF u(2) this] obtain more e where "asked s' = asked u @ more" "e \<in> set more" "attempted E info e" by blast
    moreover obtain first where "asked u = asked s @ first"
      using asks_more_one [of s E pc] u(1) by (auto simp: asks_more_def)
    ultimately show ?thesis by (intro exI [of _ "first @ more"]) auto
  qed
qed simp

lemma auto_connect_one_returns: "fst (auto_connect_one E pc s) = Ok ()"
proof (cases pc)
  case (Pair pk str)
  show ?thesis
  proof (cases "connection_info_new (pubkey_from_str E) str")
    case (Ok info)
    then show ?thesis using auto_connect_one_attempts(1) Pair by blast
  next
    case Panic
    then show ?thesis
      by (auto simp: connection_info_new_def Let_def parse_peer_info_def split_peer_connection_string_def strip_prefix_def
          split: if_splits list.splits option.splits)
  qed (simp add: Pair auto_connect_one_def preturn_def)
qed

lemma each_returns: "fst (each (auto_connect_one E) pcs s) = Ok ()"
proof (induction pcs arbitrary: s)
  case (Cons pc pcs)
  obtain u where "auto_connect_one E pc s = (Ok (), u)"
    using auto_connect_one_returns [of E pc s] by (cases "auto_connect_one E pc s") simp
  with Cons.IH [of u] show ?case by (simp add: pbind_def)
qed (simp add: preturn_def)

text \<open>
  A round of the reconnection loop tries every peer: while the master socket is connected and
  the stored peers can be listed, the round returns, and for each stored peer that is not connected
  and whose string parses, a connection was attempted, whatever happened to the others.
\<close>

theorem auto_connect_tries_every_peer:
  assumes "master_connected E (asked s)" "list_peer_connection_info E p (net_store s) = Some peers"
    "auto_connect_round E p s = (r, s')"
  shows "r = Ok () \<and>
    (\<forall>(pk, str) \<in> set peers. \<forall>info.
       pk \<notin> set (peer_node_ids E (asked s)) \<and> connection_info_new (pubkey_from_str E) str = Ok info \<longrightarrow>
       (\<exists>more. asked s' = asked s @ more \<and> (\<exists>e \<in> set more. attempted E info e)))"
proof -
  let ?todo = "filter (\<lambda>(pk, _). pk \<notin> set (peer_node_ids E (asked s))) peers"
  from assms have run: "each (auto_connect_one E) ?todo s = (r, s')"
    by (simp add: auto_connect_round_def)
  with each_returns [of E ?todo s] have r: "r = Ok ()" by simp
  with run have "each (auto_connect_one E) ?todo s = (Ok (), s')" by simp
  from each_attempts [OF this] r show ?thesis by force
qed

section \<open>A concrete instance\<close>

definition demo_net :: net_env where
  "demo_net = ldk_env.extend (demo_ldk []) (net_env.fields ''ws://p'' (\<lambda>_. True) (\<lambda>_. Some [1]) (\<lambda>_. [])
     (\<lambda>_. True) (\<lambda>_. None))"

lemmas demo_net_defs = demo_net_def net_env.defs demo_ldk_defs

lemma demo_net_ok: "ldk_ok demo_net"
proof -
  have "ldk_ok demo_net = ldk_ok (demo_ldk [])"
    unfolding ldk_ok_def bdk_ok_def web_ok_def crypto_ok_def by (simp add: demo_net_defs)
  then show ?thesis by (simp add: demo_ldk_ok)
qed

definition demo_peer :: PubkeyConnectionInfo where
  "demo_peer = \<lparr>pubkey = PublicKey [2], connection_type = Tcp ''h.io:99'', original_connection_string = ''02@h.io:99''\<rparr>"

lemma demo_peer_parsed: "connection_info_new (\<lambda>s. map_option PublicKey (unhex s)) ''02@h.io:99'' = Ok demo_peer"
  by (simp add: connection_info_new_def to_lowercase_def lower_char_def starts_with_def parse_peer_info_def
      split_peer_connection_string_def hex_digits_def demo_peer_def)

lemma proxy_dials_the_peer_witness:
  "\<exists>path ip. tcp_proxy_to_url ''ws://p'' ''h.io:99'' = Ok (''ws://p'' @ path) \<and> ws_route path = Some (ip, ''99'') \<and>
    format_addr_from_url ip ''99'' = ''h.io:99''"
  using proxy_dials_the_peer [OF demo_peer_parsed, of "''h.io''" "''99''" "''ws://p''"] by (simp add: demo_peer_def)

lemma tcp_url_drops_after_second_colon_witness:
  "\<exists>info. connection_info_new (\<lambda>s. map_option PublicKey (unhex s)) ''02@[::1]:9735'' = Ok info \<and>
    (\<exists>host port. tcp_proxy_to_url ''ws://p'' ''[::1]:9735'' = Ok (''ws://p/v1/'' @ host @ ''/'' @ port))"
proof -
  let ?info = "\<lparr>pubkey = PublicKey [2], connection_type = Tcp ''[::1]:9735'', original_connection_string = ''02@[::1]:9735''\<rparr>"
  have i: "connection_info_new (\<lambda>s. map_option PublicKey (unhex s)) ''02@[::1]:9735'' = Ok ?info"
    by (simp add: connection_info_new_def to_lowercase_def lower_char_def starts_with_def parse_peer_info_def
        split_peer_connection_string_def hex_digits_def)
  from tcp_url_drops_after_second_colon [OF i, of "''[::1]:9735''" "''ws://p''"] i show ?thesis by auto
qed

abbreviation demo_net_state :: net_state where
  "demo_net_state \<equiv> \<lparr>net_store = demo_browser, asked = []\<rparr>"

lemma demo_net_fields:
  "pubkey_from_str demo_net = (\<lambda>s. map_option PublicKey (unhex s))"
  "pubkey_to_string demo_net (PublicKey [2]) = ''02''"
  by (simp_all add: demo_net_defs byte_hex_def hex_digits_def)

lemma connected_peer_is_remembered_witness:
  "\<exists>s'. node_connect_peer demo_net demo_persister demo_peer demo_net_state = (Ok (), s') \<and>
    (read_peer_connection_info demo_net demo_persister ''02'' (net_store s') :: (string option, unit) result) =
      Ok (Some ''02@h.io:99'')"
proof -
  let ?key = "get_key demo_persister (peer_key ''02'')"
  have set: "\<exists>b'. mbs_set demo_net (json_string demo_net) plain ?key ''02@h.io:99'' demo_browser = (Ok (), b')"
    by (rule set_plain [where data = "CHR 0x22 # ''02@h.io:99'' @ [CHR 0x22]"])
      (simp_all add: demo_net_defs demo_web_def quoted_codec_def ascii_def)
  then obtain b' where put: "persist_peer_connection_info demo_net demo_persister ''02'' ''02@h.io:99'' demo_browser = (Ok (), b')"
    by (auto simp: persist_peer_connection_info_def demo_uuids)
  have fields: "pubkey demo_peer = PublicKey [2]" "original_connection_string demo_peer = ''02@h.io:99''"
    by (simp_all add: demo_peer_def)
  have "read_peer_connection_info demo_net demo_persister ''02'' demo_browser = (Ok None :: (string option, MutinyError) result)"
    using mbs.get_absent [of demo_browser ?key demo_net "json_string demo_net" plain]
    by (auto simp: read_peer_connection_info_def demo_uuids demo_browser_def raw_item_def)
  moreover obtain u where "connect_peer_if_necessary demo_net demo_peer demo_net_state = (Ok (), u)" "net_store u = demo_browser"
    by (simp add: connect_peer_if_necessary_def net_eval demo_peer_def tcp_proxy_to_url_def demo_net_defs)
  ultimately obtain s' where run: "node_connect_peer demo_net demo_persister demo_peer demo_net_state = (Ok (), s')"
    using put by (simp add: node_connect_peer_def pbind_def pread_def store_peer_def fields demo_net_fields)
  have "connection_info_new (pubkey_from_str demo_net) ''02@h.io:99'' = Ok demo_peer"
    by (simp add: demo_net_fields demo_peer_parsed)
  from connected_peer_is_remembered [OF demo_net_ok this run] run put show ?thesis
    by (simp add: fields demo_net_fields)
qed

definition demo_peers :: browser where
  "demo_peers = \<lparr>items = [(get_key demo_persister (peer_key ''02''),
     CHR 0x22 # CHR 0x22 # ''02@h.io:99'' @ [CHR 0x22, CHR 0x22])], draws = 0\<rparr>"

lemma demo_peers_listed: "list_peer_connection_info demo_net demo_persister demo_peers = Some [(PublicKey [2], ''02@h.io:99'')]"
  by code_simp

lemma auto_connect_tries_every_peer_witness:
  "\<exists>s'. auto_connect_round demo_net demo_persister \<lparr>net_store = demo_peers, asked = []\<rparr> = (Ok (), s') \<and>
    (\<exists>e \<in> set (asked s'). attempted demo_net demo_peer e)"
proof -
  obtain r s' where run: "auto_connect_round demo_net demo_persister \<lparr>net_store = demo_peers, asked = []\<rparr> = (r, s')" by fastforce
  have "master_connected demo_net []" "peer_node_ids demo_net [] = []"
    "connection_info_new (pubkey_from_str demo_net) ''02@h.io:99'' = Ok demo_peer"
    by (simp_all add: demo_net_defs) (simp add: demo_net_fields [unfolded demo_net_defs] demo_peer_parsed)
  with auto_connect_tries_every_peer [OF _ _ run, of "[(PublicKey [2], ''02@h.io:99'')]"] demo_peers_listed run show ?thesis
    by simp
qed

end
