(* ===== verification/NodeManager.thy ===== *)
theory NodeManager
  imports Connection "HOL-Library.List_Lexorder" "HOL-Library.Product_Lexorder" "HOL-Library.Char_ord"
begin

text \<open>
  The wallet as a whole, part one (\<open>node-manager/src/nodemanager.rs\<close>, with \<open>Node::new\<close> of
  \<open>node.rs\<close>, \<open>keymanager.rs\<close> and \<open>MutinyWallet::new\<close>): opening it from the browser storage,
  creating nodes, and its peers. LDK's constructors are parameters; of the on-chain wallet's
  constructor the model has what it does to the storage, the check of the descriptor checksums.
  The two background loops of a node are not part of its construction here.
\<close>

section \<open>Nodes\<close>

record Node =
  uuid :: string
  node_pubkey :: PublicKey
  persister :: MutinyNodePersister

record NodeManager =
  mnemonic :: Mnemonic
  nm_storage :: MutinyBrowserStorage
  node_storage :: NodeStorage
  nodes :: "(string \<times> Node) list"

text \<open>
  \<open>node_key\<close>: the key of a child index (\<open>None\<close>: the index is out of the hardened range).
  \<open>decode_monitor\<close>, \<open>decode_manager\<close>, \<open>fresh_manager\<close>, \<open>decode_graph\<close>: LDK's objects, which no
  code of the wallet inspects. \<open>tip\<close>: the chain client's height and hash.
\<close>

record nm_env = net_env +
  node_key :: "Mnemonic \<Rightarrow> u32 \<Rightarrow> PublicKey option"
  decode_monitor :: "bytes \<Rightarrow> bytes option"
  decode_manager :: "bytes \<Rightarrow> bytes list \<Rightarrow> bytes option"
  fresh_manager :: "u32 \<Rightarrow> bytes \<Rightarrow> bytes"
  decode_graph :: "bytes \<Rightarrow> bytes option"
  fresh_graph :: bytes
  tip_height :: "NetEffect list \<Rightarrow> u32 option"
  tip_hash :: "NetEffect list \<Rightarrow> bytes option"
  mnemonic_of_entropy :: "bytes \<Rightarrow> Mnemonic"
  uuid_of_random :: "bytes \<Rightarrow> string"
  descriptor_checksum :: "Mnemonic \<Rightarrow> KeychainKind \<Rightarrow> bytes"

definition on_browser :: "(browser, 'a, 'e) prog \<Rightarrow> (net_state, 'a, 'e) prog" where
  "on_browser m s = (let (r, b) = m (net_store s) in (r, s\<lparr>net_store := b\<rparr>))"

text \<open>A fill of \<open>getrandom\<close>.\<close>

definition random_bytes :: "'x nm_env_scheme \<Rightarrow> nat \<Rightarrow> (browser, bytes, 'e) prog" where
  "random_bytes E n b = (Ok (os_fill E (draws b) n), b\<lparr>draws := Suc (draws b)\<rparr>)"

fun generate_seed :: "'x nm_env_scheme \<Rightarrow> nat \<Rightarrow> (browser, Mnemonic, MutinyError) prog" where
  "generate_seed E num_words =
     (if num_words = 12 then pbind (random_bytes E 16) (\<lambda>entropy. preturn (mnemonic_of_entropy E entropy))
      else if num_words = 24 then pbind (random_bytes E 32) (\<lambda>entropy. preturn (mnemonic_of_entropy E entropy))
      else perr SeedGenerationFailed)"

definition node_new ::
  "'x nm_env_scheme \<Rightarrow> NodeIndex \<Rightarrow> Mnemonic \<Rightarrow> MutinyBrowserStorage \<Rightarrow> Node net_prog" where
  "node_new E node_index m strg =
     pbind (pread (\<lambda>_. of_option (node_key E m (child_index node_index)))) (\<lambda>pk.
     let p = \<lparr>node_id = node_uuid node_index, storage = strg\<rparr> in
     pbind (pread (\<lambda>s. map_err (\<lambda>_. ReadError OtherStorageError)
       (read_channel_monitors E (decode_monitor E) p (net_store s)))) (\<lambda>monitors.
     pbind (pread (\<lambda>s. read_channel_manager E (decode_manager E) (fresh_manager E) p monitors
       (tip_height E (asked s)) (tip_hash E (asked s)) (net_store s))) (\<lambda>_.
     pbind (pread (\<lambda>s. read_network_graph E (decode_graph E) (fresh_graph E) p (net_store s))) (\<lambda>_.
     let self_connection = \<lparr>pubkey = pk, connection_type = Mutiny (websocket_proxy_addr E),
       original_connection_string =
         ''mutiny:'' @ pubkey_to_string E pk @ ''@'' @ websocket_proxy_addr E\<rparr> in
     pbind (ws_proxy_new E (websocket_proxy_addr E) self_connection) (\<lambda>_.
     preturn \<lparr>uuid = node_uuid node_index, node_pubkey = pk, persister = p\<rparr>)))))"

section \<open>Opening the wallet\<close>

text \<open>\<open>MutinyWallet::new\<close>: any error is a panic.\<close>

definition wallet_new :: "'x nm_env_scheme \<Rightarrow> Mnemonic \<Rightarrow> MutinyBrowserStorage \<Rightarrow> (browser, unit, 'e) prog" where
  "wallet_new E m strg b =
     (case pbind (check_descriptor_checksum E strg External (descriptor_checksum E m External)) (\<lambda>_.
             check_descriptor_checksum E strg Internal (descriptor_checksum E m Internal)) b of
        (Ok _, b') \<Rightarrow> (Ok (), b')
      | (_, b') \<Rightarrow> (Panic, b'))"

definition load_mnemonic ::
  "'x nm_env_scheme \<Rightarrow> MutinyBrowserStorage \<Rightarrow> string option \<Rightarrow> (browser, Mnemonic, MutinyError) prog" where
  "load_mnemonic E strg given =
     (case given of
        Some m \<Rightarrow>
          (case mnemonic_from_str E m of
             Some seed \<Rightarrow> insert_mnemonic E strg seed
           | None \<Rightarrow> perr InvalidMnemonic)
      | None \<Rightarrow>
          (\<lambda>b. case get_mnemonic E strg b of
             Ok m \<Rightarrow> (Ok m, b)
           | Err _ \<Rightarrow> pbind (generate_seed E 12) (insert_mnemonic E strg) b
           | Panic \<Rightarrow> (Panic, b)))"

fun start_nodes ::
  "'x nm_env_scheme \<Rightarrow> Mnemonic \<Rightarrow> MutinyBrowserStorage \<Rightarrow> (string \<times> NodeIndex) list \<Rightarrow>
   (string \<times> Node) list \<Rightarrow> (string \<times> Node) list net_prog" where
  "start_nodes E m strg [] started = preturn started"
| "start_nodes E m strg ((_, node_index) # rest) started =
     pbind (node_new E node_index m strg) (\<lambda>n.
     start_nodes E m strg rest (AList.update (pubkey_to_string E (node_pubkey n)) n started))"

definition has_node_manager :: "'x nm_env_scheme \<Rightarrow> browser \<Rightarrow> bool" where
  "has_node_manager E b = has_mnemonic E b"

definition node_manager_new ::
  "'x nm_env_scheme \<Rightarrow> string \<Rightarrow> string option \<Rightarrow> (net_state, NodeManager, MutinyJsError) prog" where
  "node_manager_new E pw given =
     (let strg = \<lparr>password = pw\<rparr> in
      pmap_err js_of_mutiny
        (pbind (on_browser (load_mnemonic E strg given)) (\<lambda>m.
         pbind (on_browser (wallet_new E m strg)) (\<lambda>_.
         pbind (pread (\<lambda>s. map_err (\<lambda>_. ReadError OtherStorageError) (get_nodes E (net_store s)))) (\<lambda>ns.
         pbind (start_nodes E m strg (ns_nodes ns) []) (\<lambda>started.
         preturn \<lparr>mnemonic = m, nm_storage = strg, node_storage = ns, nodes = started\<rparr>))))))"

section \<open>New nodes\<close>

text \<open>\<open>v.child_index + 1\<close> wraps.\<close>

definition next_node_index :: "NodeStorage \<Rightarrow> u32" where
  "next_node_index ns =
     (case map (child_index \<circ> snd) (ns_nodes ns) of
        [] \<Rightarrow> 0
      | i # is \<Rightarrow> fold max is i + 1)"

text \<open>The node is saved, then started; the manager is returned with it also when starting fails.\<close>

definition create_new_node ::
  "'x nm_env_scheme \<Rightarrow> NodeManager \<Rightarrow> net_state \<Rightarrow> (string \<times> PublicKey, MutinyError) result \<times> NodeManager \<times> net_state"
where
  "create_new_node E nm s =
     (case get_nodes E (net_store s) of
        Err e \<Rightarrow> (Err (ReadError e), nm, s)
      | Panic \<Rightarrow> (Panic, nm, s)
      | Ok existing \<Rightarrow>
          (let (r, b) = random_bytes E 16 (net_store s) in
           case r of
             Ok bytes \<Rightarrow>
               (let next_node = \<lparr>node_uuid = uuid_of_random E bytes, child_index = next_node_index existing\<rparr>;
                    all = \<lparr>ns_nodes = AList.update (node_uuid next_node) next_node (ns_nodes existing)\<rparr> in
                case pmap_err mutiny_of_storage (insert_nodes E all) b of
                  (Err e, b') \<Rightarrow> (Err e, nm, s\<lparr>net_store := b'\<rparr>)
                | (Panic, b') \<Rightarrow> (Panic, nm, s\<lparr>net_store := b'\<rparr>)
                | (Ok _, b') \<Rightarrow>
                    (let nm1 = nm\<lparr>node_storage := all\<rparr> in
                     case node_new E next_node (mnemonic nm) (nm_storage nm) (s\<lparr>net_store := b'\<rparr>) of
                       (Err e, s') \<Rightarrow> (Err e, nm1, s')
                     | (Panic, s') \<Rightarrow> (Panic, nm1, s')
                     | (Ok n, s') \<Rightarrow>
                         (Ok (node_uuid next_node, node_pubkey n),
                          nm1\<lparr>nodes := AList.update (pubkey_to_string E (node_pubkey n)) n (nodes nm1)\<rparr>, s')))
           | Err e \<Rightarrow> (Err e, nm, s)
           | Panic \<Rightarrow> (Panic, nm, s)))"

section \<open>Peers\<close>

definition connect_to_peer ::
  "'x nm_env_scheme \<Rightarrow> NodeManager \<Rightarrow> string \<Rightarrow> string \<Rightarrow> (net_state, unit, MutinyJsError) prog" where
  "connect_to_peer E nm self_node_pubkey connection_string =
     pmap_err js_of_mutiny
       (case map_of (nodes nm) self_node_pubkey of
          Some n \<Rightarrow>
            pbind (pread (\<lambda>_. connection_info_new (pubkey_from_str E) connection_string)) (\<lambda>connect_info.
            node_connect_peer E (persister n) connect_info)
        | None \<Rightarrow> perr WalletOperationFailed)"

definition delete_peer ::
  "NodeManager \<Rightarrow> string \<Rightarrow> string \<Rightarrow> (net_state, unit, MutinyJsError) prog" where
  "delete_peer nm self_node_pubkey peer =
     (case map_of (nodes nm) self_node_pubkey of
        Some n \<Rightarrow> on_browser (pmodify (delete_peer_connection_info (persister n) peer))
      | None \<Rightarrow> perr JsWalletOperationFailed)"

record MutinyPeer =
  peer_pubkey :: PublicKey
  connection_string :: string
  is_connected :: bool

fun key_bytes :: "PublicKey \<Rightarrow> bytes" where
  "key_bytes (PublicKey k) = k"

text \<open>\<open>Ord for MutinyPeer\<close> compares these; public keys compare by their serialization.\<close>

definition peer_rank :: "MutinyPeer \<Rightarrow> bool \<times> bytes \<times> string" where
  "peer_rank p = (is_connected p, key_bytes (peer_pubkey p), connection_string p)"

definition stored_peers ::
  "'x nm_env_scheme \<Rightarrow> NodeManager \<Rightarrow> browser \<Rightarrow> (PublicKey \<times> string) list option" where
  "stored_peers E nm b =
     map_option concat (map_all (\<lambda>(_, n). list_peer_connection_info E (persister n) b) (nodes nm))"

definition list_peers ::
  "'x nm_env_scheme \<Rightarrow> (Node \<Rightarrow> PublicKey list) \<Rightarrow> NodeManager \<Rightarrow> browser \<Rightarrow> (MutinyPeer list, MutinyJsError) result" where
  "list_peers E peer_ids nm b =
     and_then (of_option (stored_peers E nm b)) (\<lambda>stored.
     let connected_peers = concat (map (\<lambda>(_, n). peer_ids n) (nodes nm));
         storage_peers = map (\<lambda>(k, c). \<lparr>peer_pubkey = k, connection_string = c, is_connected = k \<in> set connected_peers\<rparr>) stored;
         missing = map (\<lambda>k. \<lparr>peer_pubkey = k, connection_string = ''unknown'', is_connected = True\<rparr>)
           (filter (\<lambda>k. k \<notin> set (map peer_pubkey storage_peers)) connected_peers)
     in Ok (sort_key peer_rank (storage_peers @ missing)))"

section \<open>What the on-chain database leaves alone\<close>

definition db_only :: "'x bdk_env_scheme \<Rightarrow> browser \<Rightarrow> browser \<Rightarrow> bool" where
  "db_only E b b' \<longleftrightarrow> (\<forall>k. (\<forall>a. as_map_key E a \<noteq> k) \<longrightarrow> raw_item b' k = raw_item b k)"

interpretation db_only: run_preorder "db_only E" for E :: "'x bdk_env_scheme"
  by standard (auto simp: db_only_def)

lemma db_only_refl [simp]: "db_only E b b"
  by (rule db_only.R_refl)

lemma db_only_set: "db_only E b (snd (db_set E c self k v b))"
  unfolding db_only_def by (metis db.put_frame prod.collapse)

lemma db_only_checksum: "db_only E b (snd (check_descriptor_checksum E self kc cs b))"
  unfolding check_descriptor_checksum_def
  by (auto intro!: db_only.run_pbind db_only_set split: option.split simp del: pbind_pread)

lemma db_only_wallet: "db_only E b (snd (wallet_new E m strg b))"
proof -
  have "db_only E b (snd (pbind (check_descriptor_checksum E strg External (descriptor_checksum E m External)) (\<lambda>_.
      check_descriptor_checksum E strg Internal (descriptor_checksum E m Internal)) b))"
    by (intro db_only.run_pbind db_only_checksum)
  then show ?thesis by (auto simp: wallet_new_def split: prod.split result.split)
qed

lemma db_keys_apart:
  assumes "bdk_ok E"
  shows "as_map_key E a \<noteq> mnemonic_key" "as_map_key E a \<noteq> nodes_key"
proof -
  have "set (as_map_key E a) \<subseteq> set hex_digits"
    using bdk_okD(8) [OF assms] by (simp add: as_map_key_def)
  then have "CHR ''n'' \<notin> set (as_map_key E a)" by (auto simp: hex_digits_def)
  moreover have "CHR ''n'' \<in> set mnemonic_key" "CHR ''n'' \<in> set nodes_key"
    by (simp_all add: mnemonic_key_def nodes_key_def)
  ultimately show "as_map_key E a \<noteq> mnemonic_key" "as_map_key E a \<noteq> nodes_key" by auto
qed

lemma get_mnemonic_cong:
  "raw_item b' mnemonic_key = raw_item b mnemonic_key \<Longrightarrow> get_mnemonic E self b' = get_mnemonic E self b"
  by (simp add: get_mnemonic_def mbs_get_cong [of b' mnemonic_key b])

lemma get_nodes_cong: "raw_item b' nodes_key = raw_item b nodes_key \<Longrightarrow> get_nodes E b' = get_nodes E b"
  by (simp add: get_nodes_def ls_get_def)

lemma db_only_mnemonic: "bdk_ok E \<Longrightarrow> db_only E b b' \<Longrightarrow> get_mnemonic W self b' = get_mnemonic W self b"
  using db_keys_apart(1) by (intro get_mnemonic_cong) (auto simp: db_only_def)

lemma db_only_nodes: "bdk_ok E \<Longrightarrow> db_only E b b' \<Longrightarrow> get_nodes W b' = get_nodes W b"
  using db_keys_apart(2) by (intro get_nodes_cong) (auto simp: db_only_def)

section \<open>Starting nodes\<close>

lemma same_net_store_ws: "net_store (snd (ws_proxy_new E base info s)) = net_store s"
  using asks_more_ws [of s E base info] by (simp add: asks_more_def)

interpretation same_net_store: run_preorder "\<lambda>s s'. net_store s' = net_store s"
  by standard auto

lemma net_store_pread [simp]: "net_store (snd (pread f s)) = net_store s"
  by (simp add: pread_def)

lemma node_new_store: "net_store (snd (node_new E idx m strg s)) = net_store s"
  unfolding node_new_def Let_def
  by (intro same_net_store.run_pbind same_net_store_ws net_store_pread) simp_all

definition node_of :: "'x nm_env_scheme \<Rightarrow> Mnemonic \<Rightarrow> MutinyBrowserStorage \<Rightarrow> NodeIndex \<Rightarrow> Node" where
  "node_of E m strg idx = \<lparr>uuid = node_uuid idx, node_pubkey = the (node_key E m (child_index idx)),
     persister = \<lparr>node_id = node_uuid idx, storage = strg\<rparr>\<rparr>"

lemma node_new_Ok: "node_new E idx m strg s = (Ok n, s') \<Longrightarrow> n = node_of E m strg idx"
  by (auto simp: node_new_def Let_def node_of_def of_option_def preturn_def split: option.splits result.splits elim!: pbind_OkE)

definition nodes_of ::
  "'x nm_env_scheme \<Rightarrow> Mnemonic \<Rightarrow> MutinyBrowserStorage \<Rightarrow> (string \<times> NodeIndex) list \<Rightarrow>
   (string \<times> Node) list \<Rightarrow> (string \<times> Node) list" where
  "nodes_of E m strg xs started =
     fold (\<lambda>(_, i). AList.update (pubkey_to_string E (node_pubkey (node_of E m strg i))) (node_of E m strg i)) xs started"

lemma start_nodes_Ok:
  "start_nodes E m strg xs started s = (Ok l, s') \<Longrightarrow> l = nodes_of E m strg xs started"
proof (induction xs arbitrary: started s)
  case (Cons x xs)
  obtain k i where x: "x = (k, i)" by fastforce
  with Cons.prems obtain n u where n: "node_new E i m strg s = (Ok n, u)"
    "start_nodes E m strg xs (AList.update (pubkey_to_string E (node_pubkey n)) n started) u = (Ok l, s')"
    by (auto elim!: pbind_OkE)
  from Cons.IH [OF n(2)] node_new_Ok [OF n(1)] show ?case by (simp add: nodes_of_def x)
qed (simp add: nodes_of_def preturn_def)

lemma start_nodes_store: "net_store (snd (start_nodes E m strg xs started s)) = net_store s"
proof (induction xs arbitrary: started s)
  case (Cons x xs)
  then show ?case
    by (cases x) (auto intro!: same_net_store.run_pbind node_new_store)
qed (simp add: preturn_def)

section \<open>Opening\<close>

lemma inserted_mnemonic_reads:
  assumes "web_ok E" "insert_mnemonic E self m b = (Ok m', b')"
  shows "m' = m" "get_mnemonic E self b' = Ok m"
proof -
  have c: "codec_ok (json_string E)" "mnemonic_from_str E (mnemonic_to_string E m) = Some m"
    using assms(1) by (simp_all add: web_ok_def)
  have s: "mbs_set E (json_string E) self mnemonic_key (mnemonic_to_string E m) b = (Ok (), b')" "m' = m"
    using assms(2) by (simp_all add: insert_mnemonic_Ok_iff)
  have "mbs_get E (json_string E) self mnemonic_key b' = Ok (mnemonic_to_string E m)"
    by (rule mbs.put_get [OF _ s(1)]) (simp add: assms c)
  with c s show "m' = m" "get_mnemonic E self b' = Ok m" by (simp_all add: get_mnemonic_def)
qed

lemma loaded_mnemonic_reads:
  assumes "web_ok E" "load_mnemonic E strg given b = (Ok m, b')"
  shows "get_mnemonic E strg b' = Ok m"
proof (cases given)
  case None
  show ?thesis
  proof (cases "get_mnemonic E strg b")
    case (Err e)
    with assms(2) None obtain seed u where "insert_mnemonic E strg seed u = ((Ok m, b') :: (Mnemonic, MutinyError) result \<times> browser)"
      by (auto simp: load_mnemonic_def elim!: pbind_OkE simp del: generate_seed.simps)
    from inserted_mnemonic_reads [OF assms(1) this] show ?thesis by simp
  qed (use assms(2) None in \<open>simp_all add: load_mnemonic_def\<close>)
next
  case (Some phrase)
  with assms(2) obtain seed where "insert_mnemonic E strg seed b = ((Ok m, b') :: (Mnemonic, MutinyError) result \<times> browser)"
    by (auto simp: load_mnemonic_def perr_def split: option.splits)
  from inserted_mnemonic_reads [OF assms(1) this] show ?thesis by simp
qed

text \<open>Once the seed is loaded, opening the wallet only touches the on-chain database.\<close>

lemma opening_after_load:
  assumes "node_manager_new E pw given s = (r, s')" "load_mnemonic E \<lparr>password = pw\<rparr> given (net_store s) = (Ok m, b)"
  shows "db_only E b (net_store s')"
proof -
  let ?strg = "\<lparr>password = pw\<rparr>"
  obtain q b2 where w: "(wallet_new E m ?strg b :: (unit, MutinyError) result \<times> browser) = (q, b2)" by fastforce
  with db_only_wallet [of E b m ?strg] have b2: "db_only E b b2" by (metis snd_conv)
  let ?rest = "pbind (pread (\<lambda>s. map_err (\<lambda>_. ReadError OtherStorageError) (get_nodes E (net_store s)))) (\<lambda>ns.
         pbind (start_nodes E m ?strg (ns_nodes ns) []) (\<lambda>started.
         preturn \<lparr>mnemonic = m, nm_storage = ?strg, node_storage = ns, nodes = started\<rparr>))"
  have rest: "net_store (snd (?rest t)) = net_store t" for t
    by (intro same_net_store.run_pbind start_nodes_store net_store_pread) (simp add: preturn_def)
  have "net_store s' = (case q of Ok _ \<Rightarrow> net_store (snd (?rest (s\<lparr>net_store := b2\<rparr>))) | _ \<Rightarrow> b2)"
    using assms w by (auto simp: node_manager_new_def pbind_def on_browser_def pmap_err_def Let_def split: result.splits prod.splits)
  with rest [of "s\<lparr>net_store := b2\<rparr>"] b2 show ?thesis by (cases q) (simp_all del: pbind_pread)
qed

lemma node_manager_new_Ok:
  assumes "node_manager_new E pw given s = (Ok nm, s')"
  obtains m b b2 ns where "load_mnemonic E \<lparr>password = pw\<rparr> given (net_store s) = (Ok m, b)"
    "get_nodes E b2 = Ok ns" "net_store s' = b2"
    "nm = \<lparr>mnemonic = m, nm_storage = \<lparr>password = pw\<rparr>, node_storage = ns,
       nodes = nodes_of E m \<lparr>password = pw\<rparr> (ns_nodes ns) []\<rparr>"
proof -
  from assms obtain m u1 u2 ns l where run: "on_browser (load_mnemonic E \<lparr>password = pw\<rparr> given) s = (Ok m, u1)"
    "get_nodes E (net_store u2) = Ok ns" "start_nodes E m \<lparr>password = pw\<rparr> (ns_nodes ns) [] u2 = (Ok l, s')"
    "nm = \<lparr>mnemonic = m, nm_storage = \<lparr>password = pw\<rparr>, node_storage = ns, nodes = l\<rparr>"
    by (auto simp: node_manager_new_def Let_def preturn_def pread_def elim!: pbind_OkE simp del: pbind_pread split: result.splits)
  have "net_store s' = net_store u2"
    using start_nodes_store [of E m "\<lparr>password = pw\<rparr>" "ns_nodes ns" "[]" u2] run(3) by simp
  moreover from start_nodes_Ok [OF run(3)] have "l = nodes_of E m \<lparr>password = pw\<rparr> (ns_nodes ns) []" .
  moreover obtain b where "load_mnemonic E \<lparr>password = pw\<rparr> given (net_store s) = (Ok m, b)"
    using run(1) by (auto simp: on_browser_def Let_def split: prod.splits)
  ultimately show ?thesis using that run by metis
qed

text \<open>
  C29: closing and reopening the wallet with the same password gives the same wallet: the same
  seed, the same stored nodes and the same running nodes under the same keys, whether the seed was
  given, found or made up the first time.
\<close>

theorem reopening_gives_the_same_wallet:
  assumes "bdk_ok E" "node_manager_new E pw given s = (Ok nm, s')"
    "net_store t = net_store s'" "node_manager_new E pw None t = (Ok nm', t')"
  shows "nm' = nm \<and> get_mnemonic E \<lparr>password = pw\<rparr> (net_store t') = Ok (mnemonic nm)"
proof -
  have web: "web_ok E" using bdk_okD(1) [OF assms(1)] .
  obtain m b b2 ns where one: "load_mnemonic E \<lparr>password = pw\<rparr> given (net_store s) = (Ok m, b)"
    "get_nodes E b2 = Ok ns" "net_store s' = b2"
    "nm = \<lparr>mnemonic = m, nm_storage = \<lparr>password = pw\<rparr>, node_storage = ns,
       nodes = nodes_of E m \<lparr>password = pw\<rparr> (ns_nodes ns) []\<rparr>"
    by (rule node_manager_new_Ok [OF assms(2)])
  obtain m' c c2 ns' where two: "load_mnemonic E \<lparr>password = pw\<rparr> None (net_store t) = (Ok m', c)"
    "get_nodes E c2 = Ok ns'" "net_store t' = c2"
    "nm' = \<lparr>mnemonic = m', nm_storage = \<lparr>password = pw\<rparr>, node_storage = ns',
       nodes = nodes_of E m' \<lparr>password = pw\<rparr> (ns_nodes ns') []\<rparr>"
    by (rule node_manager_new_Ok [OF assms(4)])
  have "get_mnemonic E \<lparr>password = pw\<rparr> b2 = (Ok m :: (Mnemonic, MutinyStorageError) result)"
    using loaded_mnemonic_reads [OF web one(1)] db_only_mnemonic [OF assms(1) opening_after_load [OF assms(2) one(1)], of E] one(3)
    by simp
  with two(1) assms(3) one(3) have m: "m' = m" "c = b2" by (simp_all add: load_mnemonic_def)
  have db: "db_only E b2 c2" using opening_after_load [OF assms(4) two(1)] m two(3) by simp
  from db_only_nodes [OF assms(1) this, of E] one(2) two(2) have "ns' = ns" by simp
  moreover have "get_mnemonic E \<lparr>password = pw\<rparr> c2 = Ok m"
    using db_only_mnemonic [OF assms(1) db] \<open>get_mnemonic E \<lparr>password = pw\<rparr> b2 = Ok m\<close> by metis
  ultimately show ?thesis using one two m by simp
qed

lemma checksum_mismatch_panics:
  assumes "db_get E (json_bytes E) strg (MapDescriptorChecksum External) b = Ok (Some cs)"
    "descriptor_checksum E m External \<noteq> cs"
  shows "wallet_new E m strg b = (Panic, b)"
  using assms by (auto simp: wallet_new_def pbind_def check_descriptor_checksum_def perr_def)

lemma db_get_cong_set:
  assumes "bdk_ok E" "\<And>k. k \<noteq> mnemonic_key \<Longrightarrow> raw_item b' k = raw_item b k"
  shows "db_get E c self k b' = db_get E c self k b"
  by (rule db.lookup_cong) (use assms db_keys_apart(1) [OF assms(1)] in auto)

lemma insert_mnemonic_frame:
  assumes "insert_mnemonic E strg m b = (Ok m', b')" "k \<noteq> mnemonic_key"
  shows "raw_item b' k = raw_item b k"
  using assms mbs.put_frame by (fastforce simp: insert_mnemonic_Ok_iff)

text \<open>
  C33: restoring another seed over an existing wallet destroys it: the constructor first replaces
  the stored seed and then panics on the descriptor checksum that the on-chain database keeps of
  the old one; from then on every opening without a seed panics too.
\<close>

theorem restoring_over_a_wallet_destroys_it:
  assumes "bdk_ok E" "mnemonic_from_str E phrase = Some m"
    "db_get E (json_bytes E) \<lparr>password = pw\<rparr> (MapDescriptorChecksum External) (net_store s) = Ok (Some cs)"
    "descriptor_checksum E m External \<noteq> cs"
    "fst (insert_mnemonic E \<lparr>password = pw\<rparr> m (net_store s) :: (Mnemonic, MutinyError) result \<times> browser) = Ok m"
    "node_manager_new E pw (Some phrase) s = (r, s')"
  shows "r = Panic \<and> get_mnemonic E \<lparr>password = pw\<rparr> (net_store s') = Ok m \<and>
    (\<forall>t. net_store t = net_store s' \<longrightarrow> fst (node_manager_new E pw None t) = Panic)"
proof -
  let ?strg = "\<lparr>password = pw\<rparr>"
  obtain b where b: "insert_mnemonic E ?strg m (net_store s) = ((Ok m, b) :: (Mnemonic, MutinyError) result \<times> browser)"
    using assms(5) by (metis prod.collapse)
  have "db_get E (json_bytes E) ?strg (MapDescriptorChecksum External) b = Ok (Some cs)"
    using db_get_cong_set [OF assms(1) insert_mnemonic_frame [OF b], of "json_bytes E"] assms(3) by simp
  from checksum_mismatch_panics [OF this assms(4)]
  have panic: "wallet_new E m ?strg b = ((Panic, b) :: (unit, MutinyError) result \<times> browser)" .
  have r: "r = Panic" "net_store s' = b"
    using assms(2,6) b panic
    by (auto simp: node_manager_new_def Let_def pmap_err_def pbind_def on_browser_def load_mnemonic_def)
  have g: "get_mnemonic E ?strg b = Ok m"
    using inserted_mnemonic_reads [OF bdk_okD(1) [OF assms(1)] b] by simp
  have "fst (node_manager_new E pw None t) = Panic" if "net_store t = b" for t
    using g panic that
    by (simp add: node_manager_new_def Let_def pmap_err_def pbind_def on_browser_def load_mnemonic_def)
  with r g show ?thesis by auto
qed

text \<open>
  C34: opening an encrypted wallet without its password replaces the seed: a stored seed that reads
  under the password, but whose stored text is no JSON string (a ciphertext is not), counts as no
  seed at all for the empty password; a new one is made up and stored in its place, whatever
  happens afterwards.
\<close>

theorem opening_without_password_replaces_the_seed:
  assumes "bdk_ok E" "get_mnemonic E \<lparr>password = pw\<rparr> (net_store s) = Ok m"
    "ls_get (json_string E) mnemonic_key (net_store s) = Ok text" "from_json (json_string E) text = None"
    "load_mnemonic E \<lparr>password = []\<rparr> None (net_store s) = (Ok m', b)"
    "node_manager_new E [] None s = (r, s')"
  shows "m' = mnemonic_of_entropy E (os_fill E (draws (net_store s)) 16) \<and>
    get_mnemonic E \<lparr>password = []\<rparr> (net_store s') = Ok m' \<and>
    ls_get (json_string E) mnemonic_key (net_store s') \<noteq> Ok text"
proof -
  let ?plain = "\<lparr>password = []\<rparr> :: MutinyBrowserStorage"
  have "mbs_get E (json_string E) ?plain mnemonic_key (net_store s) = Err SerdeError"
    by (simp add: mbs_get_def assms(3,4))
  then have "get_mnemonic E ?plain (net_store s) = Err SerdeError"
    by (simp add: get_mnemonic_def)
  with assms(5) obtain u where ins:
    "insert_mnemonic E ?plain (mnemonic_of_entropy E (os_fill E (draws (net_store s)) 16)) u = ((Ok m', b) :: (Mnemonic, MutinyError) result \<times> browser)"
    by (auto simp: load_mnemonic_def pbind_def random_bytes_def preturn_def)
  have web: "web_ok E" using bdk_okD(1) [OF assms(1)] .
  have m': "m' = mnemonic_of_entropy E (os_fill E (draws (net_store s)) 16)" "get_mnemonic E ?plain b = Ok m'"
    using inserted_mnemonic_reads [OF web ins] by simp_all
  have db: "db_only E b (net_store s')" by (rule opening_after_load [OF assms(6,5)])
  then have raw: "raw_item (net_store s') mnemonic_key = raw_item b mnemonic_key"
    using db_keys_apart(1) [OF assms(1)] by (auto simp: db_only_def)
  have "ls_get (json_string E) mnemonic_key b \<noteq> Ok text"
  proof
    assume "ls_get (json_string E) mnemonic_key b = Ok text"
    then have "mbs_get E (json_string E) ?plain mnemonic_key b = Err SerdeError"
      by (simp add: mbs_get_def assms(4))
    with m'(2) show False by (simp add: get_mnemonic_def)
  qed
  then have "ls_get (json_string E) mnemonic_key (net_store s') \<noteq> Ok text"
    by (simp add: ls_get_def raw)
  with m' db_only_mnemonic [OF assms(1) db] show ?thesis by metis
qed

section \<open>New nodes and the list of peers\<close>

lemma fold_max_ge: "\<forall>x \<in> set (i # is). x \<le> fold max is (i :: u32)"
proof (induction "is" arbitrary: i)
  case (Cons j js)
  from Cons.IH [of "max j i"] have "max j i \<le> fold max js (max j i)" "\<forall>x \<in> set js. x \<le> fold max js (max j i)"
    by simp_all
  then show ?case by (simp del: max.bounded_iff) (meson max.cobounded1 max.cobounded2 order.trans)
qed simp

lemma less_Suc_word: "unat (x :: u32) < 2 ^ 32 - 1 \<Longrightarrow> x < x + 1"
  by (simp add: word_less_nat_alt unat_word_ariths)

lemma next_node_index_above:
  assumes "\<forall>(_, n) \<in> set (ns_nodes ns). unat (child_index n) < 2 ^ 32 - 1" "(k, n) \<in> set (ns_nodes ns)"
  shows "child_index n < next_node_index ns"
proof (cases "map (child_index \<circ> snd) (ns_nodes ns)")
  case Nil
  with assms(2) show ?thesis by simp
next
  case (Cons i "is")
  let ?m = "fold max is i"
  have mem: "fold max is i \<in> set (i # is)"
  proof (induction "is" arbitrary: i)
    case (Cons j js)
    from Cons.IH [of "max j i"] show ?case by (auto simp: max_def split: if_splits)
  qed simp
  have elems: "set (i # is) = (child_index \<circ> snd) ` set (ns_nodes ns)"
    unfolding Cons [symmetric] by simp
  then obtain x where "x \<in> set (ns_nodes ns)" "?m = child_index (snd x)"
    using mem by (metis (no_types, lifting) comp_apply imageE)
  with assms(1) have m: "unat ?m < 2 ^ 32 - 1" by (cases x) fastforce
  have "child_index n \<in> set (i # is)"
    unfolding elems using assms(2) by force
  then have "child_index n \<le> ?m" using fold_max_ge by blast
  also have "?m < ?m + 1" using m by (rule less_Suc_word)
  finally show ?thesis by (simp add: next_node_index_def Cons)
qed

text \<open>
  C30: a new node gets a child index above every index in use, so its keys are its own, and a place
  in the stored list under its id; the list is saved before the node is started, so it is in the
  list however starting it ends, also when that fails.
\<close>

theorem new_node_has_its_own_index:
  assumes "web_ok E" "get_nodes E (net_store s) = Ok ns"
    "\<forall>(_, n) \<in> set (ns_nodes ns). unat (child_index n) < 2 ^ 32 - 1"
    "create_new_node E nm s = (r, nm', s')"
  defines "n \<equiv> \<lparr>node_uuid = uuid_of_random E (os_fill E (draws (net_store s)) 16), child_index = next_node_index ns\<rparr>"
  defines "all \<equiv> \<lparr>ns_nodes = AList.update (node_uuid n) n (ns_nodes ns)\<rparr>"
  assumes saves: "fst (insert_nodes E all ((net_store s)\<lparr>draws := Suc (draws (net_store s))\<rparr>)) = Ok ()"
  shows "(\<forall>(_, i) \<in> set (ns_nodes ns). child_index i < child_index n) \<and>
    get_nodes E (net_store s') = Ok all \<and> node_storage nm' = all \<and>
    (\<forall>u pk. r = Ok (u, pk) \<longrightarrow> u = node_uuid n \<and> node_key E (mnemonic nm) (child_index n) = Some pk \<and>
       map_of (nodes nm') (pubkey_to_string E pk) = Some (node_of E (mnemonic nm) (nm_storage nm) n))"
proof -
  obtain b where b: "insert_nodes E all ((net_store s)\<lparr>draws := Suc (draws (net_store s))\<rparr>) = (Ok (), b)"
    using saves by (metis prod.collapse)
  obtain q u where q: "node_new E n (mnemonic nm) (nm_storage nm) (s\<lparr>net_store := b\<rparr>) = (q, u)" by fastforce
  have run: "create_new_node E nm s =
      (let nm1 = nm\<lparr>node_storage := all\<rparr> in
       case q of
         Ok nd \<Rightarrow> (Ok (node_uuid n, node_pubkey nd),
            nm1\<lparr>nodes := AList.update (pubkey_to_string E (node_pubkey nd)) nd (nodes nm1)\<rparr>, u)
       | Err e \<Rightarrow> (Err e, nm1, u) | Panic \<Rightarrow> (Panic, nm1, u))"
    using b q by (simp add: create_new_node_def assms(2) random_bytes_def n_def all_def pmap_err_def Let_def split: result.split)
  have store: "net_store u = b"
    using node_new_store [of E n "mnemonic nm" "nm_storage nm" "s\<lparr>net_store := b\<rparr>"] q by simp
  have saved: "get_nodes E (net_store s') = Ok all" "node_storage nm' = all"
    using insert_nodes_get [OF assms(1) b] run assms(4) store
    by (auto simp: Let_def split: result.splits)
  have above: "\<forall>(_, i) \<in> set (ns_nodes ns). child_index i < child_index n"
    using next_node_index_above [OF assms(3)] by (auto simp: n_def)
  have "u' = node_uuid n \<and> node_key E (mnemonic nm) (child_index n) = Some pk \<and>
      map_of (nodes nm') (pubkey_to_string E pk) = Some (node_of E (mnemonic nm) (nm_storage nm) n)"
    if "r = Ok (u', pk)" for u' pk
  proof -
    from that run assms(4) obtain nd where nd: "q = Ok nd" "u' = node_uuid n" "pk = node_pubkey nd"
      "nm' = nm\<lparr>node_storage := all, nodes := AList.update (pubkey_to_string E pk) nd (nodes nm)\<rparr>"
      by (cases q) (auto simp: Let_def)
    with node_new_Ok [of E n "mnemonic nm" "nm_storage nm" _ nd u] q have "nd = node_of E (mnemonic nm) (nm_storage nm) n" by simp
    moreover have "node_key E (mnemonic nm) (child_index n) = Some pk"
      using q nd by (auto simp: node_new_def Let_def of_option_def preturn_def split: option.splits result.splits elim!: pbind_OkE)
    ultimately show ?thesis using nd by simp
  qed
  with saved above show ?thesis by blast
qed

text \<open>
  The list of peers is sorted, disconnected peers first, has every stored connection string of
  every node and every connected peer, and marks as connected exactly the peers that are.
\<close>

theorem list_peers_spec:
  assumes "list_peers E peer_ids nm b = Ok ps"
  defines "connected \<equiv> (\<Union>(_, n) \<in> set (nodes nm). set (peer_ids n))"
  shows "sorted (map peer_rank ps) \<and>
    (\<exists>stored. stored_peers E nm b = Some stored \<and>
      {(peer_pubkey p, connection_string p) | p. p \<in> set ps \<and> peer_pubkey p \<in> fst ` set stored} = set stored \<and>
      peer_pubkey ` set ps = fst ` set stored \<union> connected) \<and>
    (\<forall>p \<in> set ps. is_connected p \<longleftrightarrow> peer_pubkey p \<in> connected)"
proof -
  obtain stored where st: "stored_peers E nm b = Some stored"
    using assms(1) by (auto simp: list_peers_def and_then_Ok_iff of_option_def split: option.splits)
  let ?con = "concat (map (\<lambda>(_, n). peer_ids n) (nodes nm))"
  let ?sp = "map (\<lambda>(k, c). \<lparr>peer_pubkey = k, connection_string = c, is_connected = k \<in> set ?con\<rparr>) stored"
  let ?mi = "map (\<lambda>k. \<lparr>peer_pubkey = k, connection_string = ''unknown'', is_connected = True\<rparr>)
    (filter (\<lambda>k. k \<notin> set (map peer_pubkey ?sp)) ?con)"
  have ps: "ps = sort_key peer_rank (?sp @ ?mi)"
    using assms(1) unfolding list_peers_def st Let_def of_option_simps and_then.simps result.inject by (rule sym)
  have con: "set ?con = connected" by (auto simp: connected_def)
  have keys: "set (map peer_pubkey ?sp) = fst ` set stored" by force
  have set: "set ps = (\<lambda>(k, c). \<lparr>peer_pubkey = k, connection_string = c, is_connected = k \<in> connected\<rparr>) ` set stored \<union>
      (\<lambda>k. \<lparr>peer_pubkey = k, connection_string = ''unknown'', is_connected = True\<rparr>) ` (connected - fst ` set stored)"
  proof -
    have "set ps = set ?sp \<union> set ?mi" unfolding ps set_sort set_append ..
    moreover have "set ?sp = (\<lambda>(k, c). \<lparr>peer_pubkey = k, connection_string = c, is_connected = k \<in> connected\<rparr>) ` set stored"
      unfolding con by simp
    moreover have "set (filter (\<lambda>k. k \<notin> set (map peer_pubkey ?sp)) ?con) = connected - fst ` set stored"
      unfolding set_filter keys unfolding con by blast
    ultimately show ?thesis unfolding set_map [of _ "filter _ _"] by simp
  qed
  have "sorted (map peer_rank ps)" unfolding ps by simp
  moreover have "{(peer_pubkey p, connection_string p) | p. p \<in> set ps \<and> peer_pubkey p \<in> fst ` set stored} = set stored"
    unfolding set by force
  moreover have "peer_pubkey ` set ps = fst ` set stored \<union> connected" unfolding set by (force simp: image_Un image_image)
  moreover have "\<forall>p \<in> set ps. is_connected p \<longleftrightarrow> peer_pubkey p \<in> connected" unfolding set by auto
  ultimately show ?thesis using st by blast
qed

section \<open>A concrete instance\<close>

definition seed_one :: Mnemonic where "seed_one = Mnemonic (as_bytes ''AB'')"
definition seed_two :: Mnemonic where "seed_two = Mnemonic (as_bytes ''CD'')"

definition demo_nm :: nm_env where
  "demo_nm = net_env.extend demo_net (nm_env.fields (\<lambda>_ i. Some (PublicKey [ucast i])) Some (\<lambda>b _. Some b)
     (\<lambda>_ _. []) Some [] (\<lambda>_. Some 1) (\<lambda>_. Some []) (\<lambda>_. seed_two) (\<lambda>_. ''u'') (\<lambda>m _. if m = seed_one then [1, 2] else [3]))"

lemmas demo_nm_defs = demo_nm_def nm_env.defs demo_net_defs

lemma demo_nm_ok: "ldk_ok demo_nm" "bdk_ok demo_nm" "web_ok demo_nm"
proof -
  have "ldk_ok demo_nm = ldk_ok demo_net"
    unfolding ldk_ok_def bdk_ok_def web_ok_def crypto_ok_def by (simp add: demo_nm_defs)
  then show "ldk_ok demo_nm" by (simp add: demo_net_ok)
  then show "bdk_ok demo_nm" "web_ok demo_nm" by (auto dest: ldk_okD)
qed

definition demo_start :: net_state where
  "demo_start = \<lparr>net_store = demo_browser, asked = []\<rparr>"

definition demo_open :: "(NodeManager, MutinyJsError) result \<times> net_state" where
  "demo_open = node_manager_new demo_nm [] (Some ''AB'') demo_start"

definition demo_reopen :: "(NodeManager, MutinyJsError) result \<times> net_state" where
  "demo_reopen = node_manager_new demo_nm [] None (snd demo_open)"

fun is_ok :: "('a, 'e) result \<Rightarrow> bool" where
  "is_ok (Ok _) = True"
| "is_ok _ = False"

lemma demo_opens: "is_ok (fst demo_open)" "is_ok (fst demo_reopen)"
  by code_simp+

lemma reopening_gives_the_same_wallet_witness:
  "\<exists>nm t'. demo_reopen = (Ok nm, t') \<and> fst demo_open = Ok nm"
proof -
  obtain nm s' where one: "node_manager_new demo_nm [] (Some ''AB'') demo_start = (Ok nm, s')"
    using demo_opens(1) by (cases demo_open; cases "fst demo_open") (auto simp: demo_open_def)
  then have s': "snd demo_open = s'" "fst demo_open = Ok nm" by (simp_all add: demo_open_def)
  obtain nm' t' where two: "node_manager_new demo_nm [] None s' = (Ok nm', t')"
    using demo_opens(2) s' by (cases demo_reopen; cases "fst demo_reopen") (auto simp: demo_reopen_def)
  from reopening_gives_the_same_wallet [OF demo_nm_ok(2) one refl two] two s' show ?thesis
    by (auto simp: demo_reopen_def)
qed

lemma demo_existing_wallet:
  "db_get demo_nm (json_bytes demo_nm) \<lparr>password = []\<rparr> (MapDescriptorChecksum External) (net_store (snd demo_open)) = Ok (Some [1, 2])"
  "fst (insert_mnemonic demo_nm \<lparr>password = []\<rparr> seed_two (net_store (snd demo_open)) :: (Mnemonic, MutinyError) result \<times> browser) = Ok seed_two"
  "mnemonic_from_str demo_nm ''CD'' = Some seed_two" "descriptor_checksum demo_nm seed_two External \<noteq> [1, 2]"
  by code_simp+

lemma restoring_over_a_wallet_destroys_it_witness:
  "fst (node_manager_new demo_nm [] (Some ''CD'') (snd demo_open)) = Panic"
proof -
  obtain r s' where run: "node_manager_new demo_nm [] (Some ''CD'') (snd demo_open) = (r, s')" by fastforce
  from restoring_over_a_wallet_destroys_it [OF demo_nm_ok(2) demo_existing_wallet(3,1,4,2) run] run show ?thesis by simp
qed

definition demo_ciphertext :: string where
  "demo_ciphertext = the (encrypt demo_crypto 0 [CHR 0x22, CHR ''A'', CHR ''B'', CHR 0x22] ''pw'')"

definition demo_locked :: net_state where
  "demo_locked = \<lparr>net_store = \<lparr>items = [(mnemonic_key, CHR 0x22 # demo_ciphertext @ [CHR 0x22])], draws = 2\<rparr>, asked = []\<rparr>"

lemma demo_nm_quoted: "json_string demo_nm = quoted_codec" "accepts demo_nm = (\<lambda>_ _ _. True)"
  "mnemonic_from_str demo_nm = (\<lambda>s. Some (Mnemonic (as_bytes s)))" "mnemonic_to_string demo_nm = (\<lambda>m. of_bytes (entropy m))"
  by (simp_all add: demo_nm_defs demo_web_def)

lemma demo_nm_decrypt: "decrypt demo_nm = decrypt demo_crypto"
proof -
  have "base64_decode demo_nm = base64_decode demo_crypto" "salt_b64 demo_nm = salt_b64 demo_crypto"
    "pbkdf2_hash demo_nm = pbkdf2_hash demo_crypto" "aes_decrypt demo_nm = aes_decrypt demo_crypto"
    by (simp_all add: demo_nm_defs demo_web_def)
  then show ?thesis by (intro ext) (simp only: decrypt_def derive_key_def)
qed

lemma demo_locked_facts:
  "get_mnemonic demo_nm \<lparr>password = ''pw''\<rparr> (net_store demo_locked) = Ok seed_one"
  "ls_get (json_string demo_nm) mnemonic_key (net_store demo_locked) = Ok demo_ciphertext"
  "from_json (json_string demo_nm) demo_ciphertext = None"
proof -
  obtain e where e: "encrypt demo_crypto 0 [CHR 0x22, CHR ''A'', CHR ''B'', CHR 0x22] ''pw'' = Some e"
    using demo_encrypt_Some by blast
  then have c: "demo_ciphertext = e" by (simp add: demo_ciphertext_def)
  show stored: "ls_get (json_string demo_nm) mnemonic_key (net_store demo_locked) = Ok demo_ciphertext"
    by (simp add: ls_get_def demo_locked_def raw_item_def demo_nm_quoted quoted_codec_def)
  show "from_json (json_string demo_nm) demo_ciphertext = None"
    using e by (auto simp: c encrypt_def demo_crypto_def demo_nm_quoted quoted_codec_def Let_def bind_eq_Some_conv)
  have "decrypt demo_nm demo_ciphertext ''pw'' = Some [CHR 0x22, CHR ''A'', CHR ''B'', CHR 0x22]"
    unfolding demo_nm_decrypt c by (rule decrypt_encrypt [OF demo_crypto_ok _ e]) (rule utf8_valid_string, simp)
  then show "get_mnemonic demo_nm \<lparr>password = ''pw''\<rparr> (net_store demo_locked) = Ok seed_one"
    by (simp add: get_mnemonic_def mbs_get_stored [OF stored] demo_nm_quoted quoted_codec_def seed_one_def)
qed

lemma demo_locked_load: "\<exists>b. load_mnemonic demo_nm \<lparr>password = []\<rparr> None (net_store demo_locked) = (Ok seed_two, b)"
proof -
  have "get_mnemonic demo_nm \<lparr>password = []\<rparr> (net_store demo_locked) = Err SerdeError"
    by (simp add: get_mnemonic_def mbs_get_stored [OF demo_locked_facts(2)] demo_locked_facts(3))
  moreover have "mnemonic_of_entropy demo_nm x = seed_two" for x by (simp add: demo_nm_defs)
  moreover have "\<exists>b'. mbs_set demo_nm (json_string demo_nm) \<lparr>password = []\<rparr> mnemonic_key (mnemonic_to_string demo_nm seed_two) b = (Ok (), b')" for b
    by (rule set_plain [where data = "[CHR 0x22, CHR ''C'', CHR ''D'', CHR 0x22]"])
      (simp_all add: demo_nm_quoted quoted_codec_def seed_two_def ascii_def)
  then have "\<exists>b'. insert_mnemonic demo_nm \<lparr>password = []\<rparr> seed_two b = ((Ok seed_two, b') :: (Mnemonic, MutinyError) result \<times> browser)" for b
    by (simp add: insert_mnemonic_Ok_iff)
  ultimately show ?thesis
    by (simp add: load_mnemonic_def pbind_def random_bytes_def preturn_def)
qed

lemma opening_without_password_replaces_the_seed_witness:
  "\<exists>r s'. node_manager_new demo_nm [] None demo_locked = (r, s') \<and>
    get_mnemonic demo_nm \<lparr>password = []\<rparr> (net_store s') = Ok seed_two"
proof -
  obtain b where load: "load_mnemonic demo_nm \<lparr>password = []\<rparr> None (net_store demo_locked) = (Ok seed_two, b)"
    using demo_locked_load by blast
  obtain r s' where run: "node_manager_new demo_nm [] None demo_locked = (r, s')" by fastforce
  from opening_without_password_replaces_the_seed [OF demo_nm_ok(2) demo_locked_facts load run] run
  show ?thesis by simp
qed

definition demo_nodes :: NodeStorage where
  "demo_nodes = \<lparr>ns_nodes = [(''u'', \<lparr>node_uuid = ''u'', child_index = 0\<rparr>)]\<rparr>"

lemma demo_new_node_facts:
  "get_nodes demo_nm (net_store demo_start) = Ok \<lparr>ns_nodes = []\<rparr>"
  "fst (insert_nodes demo_nm demo_nodes ((net_store demo_start)\<lparr>draws := Suc (draws (net_store demo_start))\<rparr>)) = Ok ()"
  "uuid_of_random demo_nm x = ''u''"
  by code_simp+

definition demo_manager :: NodeManager where
  "demo_manager = \<lparr>mnemonic = seed_one, nm_storage = plain, node_storage = \<lparr>ns_nodes = []\<rparr>, nodes = []\<rparr>"

lemma new_node_has_its_own_index_witness:
  "\<exists>r nm' s'. create_new_node demo_nm demo_manager demo_start = (r, nm', s') \<and> node_storage nm' = demo_nodes \<and>
    get_nodes demo_nm (net_store s') = Ok demo_nodes"
proof -
  obtain r nm' s' where run: "create_new_node demo_nm demo_manager demo_start = (r, nm', s')" by (metis prod_cases3)
  have "next_node_index \<lparr>ns_nodes = []\<rparr> = 0" by (simp add: next_node_index_def)
  with new_node_has_its_own_index [OF demo_nm_ok(3) demo_new_node_facts(1) _ run] demo_new_node_facts(2,3) run
  show ?thesis by (simp add: demo_nodes_def)
qed

definition demo_connected :: NodeManager where
  "demo_connected = demo_manager\<lparr>nodes := [(''n'', \<lparr>uuid = ''a'', node_pubkey = PublicKey [9], persister = demo_persister\<rparr>)]\<rparr>"

lemma list_peers_spec_witness:
  "\<exists>ps. list_peers demo_nm (\<lambda>_. [PublicKey [7]]) demo_connected demo_peers = Ok ps \<and>
    PublicKey [2] \<in> peer_pubkey ` set ps \<and> PublicKey [7] \<in> peer_pubkey ` set ps"
proof -
  have "is_ok (list_peers demo_nm (\<lambda>_. [PublicKey [7]]) demo_connected demo_peers)"
    "stored_peers demo_nm demo_connected demo_peers = Some [(PublicKey [2], ''02@h.io:99'')]"
    by code_simp+
  moreover from this obtain ps where "list_peers demo_nm (\<lambda>_. [PublicKey [7]]) demo_connected demo_peers = Ok ps"
    by (cases "list_peers demo_nm (\<lambda>_. [PublicKey [7]]) demo_connected demo_peers") auto
  ultimately show ?thesis
    using list_peers_spec [of demo_nm "\<lambda>_. [PublicKey [7]]" demo_connected demo_peers ps]
    by (simp add: demo_connected_def)
qed

end
