(* ===== verification/WalletApi.thy ===== *)
theory WalletApi
  imports NodeManager PaymentFlows
begin

text \<open>
  The wallet as a whole, part two (\<open>node-manager/src/nodemanager.rs\<close>): the calls of the frontend
  about invoices, payments, channels and balances, over the running nodes. The map of nodes is
  walked in the order of its list; the code's hash map has some order of its own. Every result
  carries the error type the frontend sees.
\<close>

section \<open>Calls\<close>

record channel_info = ChannelDetails +
  unspendable_punishment_reserve :: "u64 option"
  funding_txo :: "OutPoint option"

record api_env = pay_env +
  api_network :: Network
  phantom_hint :: "Node \<Rightarrow> PhantomRouteHints"
  channels_of :: "Node \<Rightarrow> Effect list \<Rightarrow> channel_info list"
  outpoint_to_string :: "OutPoint \<Rightarrow> string"
  outpoint_from_str :: "string \<Rightarrow> OutPoint option"

type_synonym 'a api_prog = "(node_state, 'a, MutinyJsError) prog"

definition panics :: "'a api_prog" where
  "panics s = (Panic, s)"

text \<open>\<open>nodes.get(..).unwrap()\<close>\<close>

definition the_node :: "NodeManager \<Rightarrow> string \<Rightarrow> Node api_prog" where
  "the_node nm key = (case map_of (nodes nm) key of Some n \<Rightarrow> preturn n | None \<Rightarrow> panics)"

definition parse_invoice :: "'x api_env_scheme \<Rightarrow> string \<Rightarrow> Invoice api_prog" where
  "parse_invoice E str =
     (case invoice_from_str E str of
        Some i \<Rightarrow> preturn i
      | None \<Rightarrow> perr (js_of_source (FromParse ParseOrSemanticError)))"

definition api_create_invoice ::
  "'x api_env_scheme \<Rightarrow> NodeManager \<Rightarrow> u64 option \<Rightarrow> string \<Rightarrow> MutinyInvoice api_prog" where
  "api_create_invoice E nm amount description =
     (let use_phantom = (length (nodes nm) > 1);
          route_hints = (if use_phantom then Some (map (phantom_hint E \<circ> snd) (nodes nm)) else None) in
      case nodes nm of
        [] \<Rightarrow> perr JsInvoiceCreationFailed
      | (_, first_node) # _ \<Rightarrow>
          pbind (pmap_err js_of_mutiny
            (create_invoice E (persister first_node) (api_network E) amount description route_hints)) (\<lambda>invoice.
          preturn (mutiny_of_invoice E invoice)))"

definition api_pay_invoice ::
  "'x api_env_scheme \<Rightarrow> NodeManager \<Rightarrow> string \<Rightarrow> string \<Rightarrow> u64 option \<Rightarrow> MutinyInvoice api_prog" where
  "api_pay_invoice E nm from_node invoice_str amt_sats =
     pbind (parse_invoice E invoice_str) (\<lambda>invoice.
     if inv_currency (inv_fields invoice) \<noteq> currency_from_network (api_network E) then perr JsIncorrectNetwork
     else
       pbind (the_node nm from_node) (\<lambda>n.
       pmap_err js_of_mutiny (pay_invoice E (persister n) invoice amt_sats)))"

definition api_keysend ::
  "'x api_env_scheme \<Rightarrow> NodeManager \<Rightarrow> string \<Rightarrow> string \<Rightarrow> u64 \<Rightarrow> MutinyInvoice api_prog" where
  "api_keysend E nm from_node to_node amt_sats =
     pbind (the_node nm from_node) (\<lambda>n.
     case pubkey_from_str E to_node of
       None \<Rightarrow> perr JsPubkeyInvalid
     | Some k \<Rightarrow> pmap_err js_of_mutiny (keysend E (persister n) k amt_sats))"

definition decode_invoice :: "'x api_env_scheme \<Rightarrow> string \<Rightarrow> MutinyInvoice api_prog" where
  "decode_invoice E str =
     pbind (parse_invoice E str) (\<lambda>invoice.
     if inv_currency (inv_fields invoice) \<noteq> currency_from_network (api_network E) then perr JsIncorrectNetwork
     else preturn (mutiny_of_invoice E invoice))"

text \<open>The first node that knows the invoice; an error of a node counts as not knowing it.\<close>

fun find_invoice ::
  "'x api_env_scheme \<Rightarrow> Invoice \<Rightarrow> (string \<times> Node) list \<Rightarrow> MutinyInvoice api_prog" where
  "find_invoice E invoice [] s = (Err JsInvoiceInvalid, s)"
| "find_invoice E invoice ((_, n) # ns) s =
     (case get_invoice E (persister n) invoice s of
        (Ok i, s') \<Rightarrow> (Ok i, s')
      | (Err _, s') \<Rightarrow> find_invoice E invoice ns s'
      | (Panic, s') \<Rightarrow> (Panic, s'))"

definition api_get_invoice :: "'x api_env_scheme \<Rightarrow> NodeManager \<Rightarrow> string \<Rightarrow> MutinyInvoice api_prog" where
  "api_get_invoice E nm str =
     pbind (parse_invoice E str) (\<lambda>invoice. find_invoice E invoice (nodes nm))"

fun find_by_hash ::
  "'x api_env_scheme \<Rightarrow> string \<Rightarrow> (string \<times> Node) list \<Rightarrow> MutinyInvoice api_prog" where
  "find_by_hash E hash [] s = (Err JsInvoiceInvalid, s)"
| "find_by_hash E hash ((_, n) # ns) s =
     (case list_invoices E (persister n) s of
        (Ok invs, s') \<Rightarrow>
          (case find (\<lambda>i. mi_payment_hash i = hash) invs of
             Some i \<Rightarrow> (Ok i, s')
           | None \<Rightarrow> find_by_hash E hash ns s')
      | (Err _, s') \<Rightarrow> find_by_hash E hash ns s'
      | (Panic, s') \<Rightarrow> (Panic, s'))"

definition get_invoice_by_hash :: "'x api_env_scheme \<Rightarrow> NodeManager \<Rightarrow> string \<Rightarrow> MutinyInvoice api_prog" where
  "get_invoice_by_hash E nm hash = find_by_hash E hash (nodes nm)"

fun collect_invoices ::
  "'x api_env_scheme \<Rightarrow> (string \<times> Node) list \<Rightarrow> MutinyInvoice list \<Rightarrow> MutinyInvoice list api_prog" where
  "collect_invoices E [] invoices s = (Ok invoices, s)"
| "collect_invoices E ((_, n) # ns) invoices s =
     (case list_invoices E (persister n) s of
        (Ok invs, s') \<Rightarrow> collect_invoices E ns (invoices @ invs) s'
      | (Err _, s') \<Rightarrow> collect_invoices E ns invoices s'
      | (Panic, s') \<Rightarrow> (Panic, s'))"

definition api_list_invoices :: "'x api_env_scheme \<Rightarrow> NodeManager \<Rightarrow> MutinyInvoice list api_prog" where
  "api_list_invoices E nm = collect_invoices E (nodes nm) []"

record MutinyChannel =
  mc_balance :: u64
  mc_size :: u64
  mc_reserve :: u64
  mc_outpoint :: "string option"
  mc_peer :: string
  mc_confirmed :: bool

definition mutiny_channel :: "'x api_env_scheme \<Rightarrow> channel_info \<Rightarrow> MutinyChannel" where
  "mutiny_channel E c = \<lparr>mc_balance = outbound_capacity_msat c div 1000, mc_size = channel_value_satoshis c,
     mc_reserve = (case unspendable_punishment_reserve c of Some r \<Rightarrow> r | None \<Rightarrow> 0),
     mc_outpoint = map_option (outpoint_to_string E) (funding_txo c), mc_peer = pubkey_to_string E (peer_id c),
     mc_confirmed = is_channel_ready c\<rparr>"

definition api_open_channel ::
  "'x api_env_scheme \<Rightarrow> NodeManager \<Rightarrow> string \<Rightarrow> string \<Rightarrow> u64 \<Rightarrow> MutinyChannel api_prog" where
  "api_open_channel E nm from_node to_pubkey amount =
     pbind (the_node nm from_node) (\<lambda>n.
     case pubkey_from_str E to_pubkey of
       None \<Rightarrow> perr JsPubkeyInvalid
     | Some k \<Rightarrow>
         pbind (pmap_err js_of_mutiny (open_channel E k amount)) (\<lambda>chan_id.
         pbind (pread (\<lambda>s. Ok (channels_of E n (did s)))) (\<lambda>all_channels.
         case find (\<lambda>c. channel_id c = chan_id) all_channels of
           Some c \<Rightarrow> preturn (mutiny_channel E c)
         | None \<Rightarrow> perr JsChannelCreationFailed)))"

definition find_channel ::
  "'x api_env_scheme \<Rightarrow> Effect list \<Rightarrow> OutPoint \<Rightarrow> (string \<times> Node) list \<Rightarrow> channel_info option" where
  "find_channel E log op ns =
     List.find (\<lambda>c. funding_txo c = Some op) (concat (map (\<lambda>(_, n). channels_of E n log) ns))"

definition close_channel :: "'x api_env_scheme \<Rightarrow> NodeManager \<Rightarrow> string \<Rightarrow> unit api_prog" where
  "close_channel E nm outpoint_str =
     (case outpoint_from_str E outpoint_str of
        None \<Rightarrow> panics
      | Some op \<Rightarrow>
          pbind (pread (\<lambda>s. Ok (find_channel E (did s) op (nodes nm)))) (\<lambda>channel_opt.
          case channel_opt of
            None \<Rightarrow> perr JsChannelClosingFailed
          | Some c \<Rightarrow>
              pbind (pmap_err js_of_mutiny (call (CloseChannel (channel_id c) (peer_id c)) (succeeded E))) (\<lambda>ok.
              if ok then preturn () else perr JsChannelClosingFailed)))"

definition list_channels :: "'x api_env_scheme \<Rightarrow> NodeManager \<Rightarrow> node_state \<Rightarrow> MutinyChannel list" where
  "list_channels E nm s = map (mutiny_channel E) (concat (map (\<lambda>(_, n). channels_of E n (did s)) (nodes nm)))"

record WalletBalance =
  wb_confirmed :: u64
  wb_trusted_pending :: u64
  wb_untrusted_pending :: u64
  wb_immature :: u64

record MutinyBalance =
  confirmed :: u64
  unconfirmed :: u64
  lightning :: u64

text \<open>Sums wrap. \<open>None\<close>: the on-chain wallet failed.\<close>

definition get_balance ::
  "'x api_env_scheme \<Rightarrow> WalletBalance option \<Rightarrow> NodeManager \<Rightarrow> node_state \<Rightarrow> (MutinyBalance, MutinyJsError) result" where
  "get_balance E onchain nm s =
     (case onchain of
        None \<Rightarrow> Err JsWalletOperationFailed
      | Some o1 \<Rightarrow>
          (let lightning_msats = sum_list (map outbound_capacity_msat
             (filter is_usable (concat (map (\<lambda>(_, n). channels_of E n (did s)) (nodes nm))))) in
           Ok \<lparr>confirmed = wb_confirmed o1 + wb_trusted_pending o1,
               unconfirmed = wb_untrusted_pending o1 + wb_immature o1,
               lightning = lightning_msats div 1000\<rparr>))"

section \<open>Properties\<close>

text \<open>
  The wallet pays only what it should: a payment asked for by the frontend reaches LDK or the
  storage only when the invoice parses, is for the wallet's own network and the paying node runs
  here; then it is the payment of \<open>Node::pay_invoice\<close>, its error translated. Otherwise nothing
  changes: an unreadable invoice and a wrong network are reported, an unknown node is a panic.
\<close>

theorem api_pays_only_own_network:
  "api_pay_invoice E nm from_node str amt s =
    (case invoice_from_str E str of
       None \<Rightarrow> (Err JsInvoiceInvalid, s)
     | Some invoice \<Rightarrow>
         if inv_currency (inv_fields invoice) \<noteq> currency_from_network (api_network E) then (Err JsIncorrectNetwork, s)
         else (case map_of (nodes nm) from_node of
             None \<Rightarrow> (Panic, s)
           | Some n \<Rightarrow>
               (case pay_invoice E (persister n) invoice amt s of (r, s') \<Rightarrow> (map_err js_of_mutiny r, s'))))"
  by (auto simp: api_pay_invoice_def parse_invoice_def the_node_def pbind_def preturn_def perr_def panics_def pmap_err_def
      split: option.split)

lemma list_invoices_effect:
  assumes "list_invoices E p s = (Ok l, s')" "now E = (\<lambda>_. t0)"
  shows "store s' = store s \<and> (storage q = storage p \<longrightarrow> store t = store s \<longrightarrow> (\<exists>t'. list_invoices E q t = (Ok l, t')))"
proof -
  have "\<exists>t'. list_invoices E q t = (Ok l, t')" if "storage q = storage p" "store t = store s"
    using assms that
    by (auto simp: list_invoices_def list_payment_info_from_persisters_def pbind_def pread_def preturn_def read_clock_def
        list_payment_info_def of_option_def assms(2) split: option.splits)
  moreover have "store s' = store s"
    using assms(1)
    by (auto simp: list_invoices_def list_payment_info_from_persisters_def pbind_def pread_def preturn_def read_clock_def
        of_option_def split: option.splits)
  ultimately show ?thesis by blast
qed

lemma collect_invoices_repeats:
  assumes "now E = (\<lambda>_. t0)" "\<forall>(_, n) \<in> set ns. storage (persister n) = storage p"
    "list_invoices E p u = (Ok l, u')" "store s = store u"
  shows "fst (collect_invoices E ns acc s) = Ok (acc @ concat (replicate (length ns) l))"
  using assms(2,4)
proof (induction ns arbitrary: acc s)
  case (Cons a ns)
  obtain k n where a: "a = (k, n)" by fastforce
  with Cons.prems have "storage (persister n) = storage p" by simp
  with list_invoices_effect [OF assms(3,1), of "persister n" s] Cons.prems(2)
  obtain t where t: "list_invoices E (persister n) s = (Ok l, t)" by blast
  with list_invoices_effect [OF t assms(1)] Cons.prems(2) have "store t = store u" by simp
  with Cons t a show ?case by simp
qed simp

text \<open>
  The wallet lists every payment once per node: as long as the clock stands still and listing
  one node's payments succeeds, the list the frontend gets is that list repeated for each node.
\<close>

theorem wallet_lists_payments_once_per_node:
  assumes "now E = (\<lambda>_. t0)" "\<forall>(_, n) \<in> set (nodes nm). storage (persister n) = storage q"
    "list_invoices E q s = (Ok l, s')"
  shows "fst (api_list_invoices E nm s) = Ok (concat (replicate (length (nodes nm)) l))"
  using collect_invoices_repeats [OF assms refl, of "[]"] by (simp add: api_list_invoices_def)

lemma unat_sum_list:
  "(\<Sum>x\<leftarrow>xs. unat (x :: u64)) < 2 ^ 64 \<Longrightarrow> unat (sum_list xs) = (\<Sum>x\<leftarrow>xs. unat x)"
  by (induction xs) (simp_all add: unat_word_ariths)

text \<open>
  While the outbound capacities of the usable channels fit into 64 bits together, the lightning
  balance is their sum in whole satoshis, and no channel that cannot be used counts.
\<close>

theorem lightning_balance_bounds:
  assumes "get_balance E (Some o1) nm s = Ok bal"
    "(\<Sum>c\<leftarrow>filter is_usable (concat (map (\<lambda>(_, n). channels_of E n (did s)) (nodes nm))). unat (outbound_capacity_msat c)) < 2 ^ 64"
  shows "unat (lightning bal) =
    (\<Sum>c\<leftarrow>filter is_usable (concat (map (\<lambda>(_, n). channels_of E n (did s)) (nodes nm))). unat (outbound_capacity_msat c)) div 1000"
proof -
  let ?cs = "filter is_usable (concat (map (\<lambda>(_, n). channels_of E n (did s)) (nodes nm)))"
  have "lightning bal = sum_list (map outbound_capacity_msat ?cs) div 1000"
    using assms(1) by (auto simp: get_balance_def Let_def)
  then show ?thesis
    using unat_sum_list [of "map outbound_capacity_msat ?cs"] assms(2) by (simp add: unat_div comp_def)
qed

section \<open>A concrete instance\<close>

definition demo_usable :: channel_info where
  "demo_usable = \<lparr>channel_id = [1], peer_id = PublicKey [2], forwarding_info = None, inbound_payment_scid = None,
     is_channel_ready = True, is_usable = True, is_public = False, inbound_capacity_msat = 0,
     outbound_capacity_msat = 2500, channel_value_satoshis = 9, inbound_htlc_minimum_msat = None,
     inbound_htlc_maximum_msat = None, unspendable_punishment_reserve = None, funding_txo = None\<rparr>"

definition demo_api :: "PaymentInfo list \<Rightarrow> api_env" where
  "demo_api infos = pay_env.extend (demo_pay infos True) (api_env.fields NetRegtest
     (\<lambda>_. \<lparr>channels = [], phantom_scid = 1, real_node_pubkey = PublicKey [1]\<rparr>) (\<lambda>_ _. [demo_usable]) (\<lambda>_. []) (\<lambda>_. None))"

lemmas demo_api_defs = demo_api_def api_env.defs demo_pay_defs

definition demo_two_nodes :: NodeManager where
  "demo_two_nodes = demo_manager\<lparr>nodes :=
     [(''a'', \<lparr>uuid = ''a'', node_pubkey = PublicKey [1], persister = demo_persister\<rparr>),
      (''b'', \<lparr>uuid = ''b'', node_pubkey = PublicKey [2], persister = demo_other_persister\<rparr>)]\<rparr>"

lemma lightning_balance_bounds_witness:
  "\<exists>bal. get_balance (demo_api []) (Some \<lparr>wb_confirmed = 1, wb_trusted_pending = 2, wb_untrusted_pending = 3, wb_immature = 4\<rparr>)
      demo_two_nodes demo_state = Ok bal \<and> unat (lightning bal) = 5"
proof -
  let ?on = "\<lparr>wb_confirmed = 1, wb_trusted_pending = 2, wb_untrusted_pending = 3, wb_immature = 4\<rparr>"
  have cs: "filter is_usable (concat (map (\<lambda>(_, n). channels_of (demo_api []) n (did demo_state)) (nodes demo_two_nodes))) =
      [demo_usable, demo_usable]" "unat (outbound_capacity_msat demo_usable) = 2500"
    by (simp_all add: demo_api_defs demo_two_nodes_def demo_usable_def)
  obtain bal where "get_balance (demo_api []) (Some ?on) demo_two_nodes demo_state = Ok bal"
    by (simp add: get_balance_def Let_def)
  with lightning_balance_bounds [OF this] show ?thesis by (simp add: cs)
qed

lemma wallet_lists_payments_once_per_node_witness:
  "\<exists>l. fst (api_list_invoices (demo_api []) demo_two_nodes demo_state) = Ok (l @ l)"
proof -
  have clock: "now (demo_api []) = (\<lambda>_. 5)" by (simp add: demo_api_defs)
  have "\<forall>(_, n) \<in> set (nodes demo_two_nodes). storage (persister n) = storage demo_persister"
    by (simp add: demo_two_nodes_def demo_uuids)
  moreover have "list_payment_info (demo_api []) demo_persister i demo_browser = Some []" for i
    by (simp add: list_payment_info_def mbs_scan_def demo_browser_def)
  then obtain l s' where "list_invoices (demo_api []) demo_persister demo_state = (Ok l, s')"
    by (simp add: list_invoices_def list_payment_info_from_persisters_def pbind_def pread_def preturn_def read_clock_def demo_state_def)
  ultimately show ?thesis
    using wallet_lists_payments_once_per_node [OF clock, of demo_two_nodes demo_persister demo_state l s']
    by (auto simp: demo_two_nodes_def)
qed

end
