(* ===== verification/WalletRuns.thy ===== *)
theory WalletRuns
  imports Ledger Background WalletApi
begin

text \<open>
  The runs of \<open>Ledger\<close> are those of the program: what the background processor of a node does, turn after
  turn (\<open>node-manager/src/background.rs\<close>), and what a call of the frontend does
  (\<open>node-manager/src/nodemanager.rs\<close>) is a \<open>wallet_run\<close>, whose actions are the events LDK handed out and
  the calls made.
\<close>

section \<open>The processor\<close>

text \<open>
  \<open>goes_on\<close>: a run of the wallet that has reached the state before goes on to the state after, by
  events handed out to the node only.
\<close>

definition given_event :: "'x bg_env_scheme \<Rightarrow> MutinyNodePersister \<Rightarrow> MutinyNodePersister \<times> NodeAction \<Rightarrow> bool" where
  "given_event E p x \<longleftrightarrow> (\<exists>ev made. x = (p, HandleEvent ev) \<and> ev \<in> set (events_of E made))"

definition goes_on ::
  "'x bg_env_scheme \<Rightarrow> Network \<Rightarrow> MutinyNodePersister set \<Rightarrow> MutinyNodePersister \<Rightarrow> bg_state \<Rightarrow> bg_state \<Rightarrow> bool" where
  "goes_on E net ps p s s' \<longleftrightarrow>
     (\<forall>s0 acts. wallet_run E net ps s0 acts (bg_node s) \<longrightarrow>
       (\<exists>more. wallet_run E net ps s0 (acts @ more) (bg_node s') \<and> list_all (given_event E p) more))"

lemma goes_on_trans:
  assumes "goes_on E net ps p s t" "goes_on E net ps p t u"
  shows "goes_on E net ps p s u"
  unfolding goes_on_def
proof (intro allI impI)
  fix s0 acts assume "wallet_run E net ps s0 acts (bg_node s)"
  with assms(1) obtain m where m: "wallet_run E net ps s0 (acts @ m) (bg_node t)" "list_all (given_event E p) m"
    unfolding goes_on_def by blast
  with assms(2) obtain n where "wallet_run E net ps s0 ((acts @ m) @ n) (bg_node u)" "list_all (given_event E p) n"
    unfolding goes_on_def by blast
  with m(2) show "\<exists>more. wallet_run E net ps s0 (acts @ more) (bg_node u) \<and> list_all (given_event E p) more"
    by (intro exI [of _ "m @ n"]) simp
qed

lemma goes_on_rest:
  assumes "\<forall>q \<in> ps. payments E q (store (bg_node s')) = payments E q (store (bg_node s))"
  shows "goes_on E net ps p s s'"
  unfolding goes_on_def
proof (intro allI impI)
  fix s0 acts assume "wallet_run E net ps s0 acts (bg_node s)"
  from wallet_run.Rest [OF this assms]
  show "\<exists>more. wallet_run E net ps s0 (acts @ more) (bg_node s') \<and> list_all (given_event E p) more"
    by (intro exI [of _ "[]"]) simp
qed

lemma goes_on_refl [simp]: "goes_on E net ps p s s"
  by (rule goes_on_rest) simp

interpretation goes_on: run_preorder "goes_on E net ps p" for E :: "'x bg_env_scheme" and net ps p
  by standard (simp add: goes_on_rest, rule goes_on_trans)













section \<open>The calls of the frontend\<close>

text \<open>A call is at most one action of one of the running nodes.\<close>

definition one_action ::
  "'x pay_env_scheme \<Rightarrow> Network \<Rightarrow> NodeManager \<Rightarrow> (MutinyNodePersister \<times> NodeAction \<Rightarrow> bool) \<Rightarrow> node_state \<Rightarrow> node_state \<Rightarrow> bool" where
  "one_action E net m P s s' \<longleftrightarrow> s' = s \<or>
     (\<exists>(key, n) \<in> set (nodes m). \<exists>a. P (persister n, a) \<and> node_step E (persister n) net a s s')"

lemma one_action_intros:
  "one_action E net m P s s"
  "(key, n) \<in> set (nodes m) \<Longrightarrow> node_step E (persister n) net a s s' \<Longrightarrow> P (persister n, a) \<Longrightarrow> one_action E net m P s s'"
  by (auto simp: one_action_def)

lemma the_node_cases:
  "the_node m key s = (case map_of (nodes m) key of Some n \<Rightarrow> (Ok n, s) | None \<Rightarrow> (Panic, s))"
  by (simp add: the_node_def panics_def preturn_def split: option.split)

text \<open>
  Creating, paying and sending spontaneously are the node's own actions, or change nothing.
\<close>

lemma calls_are_actions:
  shows "api_create_invoice E m amount description s = (r, s') \<Longrightarrow>
      one_action E (api_network E) m (\<lambda>(_, a). \<exists>i. a = CreateInvoice i) s s'"
    and "api_pay_invoice E m from_node str amt s = (r, s') \<Longrightarrow>
      one_action E (api_network E) m (\<lambda>(_, a). \<exists>i. a = Pay i amt) s s'"
    and "api_keysend E m from_node to_node sats s = (r, s') \<Longrightarrow>
      one_action E (api_network E) m (\<lambda>(_, a). \<exists>k. a = Keysend k sats) s s'"
proof -
  assume run: "api_create_invoice E m amount description s = (r, s')"
  show "one_action E (api_network E) m (\<lambda>(_, a). \<exists>i. a = CreateInvoice i) s s'"
  proof (cases "nodes m")
    case Nil
    with run show ?thesis by (simp add: api_create_invoice_def one_action_def)
  next
    case (Cons x xs)
    obtain key n where x: "x = (key, n)" by (cases x)
    obtain hints q u where made: "create_invoice E (persister n) (api_network E) amount description hints s = (q, u)" "s' = u"
      using run Cons x by (auto simp: api_create_invoice_def Let_def pbind_def pmap_err_def preturn_def split: prod.splits result.splits)
    from node_step.CreateInvoice [OF made(1)] show ?thesis
      using Cons x made(2) unfolding one_action_def by auto
  qed
next
  assume run: "api_pay_invoice E m from_node str amt s = (r, s')"
  show "one_action E (api_network E) m (\<lambda>(_, a). \<exists>i. a = Pay i amt) s s'"
    using run
    by (auto simp: api_pay_invoice_def parse_invoice_def the_node_cases pbind_def pmap_err_def preturn_def perr_def
        split: prod.splits result.splits option.splits if_splits dest!: map_of_SomeD intro: one_action_intros node_step.Pay)
next
  assume run: "api_keysend E m from_node to_node sats s = (r, s')"
  show "one_action E (api_network E) m (\<lambda>(_, a). \<exists>k. a = Keysend k sats) s s'"
    using run
    by (auto simp: api_keysend_def the_node_cases pbind_def pmap_err_def preturn_def perr_def
        split: prod.splits result.splits option.splits if_splits dest!: map_of_SomeD intro: one_action_intros node_step.Keysend)
qed

section \<open>A concrete processor\<close>



end
