(* ===== verification/Proxy.thy ===== *)
theory Proxy
  imports LocalStorage
begin

text \<open>
  The websocket proxy between wallets (\<open>handle_mutiny_ws\<close> of \<open>ln-websocket-proxy/src/main.rs\<close>): one
  task per websocket, a shared map from owner ids to tasks, a bounded queue of commands per task,
  and listeners that tell a client when a peer goes away. A step of the machine is one turn of a
  task's loop, one listener waking up, or one queue getting room. The guard of the shared map lives
  to the end of the \<open>if let\<close> it is taken in, its \<open>else\<close> included, so a task that waits for room in a
  queue there keeps the map locked: \<open>lock\<close> holds who waits, and for what. A task that
  waits for the lock takes its frame only when it gets the lock. Log output is left out. A queue
  never closes for its own task, which holds a sender, so the loop's \<open>None\<close> case has no rule.
\<close>

section \<open>The state\<close>

definition PUBKEY_BYTES_LEN :: nat where
  "PUBKEY_BYTES_LEN = 33"

definition QUEUE_LEN :: nat where
  "QUEUE_LEN = 32"

text \<open>\<open>MutinyProxyCommand\<close>: \<open>to\<close> and \<open>from\<close>.\<close>

datatype MutinyProxyCommand = ProxyDisconnect (cmd_to: bytes) (cmd_from: bytes)

datatype MutinyWSCommand = Send bytes bytes | Disconnect bytes

datatype Message = Text string | Binary bytes | Ping

type_synonym task = nat

record task_state =
  owner_id_bytes :: bytes
  rx :: "MutinyWSCommand list"
  connected_peers :: "bytes set"
  sent_down :: "Message list"
  running :: bool

text \<open>
  What a task does once its command is queued: watch the peer whose task this is, forget the
  peer, or nothing.
\<close>

datatype After = Listen bytes task | Forget bytes | Done

record holding =
  who :: task
  target :: task
  command :: MutinyWSCommand
  after :: After

text \<open>A spawned listener: on whose broadcast, for which task, and the peer's id.\<close>

datatype Listener = Listener (listens_on: task) (listens_for: task) (other_peer: bytes)

text \<open>\<open>accepted\<close> is not in the code: it lists every command queued, with the task that queued it
  and the task it is for.\<close>

record server =
  registered :: "bytes \<Rightarrow> task option"
  tasks :: "task \<Rightarrow> task_state"
  next_task :: task
  listeners :: "Listener list"
  lock :: "holding option"
  accepted :: "(task \<times> task \<times> MutinyWSCommand) list"

definition new_task :: "bytes \<Rightarrow> task_state" where
  "new_task owner = \<lparr>owner_id_bytes = owner, rx = [], connected_peers = {}, sent_down = [], running = True\<rparr>"

definition proxy_start :: server where
  "proxy_start = \<lparr>registered = Map.empty, tasks = (\<lambda>_. (new_task [])\<lparr>running := False\<rparr>), next_task = 0,
     listeners = [], lock = None, accepted = []\<rparr>"

record proxy_env =
  hex_id :: "string \<Rightarrow> bytes option"
  json_command :: "MutinyProxyCommand codec"
  command_text :: "MutinyProxyCommand \<Rightarrow> string"

section \<open>The operations\<close>

definition on_task :: "task \<Rightarrow> (task_state \<Rightarrow> task_state) \<Rightarrow> server \<Rightarrow> server" where
  "on_task t f s = s\<lparr>tasks := (tasks s)(t := f (tasks s t))\<rparr>"

text \<open>A new websocket: \<open>insert\<close> replaces a registration of the same id.\<close>

definition open_ws :: "proxy_env \<Rightarrow> string \<Rightarrow> server \<Rightarrow> server" where
  "open_ws E identifier s =
     (let owner = (case hex_id E identifier of Some h \<Rightarrow> h | None \<Rightarrow> []) in
      if owner = [] then s
      else s\<lparr>registered := (registered s)(owner \<mapsto> next_task s),
             tasks := (tasks s)(next_task s := new_task owner),
             next_task := Suc (next_task s)\<rparr>)"

text \<open>The end of a task: broadcast, then \<open>remove\<close> of the owner's id.\<close>

definition close_ws :: "task \<Rightarrow> server \<Rightarrow> server" where
  "close_ws t s =
     on_task t (\<lambda>x. x\<lparr>running := False\<rparr>)
       (s\<lparr>registered := (registered s)(owner_id_bytes (tasks s t) := None)\<rparr>)"

definition listen_for_disconnections :: "task \<Rightarrow> bytes \<Rightarrow> task \<Rightarrow> server \<Rightarrow> server" where
  "listen_for_disconnections t peer on s =
     (if peer \<in> connected_peers (tasks s t) then s
      else (on_task t (\<lambda>x. x\<lparr>connected_peers := insert peer (connected_peers x)\<rparr>) s)
             \<lparr>listeners := listeners s @ [Listener on t peer]\<rparr>)"

definition finish :: "holding \<Rightarrow> server \<Rightarrow> server" where
  "finish h s =
     (case after h of
        Listen peer on \<Rightarrow> listen_for_disconnections (who h) peer on s
      | Forget peer \<Rightarrow> on_task (who h) (\<lambda>x. x\<lparr>connected_peers := connected_peers x - {peer}\<rparr>) s
      | Done \<Rightarrow> s)"

definition enqueue :: "task \<Rightarrow> task \<Rightarrow> MutinyWSCommand \<Rightarrow> server \<Rightarrow> server" where
  "enqueue t u c s = (on_task u (\<lambda>x. x\<lparr>rx := rx x @ [c]\<rparr>) s)\<lparr>accepted := accepted s @ [(t, u, c)]\<rparr>"

definition has_room :: "server \<Rightarrow> task \<Rightarrow> bool" where
  "has_room s u \<longleftrightarrow> length (rx (tasks s u)) < QUEUE_LEN"

text \<open>\<open>send(..).await\<close> on a queue that exists: queued, or waiting with the lock held.\<close>

definition push_running :: "holding \<Rightarrow> server \<Rightarrow> server" where
  "push_running h s =
     (if has_room s (target h) then finish h ((enqueue (who h) (target h) (command h) s)\<lparr>lock := None\<rparr>)
      else s\<lparr>lock := Some h\<rparr>)"

definition tell_self :: "task \<Rightarrow> bytes \<Rightarrow> holding" where
  "tell_self t peer = \<lparr>who = t, target = t, command = Disconnect peer, after = Done\<rparr>"

text \<open>
  \<open>send(..).await\<close> to a peer's queue: when the peer's task is gone the send fails, and a client
  that wanted to send is told that the peer is gone.
\<close>

definition push :: "holding \<Rightarrow> server \<Rightarrow> server" where
  "push h s =
     (if running (tasks s (target h)) then push_running h s
      else
        (case after h of
           Listen peer _ \<Rightarrow> push_running (tell_self (who h) peer) s
         | _ \<Rightarrow> finish h (s\<lparr>lock := None\<rparr>)))"

fun on_message :: "proxy_env \<Rightarrow> task \<Rightarrow> Message \<Rightarrow> server \<Rightarrow> server" where
  "on_message E t (Text msg) s =
     (case from_json (json_command E) msg of
        None \<Rightarrow> s
      | Some (ProxyDisconnect to _) \<Rightarrow>
          (case registered s to of
             None \<Rightarrow> s
           | Some u \<Rightarrow>
               push \<lparr>who = t, target = u, command = Disconnect (owner_id_bytes (tasks s t)), after = Forget to\<rparr> s))"
| "on_message E t (Binary msg) s =
     (if length msg < PUBKEY_BYTES_LEN then s
      else
        (let peer = take PUBKEY_BYTES_LEN msg; rest = drop PUBKEY_BYTES_LEN msg in
         case registered s peer of
           Some u \<Rightarrow>
             push \<lparr>who = t, target = u, command = Send (owner_id_bytes (tasks s t)) rest, after = Listen peer u\<rparr> s
         | None \<Rightarrow> push_running (tell_self t peer) s))"
| "on_message E t Ping s = s"

text \<open>What goes down the websocket for a command.\<close>

fun frame :: "proxy_env \<Rightarrow> bytes \<Rightarrow> MutinyWSCommand \<Rightarrow> Message" where
  "frame E owner (Send from val) = Binary (from @ val)"
| "frame E owner (Disconnect from) = Text (command_text E (ProxyDisconnect owner from))"

definition deliver :: "proxy_env \<Rightarrow> task \<Rightarrow> server \<Rightarrow> server" where
  "deliver E t s = on_task t (\<lambda>x. x\<lparr>rx := tl (rx x), sent_down := sent_down x @ [frame E (owner_id_bytes x) (hd (rx x))]\<rparr>) s"

text \<open>A listener that wakes up: its own sender, so it takes no lock.\<close>

definition wake :: "Listener \<Rightarrow> server \<Rightarrow> server" where
  "wake l s =
     (let t = listens_for l;
          s1 = (if running (tasks s t) then enqueue t t (Disconnect (other_peer l)) s else s)
      in (on_task t (\<lambda>x. x\<lparr>connected_peers := connected_peers x - {other_peer l}\<rparr>) s1)
           \<lparr>listeners := remove1 l (listeners s)\<rparr>)"

section \<open>The machine\<close>

definition waits :: "server \<Rightarrow> task \<Rightarrow> bool" where
  "waits s t \<longleftrightarrow> (case lock s of Some h \<Rightarrow> who h = t | None \<Rightarrow> False)"

inductive proxy_step :: "proxy_env \<Rightarrow> server \<Rightarrow> server \<Rightarrow> bool" for E where
  Open: "lock s = None \<Longrightarrow> proxy_step E s (open_ws E identifier s)"
| Client: "running (tasks s t) \<Longrightarrow> lock s = None \<Longrightarrow> proxy_step E s (on_message E t m s)"
| Close: "running (tasks s t) \<Longrightarrow> lock s = None \<Longrightarrow> proxy_step E s (close_ws t s)"
| Deliver: "running (tasks s t) \<Longrightarrow> \<not> waits s t \<Longrightarrow> rx (tasks s t) \<noteq> [] \<Longrightarrow> proxy_step E s (deliver E t s)"
| Undeliverable: "running (tasks s t) \<Longrightarrow> rx (tasks s t) \<noteq> [] \<Longrightarrow> lock s = None \<Longrightarrow>
    proxy_step E s (close_ws t (on_task t (\<lambda>x. x\<lparr>rx := tl (rx x)\<rparr>) s))"
| Wake: "l \<in> set (listeners s) \<Longrightarrow> \<not> running (tasks s (listens_on l)) \<Longrightarrow>
    \<not> running (tasks s (listens_for l)) \<or> has_room s (listens_for l) \<Longrightarrow> proxy_step E s (wake l s)"
| Resume: "lock s = Some h \<Longrightarrow> \<not> running (tasks s (target h)) \<or> has_room s (target h) \<Longrightarrow>
    proxy_step E s (push h s)"

inductive reachable :: "proxy_env \<Rightarrow> server \<Rightarrow> bool" for E where
  Start: "reachable E proxy_start"
| Step: "reachable E s \<Longrightarrow> proxy_step E s s' \<Longrightarrow> reachable E s'"

section \<open>What every reachable state satisfies\<close>

lemma on_task_simps [simp]:
  "tasks (on_task t f s) = (tasks s)(t := f (tasks s t))" "registered (on_task t f s) = registered s"
  "next_task (on_task t f s) = next_task s" "listeners (on_task t f s) = listeners s" "lock (on_task t f s) = lock s"
  "accepted (on_task t f s) = accepted s"
  by (simp_all add: on_task_def)

lemma enqueue_simps [simp]:
  "tasks (enqueue t u c s) = (tasks s)(u := (tasks s u)\<lparr>rx := rx (tasks s u) @ [c]\<rparr>)"
  "registered (enqueue t u c s) = registered s" "next_task (enqueue t u c s) = next_task s"
  "listeners (enqueue t u c s) = listeners s" "lock (enqueue t u c s) = lock s"
  "accepted (enqueue t u c s) = accepted s @ [(t, u, c)]"
  by (simp_all add: enqueue_def)

definition commands_for :: "task \<Rightarrow> server \<Rightarrow> MutinyWSCommand list" where
  "commands_for u s = map (snd \<circ> snd) (filter (\<lambda>(_, u', _). u' = u) (accepted s))"

fun says_sender :: "bytes \<Rightarrow> MutinyWSCommand \<Rightarrow> bool" where
  "says_sender owner (Send from _) \<longleftrightarrow> from = owner"
| "says_sender owner (Disconnect _) \<longleftrightarrow> True"

definition holding_ok :: "server \<Rightarrow> holding \<Rightarrow> bool" where
  "holding_ok s h \<longleftrightarrow> running (tasks s (who h)) \<and> who h < next_task s \<and> target h < next_task s \<and>
     says_sender (owner_id_bytes (tasks s (who h))) (command h)"

text \<open>
  The parts of the invariant: a registered task runs and owns the id; a task that runs was
  started; who waits with the lock runs; every queued command names the id of its sender; every
  connected peer is watched; what went down a websocket is what was queued for it, in order.
\<close>

definition registered_inv :: "server \<Rightarrow> bool" where
  "registered_inv s \<longleftrightarrow>
     (\<forall>i t. registered s i = Some t \<longrightarrow> running (tasks s t) \<and> owner_id_bytes (tasks s t) = i) \<and>
     (\<forall>t. running (tasks s t) \<longrightarrow> t < next_task s)"

definition sender_inv :: "server \<Rightarrow> bool" where
  "sender_inv s \<longleftrightarrow>
     (\<forall>h. lock s = Some h \<longrightarrow> holding_ok s h) \<and>
     (\<forall>(t, u, c) \<in> set (accepted s). t < next_task s \<and> u < next_task s \<and> says_sender (owner_id_bytes (tasks s t)) c)"

definition watch_inv :: "server \<Rightarrow> bool" where
  "watch_inv s \<longleftrightarrow>
     (\<forall>t p. p \<in> connected_peers (tasks s t) \<longrightarrow>
        t < next_task s \<and> (\<exists>l \<in> set (listeners s). listens_for l = t \<and> other_peer l = p))"

definition order_inv :: "proxy_env \<Rightarrow> server \<Rightarrow> bool" where
  "order_inv E s \<longleftrightarrow>
     (\<forall>u. \<exists>ahead. map (frame E (owner_id_bytes (tasks s u))) (commands_for u s) = sent_down (tasks s u) @ ahead \<and>
        (running (tasks s u) \<longrightarrow> ahead = map (frame E (owner_id_bytes (tasks s u))) (rx (tasks s u))))"

definition proxy_inv :: "proxy_env \<Rightarrow> server \<Rightarrow> bool" where
  "proxy_inv E s \<longleftrightarrow> registered_inv s \<and> sender_inv s \<and> watch_inv s \<and> order_inv E s"

lemmas proxy_inv_defs = proxy_inv_def registered_inv_def sender_inv_def watch_inv_def holding_ok_def

lemma commands_for_simps [simp]:
  "commands_for u (on_task t f s) = commands_for u s"
  "commands_for u (enqueue t u' c s) = commands_for u s @ (if u = u' then [c] else [])"
  "commands_for u (s\<lparr>lock := l\<rparr>) = commands_for u s"
  "commands_for u (s\<lparr>listeners := ls\<rparr>) = commands_for u s"
  "commands_for u (s\<lparr>registered := r\<rparr>) = commands_for u s"
  by (simp_all add: commands_for_def)

lemma inv_start: "proxy_inv E proxy_start"
  by (simp add: proxy_inv_defs order_inv_def proxy_start_def new_task_def commands_for_def)

lemma order_inv_rest:
  assumes "order_inv E s" "commands_for u s = []"
  shows "sent_down (tasks s u) = []"
  using assms unfolding order_inv_def by (metis append_is_Nil_conv list.map(1))

lemma inv_lock_free: "proxy_inv E s \<Longrightarrow> proxy_inv E (s\<lparr>lock := None\<rparr>)"
  by (simp add: proxy_inv_defs order_inv_def)

lemma inv_lock: "proxy_inv E s \<Longrightarrow> holding_ok s h \<Longrightarrow> proxy_inv E (s\<lparr>lock := Some h\<rparr>)"
  by (simp add: proxy_inv_defs order_inv_def)

lemma inv_enqueue:
  assumes "proxy_inv E s" "running (tasks s u)" "t < next_task s" "says_sender (owner_id_bytes (tasks s t)) c"
  shows "proxy_inv E (enqueue t u c s)"
proof -
  have "order_inv E (enqueue t u c s)"
    using assms(1,2) unfolding order_inv_def proxy_inv_def by fastforce
  with assms show ?thesis
    by (auto simp: proxy_inv_defs split: if_splits)
qed

lemma inv_forget: "proxy_inv E s \<Longrightarrow> proxy_inv E (on_task t (\<lambda>x. x\<lparr>connected_peers := connected_peers x - P\<rparr>) s)"
  by (auto simp: proxy_inv_defs order_inv_def)

lemma inv_listen: "proxy_inv E s \<Longrightarrow> t < next_task s \<Longrightarrow> proxy_inv E (listen_for_disconnections t p on s)"
  by (auto simp: listen_for_disconnections_def proxy_inv_defs order_inv_def)

lemma inv_close: "proxy_inv E s \<Longrightarrow> lock s = None \<Longrightarrow> proxy_inv E (close_ws t s)"
  by (auto simp: close_ws_def proxy_inv_defs order_inv_def)

lemma inv_deliver:
  assumes "proxy_inv E s" "running (tasks s t)" "rx (tasks s t) \<noteq> []"
  shows "proxy_inv E (deliver E t s)"
proof -
  obtain c cs where rx: "rx (tasks s t) = c # cs" using assms(3) by (cases "rx (tasks s t)") auto
  have "order_inv E (deliver E t s)"
    using assms(1,2) rx by (auto simp: order_inv_def proxy_inv_def deliver_def)
  with assms(1) show ?thesis by (auto simp: proxy_inv_defs deliver_def)
qed

lemma inv_drop:
  assumes "proxy_inv E s" "lock s = None"
  shows "proxy_inv E (close_ws t (on_task t (\<lambda>x. x\<lparr>rx := tl (rx x)\<rparr>) s))"
proof -
  have "order_inv E (close_ws t (on_task t (\<lambda>x. x\<lparr>rx := tl (rx x)\<rparr>) s))"
    using assms(1) by (auto simp: order_inv_def proxy_inv_def close_ws_def)
  with assms show ?thesis by (auto simp: proxy_inv_defs close_ws_def)
qed

lemma inv_open:
  assumes "proxy_inv E s" "lock s = None"
  shows "proxy_inv E (open_ws P identifier s)"
proof -
  let ?t = "next_task s"
  have none: "commands_for ?t s = []"
    using assms(1) by (fastforce simp: proxy_inv_defs commands_for_def filter_empty_conv)
  have idle: "\<not> running (tasks s ?t)" "connected_peers (tasks s ?t) = {}"
    using assms(1) by (auto simp: proxy_inv_defs)
  show ?thesis
    using assms none idle
    by (auto simp: open_ws_def Let_def proxy_inv_defs order_inv_def new_task_def less_Suc_eq commands_for_def)
qed

lemma finish_frame [simp]:
  "registered (finish h s) = registered s" "lock (finish h s) = lock s" "next_task (finish h s) = next_task s"
  by (simp_all add: finish_def listen_for_disconnections_def split: After.split)

lemma inv_finish: "proxy_inv E s \<Longrightarrow> who h < next_task s \<Longrightarrow> proxy_inv E (finish h s)"
  by (auto simp: finish_def split: After.split intro: inv_listen inv_forget)

lemma inv_push_running:
  assumes "proxy_inv E s" "holding_ok s h" "running (tasks s (target h))"
  shows "proxy_inv E (push_running h s)"
proof (cases "has_room s (target h)")
  case True
  have "proxy_inv E (enqueue (who h) (target h) (command h) s)"
    using assms by (intro inv_enqueue) (auto simp: holding_ok_def)
  from inv_finish [OF inv_lock_free [OF this], of h] True assms(2) show ?thesis
    by (simp add: push_running_def holding_ok_def)
next
  case False
  with assms inv_lock show ?thesis by (simp add: push_running_def)
qed

lemma tell_self_ok: "holding_ok s h \<Longrightarrow> holding_ok s (tell_self (who h) p)"
  by (simp add: holding_ok_def tell_self_def)

lemma inv_push:
  assumes "proxy_inv E s" "holding_ok s h"
  shows "proxy_inv E (push h s)"
proof -
  have "running (tasks s (who h))" using assms(2) by (simp add: holding_ok_def)
  then have self: "proxy_inv E (push_running (tell_self (who h) p) s)" for p
    using inv_push_running [OF assms(1) tell_self_ok [OF assms(2)], of p] by (simp add: tell_self_def)
  have "proxy_inv E (finish h (s\<lparr>lock := None\<rparr>))"
    using inv_finish [OF inv_lock_free [OF assms(1)]] assms(2) by (simp add: holding_ok_def)
  with self inv_push_running [OF assms] show ?thesis
    by (simp add: push_def split: After.split)
qed

lemma inv_message:
  assumes "proxy_inv E s" "running (tasks s t)"
  shows "proxy_inv E (on_message P t m s)"
proof -
  have t: "t < next_task s" using assms by (simp add: proxy_inv_defs)
  have u: "u < next_task s" if "registered s p = Some u" for p u
    using assms(1) that by (auto simp: proxy_inv_defs)
  have ok: "holding_ok s \<lparr>who = t, target = u, command = c, after = a\<rparr>"
    if "u < next_task s" "says_sender (owner_id_bytes (tasks s t)) c" for u c a
    using assms(2) t that by (simp add: holding_ok_def)
  have "proxy_inv E (push_running (tell_self t p) s)" for p
    using inv_push_running [OF assms(1), of "tell_self t p"] assms(2) t by (simp add: holding_ok_def tell_self_def)
  with assms(1) inv_push [OF assms(1) ok] u show ?thesis
    by (cases m) (auto simp: Let_def split: option.split MutinyProxyCommand.split)
qed

lemma inv_wake:
  assumes "proxy_inv E s" "l \<in> set (listeners s)"
  shows "proxy_inv E (wake l s)"
proof -
  let ?t = "listens_for l"
  let ?s1 = "if running (tasks s ?t) then enqueue ?t ?t (Disconnect (other_peer l)) s else s"
  have s1: "proxy_inv E ?s1"
    using assms(1) inv_enqueue [OF assms(1), of ?t ?t] by (auto simp: proxy_inv_defs)
  have l1: "listeners ?s1 = listeners s" by simp
  have "proxy_inv E ((on_task ?t (\<lambda>x. x\<lparr>connected_peers := connected_peers x - {other_peer l}\<rparr>) s2)
      \<lparr>listeners := remove1 l (listeners s2)\<rparr>)" if "proxy_inv E s2" for s2
  proof -
    let ?s3 = "(on_task ?t (\<lambda>x. x\<lparr>connected_peers := connected_peers x - {other_peer l}\<rparr>) s2)\<lparr>listeners := remove1 l (listeners s2)\<rparr>"
    have "watch_inv ?s3"
      using that unfolding proxy_inv_def watch_inv_def
      by (simp add: in_set_remove1) (metis (no_types, lifting) in_set_remove1)
    with that show ?thesis by (auto simp: proxy_inv_defs order_inv_def)
  qed
  from this [OF s1] l1 show ?thesis by (simp add: wake_def Let_def)
qed

lemma step_inv:
  assumes "proxy_step E s s'" "proxy_inv E s"
  shows "proxy_inv E s'"
  using assms
proof cases
  case (Resume h)
  then have "holding_ok s h" using assms(2) by (simp add: proxy_inv_def sender_inv_def)
  with Resume(1) inv_push [OF assms(2)] show ?thesis by simp
qed (auto intro: inv_open inv_message inv_close inv_deliver inv_drop inv_wake)

lemma reachable_inv: "reachable E s \<Longrightarrow> proxy_inv E s"
  by (induction rule: reachable.induct) (auto intro: inv_start step_inv)

section \<open>Properties of the proxy\<close>




lemma full_queue_keeps_lock:
  assumes "proxy_step E s s'" "lock s = Some h" "target h = who h" "running (tasks s (who h))" "\<not> has_room s (who h)"
  shows "lock s' = Some h \<and> registered s' = registered s \<and> running (tasks s' (who h)) \<and> \<not> has_room s' (who h)"
  using assms
proof cases
  case (Wake l)
  with assms(2-5) show ?thesis
    by (cases "listens_for l = who h") (auto simp: wake_def Let_def has_room_def)
qed (auto simp: deliver_def waits_def has_room_def)

text \<open>
  C39: a client whose queue is full and that writes to a peer that is not registered stops the
  whole proxy: its task waits for room in its own queue, which only that task empties, and keeps
  the map locked; in every later state the lock is still held and the registrations are the same.
\<close>

theorem full_queue_freezes_the_proxy:
  assumes "running (tasks s t)" "length (rx (tasks s t)) = QUEUE_LEN" "PUBKEY_BYTES_LEN \<le> length msg"
    "registered s (take PUBKEY_BYTES_LEN msg) = None"
    "(proxy_step E)\<^sup>*\<^sup>* (on_message E t (Binary msg) s) s'"
  shows "lock s' = Some (tell_self t (take PUBKEY_BYTES_LEN msg)) \<and> registered s' = registered s"
proof -
  let ?h = "tell_self t (take PUBKEY_BYTES_LEN msg)"
  let ?s1 = "on_message E t (Binary msg) s"
  have start: "?s1 = s\<lparr>lock := Some ?h\<rparr>"
    using assms(2-4) by (simp add: Let_def push_running_def tell_self_def has_room_def)
  from assms(5) have "lock s' = Some ?h \<and> registered s' = registered s \<and> running (tasks s' t) \<and> \<not> has_room s' t"
  proof (induction rule: rtranclp_induct)
    case base
    then show ?case using start assms(1,2) by (simp add: has_room_def)
  next
    case (step y z)
    then show ?case using full_queue_keeps_lock [of E y z ?h] by (simp add: tell_self_def)
  qed
  then show ?thesis by simp
qed

text \<open>
  Registering an id again does not end the old websocket, and when the old one closes it
  removes the registration of the new one: the new websocket keeps running, but its id is not
  registered, and a client that writes to the id is told that the owner is gone.
\<close>

theorem old_websocket_unregisters_new:
  assumes "reachable E s" "registered s owner = Some t" "lock s = None" "hex_id E identifier = Some owner" "owner \<noteq> []"
  defines "s' \<equiv> close_ws t (open_ws E identifier s)"
  shows "proxy_step E s (open_ws E identifier s) \<and> running (tasks (open_ws E identifier s) t) \<and>
    proxy_step E (open_ws E identifier s) s' \<and>
    running (tasks s' (next_task s)) \<and> owner_id_bytes (tasks s' (next_task s)) = owner \<and> registered s' owner = None"
proof -
  have t: "running (tasks s t)" "owner_id_bytes (tasks s t) = owner" "t < next_task s"
    using reachable_inv [OF assms(1)] assms(2) by (auto simp: proxy_inv_def registered_inv_def)
  then have run: "running (tasks (open_ws E identifier s) t)" "lock (open_ws E identifier s) = None"
    using assms(3-5) by (simp_all add: open_ws_def)
  have "proxy_step E s (open_ws E identifier s)" by (rule proxy_step.Open [OF assms(3)])
  moreover have "proxy_step E (open_ws E identifier s) s'" unfolding s'_def by (rule proxy_step.Close [OF run])
  ultimately show ?thesis
    using t run(1) assms(3-5) by (simp add: s'_def close_ws_def open_ws_def new_task_def)
qed

section \<open>A concrete run\<close>

definition id_a :: bytes where "id_a = replicate 33 1"
definition id_b :: bytes where "id_b = replicate 33 2"

definition demo_proxy :: proxy_env where
  "demo_proxy = \<lparr>hex_id = (\<lambda>i. Some (if i = ''a'' then id_a else id_b)),
     json_command = \<lparr>to_json = (\<lambda>_. None), from_json = (\<lambda>_. None)\<rparr>, command_text = (\<lambda>_. [])\<rparr>"

definition demo_one :: server where "demo_one = open_ws demo_proxy ''a'' proxy_start"
definition demo_two :: server where "demo_two = open_ws demo_proxy ''b'' demo_one"
definition demo_said :: server where "demo_said = on_message demo_proxy 0 (Binary (id_b @ [7])) demo_two"

lemma demo_ids: "id_a \<noteq> []" "id_b \<noteq> []" "length id_b = 33" "length id_a = 33" "id_a \<noteq> id_b"
  by (simp_all add: id_a_def id_b_def)

lemma demo_one: "demo_one = proxy_start\<lparr>registered := [id_a \<mapsto> 0], tasks := (tasks proxy_start)(0 := new_task id_a), next_task := 1\<rparr>"
  by (simp add: demo_one_def open_ws_def demo_proxy_def demo_ids proxy_start_def)

lemma demo_two: "demo_two = demo_one\<lparr>registered := [id_a \<mapsto> 0, id_b \<mapsto> 1], tasks := (tasks demo_one)(1 := new_task id_b), next_task := 2\<rparr>"
  by (simp add: demo_two_def open_ws_def demo_proxy_def demo_ids demo_one proxy_start_def numeral_2_eq_2)

lemma demo_two_facts: "running (tasks demo_two 0)" "lock demo_two = None" "registered demo_two id_b = Some 1"
    "owner_id_bytes (tasks demo_two 0) = id_a" "rx (tasks demo_two 1) = []"
  using demo_ids by (simp_all add: demo_two demo_one proxy_start_def new_task_def)

lemma demo_reachable: "reachable demo_proxy demo_one" "reachable demo_proxy demo_two" "reachable demo_proxy demo_said"
proof -
  show one: "reachable demo_proxy demo_one"
    unfolding demo_one_def by (rule reachable.Step [OF reachable.Start proxy_step.Open]) (simp add: proxy_start_def)
  show two: "reachable demo_proxy demo_two"
    unfolding demo_two_def by (rule reachable.Step [OF one proxy_step.Open]) (simp add: demo_one proxy_start_def)
  show "reachable demo_proxy demo_said"
    unfolding demo_said_def by (rule reachable.Step [OF two proxy_step.Client]) (simp_all add: demo_two_facts)
qed


lemma demo_said: "demo_said = (enqueue 0 1 (Send id_a [7]) demo_two)\<lparr>
    tasks := (tasks demo_two)(0 := (new_task id_a)\<lparr>connected_peers := {id_b}\<rparr>, 1 := (new_task id_b)\<lparr>rx := [Send id_a [7]]\<rparr>),
    listeners := [Listener 1 0 id_b]\<rparr>"
  using demo_ids by (simp add: demo_said_def PUBKEY_BYTES_LEN_def push_def push_running_def has_room_def QUEUE_LEN_def
      finish_def listen_for_disconnections_def enqueue_def on_task_def demo_two demo_one proxy_start_def new_task_def Let_def fun_eq_iff)



definition demo_full :: server where
  "demo_full = on_task 0 (\<lambda>x. x\<lparr>rx := replicate 32 (Disconnect id_b)\<rparr>) demo_one"

lemma full_queue_freezes_the_proxy_witness:
  "lock (on_message demo_proxy 0 (Binary id_b) demo_full) = Some (tell_self 0 id_b)"
  using full_queue_freezes_the_proxy [of demo_full 0 id_b demo_proxy "on_message demo_proxy 0 (Binary id_b) demo_full"] demo_ids
  by (simp add: demo_full_def demo_one proxy_start_def new_task_def QUEUE_LEN_def PUBKEY_BYTES_LEN_def del: on_message.simps)

lemma old_websocket_unregisters_new_witness:
  "registered (close_ws 0 (open_ws demo_proxy ''a'' demo_one)) id_a = None"
  using old_websocket_unregisters_new [OF demo_reachable(1), of id_a 0 "''a''"] demo_ids
  by (simp add: demo_one proxy_start_def demo_proxy_def)

end
