(* ===== verification/Sockets.thy ===== *)
theory Sockets
  imports Proxy
begin

text \<open>
  The wallet's end of its websockets (\<open>node-manager/src/socket.rs\<close>, with the loop of \<open>Node::new\<close>
  that reconnects): one websocket to the proxy carries the connections to all other wallets, one
  subsocket per peer, under LDK's peer manager. The wallet runs in one thread, and nothing here
  waits while the map of subsockets is locked, so a step is one turn of a loop: a frame from the
  proxy, the end of a connection, one message given to the proxy, one read of a subsocket, one call
  of LDK, one round of the reconnection. What LDK answers may depend on all that it was told
  (the log \<open>told\<close>). \<open>conn.send\<close> spawns a task per message; these are taken to run in order. The
  queues are unbounded channels whose two ends the descriptors hold, so a send into them succeeds.
\<close>

section \<open>The state\<close>

datatype WsMessage = WsText string | WsBytes bytes

text \<open>
  What all clones of one \<open>SubWsSocketDescriptor\<close> share, its channel included; \<open>being_read\<close> says
  that \<open>schedule_descriptor_read\<close> runs a reader on it.
\<close>

record sub_socket =
  peer_pubkey_bytes :: bytes
  sub_id :: u64
  stop :: bool
  inbox :: "WsMessage list"
  being_read :: bool

record tcp_socket =
  tcp_conn :: nat
  tcp_id :: u64

datatype WsSocketDescriptor = Tcp tcp_socket | Mutiny nat

datatype LdkCall =
    NewInbound nat
  | NewOutbound nat bytes
  | ReadEvent WsSocketDescriptor bytes
  | ProcessEvents
  | SocketDisconnected nat

text \<open>
  \<open>MultiWsSocketDescriptor\<close> and what hangs on it. Connections to the proxy are numbered;
  \<open>conn_readers\<close> and \<open>conn_senders\<close> are the loops that \<open>listen\<close> spawned and that still run, by
  connection. \<open>tcp_did\<close> lists what was done on TCP connections, a message sent or, as \<open>None\<close>, the
  close. \<open>ids_drawn\<close> counts the draws from \<open>ID_COUNTER\<close>. Not in the code: \<open>routed\<close>
  lists the payloads put into subsockets, \<open>queued\<close> all that was queued for the proxy.
\<close>

record multi_socket =
  our_peer_pubkey :: bytes
  conn :: nat
  connected :: bool
  socket_map :: "(bytes \<times> nat) list"
  to_multi :: "WsMessage list"
  subs :: "nat \<Rightarrow> sub_socket"
  next_sub :: nat
  ids_drawn :: nat
  conn_readers :: "nat set"
  conn_senders :: "nat set"
  sent_on :: "(nat \<times> WsMessage) list"
  told :: "LdkCall list"
  tcp_did :: "(nat \<times> WsMessage option) list"
  routed :: "(nat \<times> bytes) list"
  queued :: "WsMessage list"

record sock_env = proxy_env +
  inbound_ok :: "LdkCall list \<Rightarrow> bool"
  outbound_bytes :: "LdkCall list \<Rightarrow> bytes option"
  read_ok :: "LdkCall list \<Rightarrow> bool"

text \<open>\<open>MultiWsSocketDescriptor::new\<close>, then \<open>listen\<close>.\<close>

definition listen :: "multi_socket \<Rightarrow> multi_socket" where
  "listen s = s\<lparr>conn_readers := insert (conn s) (conn_readers s), conn_senders := insert (conn s) (conn_senders s)\<rparr>"

definition multi_new :: "nat \<Rightarrow> bytes \<Rightarrow> nat \<Rightarrow> multi_socket" where
  "multi_new c our drawn =
     \<lparr>our_peer_pubkey = our, conn = c, connected = True, socket_map = [], to_multi = [],
      subs = (\<lambda>_. \<lparr>peer_pubkey_bytes = [], sub_id = 0, stop = False, inbox = [], being_read = False\<rparr>),
      next_sub = 0, ids_drawn = drawn, conn_readers = {}, conn_senders = {}, sent_on = [], told = [], tcp_did = [],
      routed = [], queued = []\<rparr>"

section \<open>Subsockets\<close>

definition on_sub :: "nat \<Rightarrow> (sub_socket \<Rightarrow> sub_socket) \<Rightarrow> multi_socket \<Rightarrow> multi_socket" where
  "on_sub k f s = s\<lparr>subs := (subs s)(k := f (subs s k))\<rparr>"

definition tell :: "LdkCall \<Rightarrow> multi_socket \<Rightarrow> multi_socket" where
  "tell c s = s\<lparr>told := told s @ [c]\<rparr>"

definition queue_up :: "WsMessage \<Rightarrow> multi_socket \<Rightarrow> multi_socket" where
  "queue_up m s = s\<lparr>to_multi := to_multi s @ [m], queued := queued s @ [m]\<rparr>"

text \<open>\<open>ID_COUNTER.fetch_add(1)\<close> wraps.\<close>

definition sub_new :: "bytes \<Rightarrow> nat \<Rightarrow> sub_socket" where
  "sub_new peer drawn =
     \<lparr>peer_pubkey_bytes = peer, sub_id = of_nat drawn, stop = False, inbox = [], being_read = False\<rparr>"

definition tcp_new :: "nat \<Rightarrow> multi_socket \<Rightarrow> tcp_socket \<times> multi_socket" where
  "tcp_new c s = (\<lparr>tcp_conn = c, tcp_id = of_nat (ids_drawn s)\<rparr>, s\<lparr>ids_drawn := Suc (ids_drawn s)\<rparr>)"

definition create_new_subsocket :: "bytes \<Rightarrow> multi_socket \<Rightarrow> nat \<times> multi_socket" where
  "create_new_subsocket peer s =
     (next_sub s,
      s\<lparr>subs := (subs s)(next_sub s := sub_new peer (ids_drawn s)),
        socket_map := AList.update peer (next_sub s) (socket_map s),
        next_sub := Suc (next_sub s), ids_drawn := Suc (ids_drawn s)\<rparr>)"

text \<open>Descriptors are compared by their ids.\<close>

fun same_descriptor :: "multi_socket \<Rightarrow> WsSocketDescriptor \<Rightarrow> WsSocketDescriptor \<Rightarrow> bool" where
  "same_descriptor s (Tcp a) (Tcp b) \<longleftrightarrow> tcp_id a = tcp_id b"
| "same_descriptor s (Mutiny j) (Mutiny k) \<longleftrightarrow> sub_id (subs s j) = sub_id (subs s k)"
| "same_descriptor s _ _ \<longleftrightarrow> False"

text \<open>\<open>disconnect_socket\<close> and, below, \<open>send_data\<close> of a subsocket.\<close>

definition disconnect_socket :: "'x sock_env_scheme \<Rightarrow> nat \<Rightarrow> multi_socket \<Rightarrow> multi_socket" where
  "disconnect_socket E k s =
     on_sub k (\<lambda>x. x\<lparr>stop := True\<rparr>)
       (queue_up (WsText (command_text E (ProxyDisconnect (peer_pubkey_bytes (subs s k)) (our_peer_pubkey s)))) s)"

text \<open>A subsocket is told to stop, and LDK that it is gone.\<close>

definition drop_sub :: "'x sock_env_scheme \<Rightarrow> nat \<Rightarrow> multi_socket \<Rightarrow> multi_socket" where
  "drop_sub E k s = tell (SocketDisconnected k) (disconnect_socket E k s)"

definition send_data :: "nat \<Rightarrow> bytes \<Rightarrow> multi_socket \<Rightarrow> nat \<times> multi_socket" where
  "send_data k data s =
     (if stop (subs s k) then (0, s)
      else (length data, queue_up (WsBytes (peer_pubkey_bytes (subs s k) @ data)) s))"

text \<open>The same of either kind of descriptor.\<close>

fun descriptor_send :: "WsSocketDescriptor \<Rightarrow> bytes \<Rightarrow> multi_socket \<Rightarrow> nat \<times> multi_socket" where
  "descriptor_send (Tcp t) data s =
     (length data, s\<lparr>tcp_did := tcp_did s @ [(tcp_conn t, Some (WsBytes data))]\<rparr>)"
| "descriptor_send (Mutiny k) data s = send_data k data s"

fun descriptor_disconnect :: "'x sock_env_scheme \<Rightarrow> WsSocketDescriptor \<Rightarrow> multi_socket \<Rightarrow> multi_socket" where
  "descriptor_disconnect E (Tcp t) s = s\<lparr>tcp_did := tcp_did s @ [(tcp_conn t, None)]\<rparr>"
| "descriptor_disconnect E (Mutiny k) s = disconnect_socket E k s"

definition put_in :: "nat \<Rightarrow> bytes \<Rightarrow> multi_socket \<Rightarrow> multi_socket" where
  "put_in k data s = (on_sub k (\<lambda>x. x\<lparr>inbox := inbox x @ [WsBytes data]\<rparr>) s)\<lparr>routed := routed s @ [(k, data)]\<rparr>"

section \<open>The reader of the proxy's websocket\<close>

fun on_command :: "'x sock_env_scheme \<Rightarrow> MutinyProxyCommand \<Rightarrow> multi_socket \<Rightarrow> multi_socket" where
  "on_command E (ProxyDisconnect _ from) s =
     (case map_of (socket_map s) from of
        Some k \<Rightarrow>
          (let s1 = drop_sub E k s
           in s1\<lparr>socket_map := AList.delete from (socket_map s1)\<rparr>)
      | None \<Rightarrow> s)"

definition on_inbound :: "'x sock_env_scheme \<Rightarrow> bytes \<Rightarrow> bytes \<Rightarrow> multi_socket \<Rightarrow> multi_socket" where
  "on_inbound E peer data s =
     (let (k, s1) = create_new_subsocket peer s;
          s2 = tell (NewInbound k) s1
      in if inbound_ok E (told s2) then put_in k data (on_sub k (\<lambda>x. x\<lparr>being_read := True\<rparr>) s2)
         else
           (let s3 = drop_sub E k s2
            in s3\<lparr>socket_map := AList.delete peer (socket_map s3)\<rparr>))"

text \<open>One frame of the websocket; \<open>None\<close> is a frame that could not be read.\<close>

fun on_proxy_frame :: "'x sock_env_scheme \<Rightarrow> WsMessage option \<Rightarrow> multi_socket \<Rightarrow> multi_socket" where
  "on_proxy_frame E None s = s"
| "on_proxy_frame E (Some (WsText msg)) s =
     (case from_json (json_command E) msg of None \<Rightarrow> s | Some c \<Rightarrow> on_command E c s)"
| "on_proxy_frame E (Some (WsBytes msg)) s =
     (if length msg < PUBKEY_BYTES_LEN then s
      else
        (let peer = take PUBKEY_BYTES_LEN msg; data = drop PUBKEY_BYTES_LEN msg in
         case map_of (socket_map s) peer of
           Some k \<Rightarrow> put_in k data s
         | None \<Rightarrow> on_inbound E peer data s))"

definition conn_ended :: "nat \<Rightarrow> multi_socket \<Rightarrow> multi_socket" where
  "conn_ended c s = s\<lparr>conn_readers := conn_readers s - {c}, connected := False\<rparr>"

text \<open>
  One round of the loop that hands queued messages to the connection: it ends after a round that
  finds the wallet disconnected.
\<close>

definition sender_turn :: "nat \<Rightarrow> multi_socket \<Rightarrow> multi_socket" where
  "sender_turn c s =
     (let s1 = (case to_multi s of [] \<Rightarrow> s | m # rest \<Rightarrow> s\<lparr>to_multi := rest, sent_on := sent_on s @ [(c, m)]\<rparr>)
      in if connected s1 then s1 else s1\<lparr>conn_senders := conn_senders s1 - {c}\<rparr>)"

section \<open>Reading a descriptor\<close>

text \<open>What a read gives: a frame, an error, or the end of a TCP connection's websocket.\<close>

datatype ReadResult = Got WsMessage | ReadFailed | Ended

text \<open>A turn of \<open>SubWsSocketDescriptor::read\<close>; \<open>None\<close> means sleeping for another turn.\<close>

definition sub_read :: "nat \<Rightarrow> multi_socket \<Rightarrow> ReadResult option \<times> multi_socket" where
  "sub_read k s =
     (if stop (subs s k) then (Some ReadFailed, s)
      else
        (case inbox (subs s k) of
           [] \<Rightarrow> (None, s)
         | m # rest \<Rightarrow> (Some (Got m), on_sub k (\<lambda>x. x\<lparr>inbox := rest\<rparr>) s)))"

text \<open>The body of \<open>schedule_descriptor_read\<close>; the flag says that the loop goes on.\<close>

fun after_read :: "'x sock_env_scheme \<Rightarrow> WsSocketDescriptor \<Rightarrow> ReadResult \<Rightarrow> multi_socket \<Rightarrow> bool \<times> multi_socket" where
  "after_read E d Ended s = (False, s)"
| "after_read E d ReadFailed s = (False, s)"
| "after_read E d (Got (WsText _)) s = (True, s)"
| "after_read E d (Got (WsBytes b)) s =
     (let s1 = tell (ReadEvent d b) s
      in (True, if read_ok E (told s1) then tell ProcessEvents s1 else s1))"

definition sub_turn :: "'x sock_env_scheme \<Rightarrow> nat \<Rightarrow> multi_socket \<Rightarrow> multi_socket" where
  "sub_turn E k s =
     (case sub_read k s of
        (None, s1) \<Rightarrow> s1
      | (Some r, s1) \<Rightarrow>
          (let (goes_on, s2) = after_read E (Mutiny k) r s1
           in if goes_on then s2 else on_sub k (\<lambda>x. x\<lparr>being_read := False\<rparr>) s2))"

section \<open>Connecting and reconnecting\<close>

text \<open>\<open>connect_peer\<close> of \<open>node.rs\<close> to another wallet: the flag says whether it returned \<open>Ok\<close>.\<close>

definition connect_wallet :: "'x sock_env_scheme \<Rightarrow> bytes \<Rightarrow> multi_socket \<Rightarrow> bool \<times> multi_socket" where
  "connect_wallet E peer s =
     (let (k, s1) = create_new_subsocket peer s;
          s2 = tell (NewOutbound k peer) s1
      in case outbound_bytes E (told s2) of
           None \<Rightarrow> (False, s2)
         | Some bs \<Rightarrow> (True, on_sub k (\<lambda>x. x\<lparr>being_read := True\<rparr>) (snd (send_data k bs s2))))"

definition reconnect :: "'x sock_env_scheme \<Rightarrow> nat \<Rightarrow> multi_socket \<Rightarrow> multi_socket" where
  "reconnect E c s =
     listen ((fold (\<lambda>(_, k). drop_sub E k) (socket_map s) s)\<lparr>socket_map := [], conn := c, connected := True\<rparr>)"

text \<open>A round of the loop of \<open>Node::new\<close> whose \<open>WsProxy::new\<close> gave a connection.\<close>

definition reconnect_round :: "'x sock_env_scheme \<Rightarrow> nat option \<Rightarrow> multi_socket \<Rightarrow> multi_socket" where
  "reconnect_round E new_conn s =
     (if connected s then s else (case new_conn of Some c \<Rightarrow> reconnect E c s | None \<Rightarrow> s))"

section \<open>The machine\<close>

text \<open>
  A step is taken by a loop that runs, by LDK on a descriptor it was given, or by the node. A draw
  from the shared id counter is \<open>TcpConnect\<close>, for this node or another.
\<close>

fun exists_in :: "multi_socket \<Rightarrow> WsSocketDescriptor \<Rightarrow> bool" where
  "exists_in s (Mutiny k) \<longleftrightarrow> k < next_sub s"
| "exists_in s (Tcp _) \<longleftrightarrow> True"

inductive sock_step :: "'x sock_env_scheme \<Rightarrow> multi_socket \<Rightarrow> multi_socket \<Rightarrow> bool" for E where
  Frame: "c \<in> conn_readers s \<Longrightarrow> sock_step E s (on_proxy_frame E f s)"
| ConnEnd: "c \<in> conn_readers s \<Longrightarrow> sock_step E s (conn_ended c s)"
| Sender: "c \<in> conn_senders s \<Longrightarrow> sock_step E s (sender_turn c s)"
| SubTurn: "being_read (subs s k) \<Longrightarrow> sock_step E s (sub_turn E k s)"
| LdkSend: "exists_in s d \<Longrightarrow> sock_step E s (snd (descriptor_send d data s))"
| LdkDisconnect: "exists_in s d \<Longrightarrow> sock_step E s (descriptor_disconnect E d s)"
| Connect: "sock_step E s (snd (connect_wallet E peer s))"
| Reconnect: "sock_step E s (reconnect_round E (Some (Suc (conn s))) s)"
| TcpConnect: "sock_step E s (snd (tcp_new c s))"
| TcpTurn: "sock_step E s (snd (after_read E (Tcp d) r s))"

definition sockets_reachable :: "'x sock_env_scheme \<Rightarrow> multi_socket \<Rightarrow> bool" where
  "sockets_reachable E s \<longleftrightarrow> (\<exists>c our drawn. (sock_step E)\<^sup>*\<^sup>* (listen (multi_new c our drawn)) s)"

text \<open>What each single step keeps, all steps keep.\<close>

locale kept =
  fixes step :: "'s \<Rightarrow> 's \<Rightarrow> bool" and P :: "'s \<Rightarrow> bool"
  assumes step_keeps: "step s s' \<Longrightarrow> P s \<Longrightarrow> P s'"
begin

lemma runs_keep: "step\<^sup>*\<^sup>* s s' \<Longrightarrow> P s \<Longrightarrow> P s'"
  by (induction rule: rtranclp_induct) (auto intro: step_keeps)

end

section \<open>The state after each operation\<close>

lemma on_sub_simps [simp]:
  "subs (on_sub k f s) = (subs s)(k := f (subs s k))" "socket_map (on_sub k f s) = socket_map s"
  "next_sub (on_sub k f s) = next_sub s" "ids_drawn (on_sub k f s) = ids_drawn s"
  "to_multi (on_sub k f s) = to_multi s" "queued (on_sub k f s) = queued s" "routed (on_sub k f s) = routed s"
  "told (on_sub k f s) = told s" "connected (on_sub k f s) = connected s" "conn (on_sub k f s) = conn s"
  "conn_readers (on_sub k f s) = conn_readers s" "conn_senders (on_sub k f s) = conn_senders s"
  "sent_on (on_sub k f s) = sent_on s" "our_peer_pubkey (on_sub k f s) = our_peer_pubkey s"
  by (simp_all add: on_sub_def)

lemma tell_simps [simp]:
  "told (tell c s) = told s @ [c]" "subs (tell c s) = subs s" "socket_map (tell c s) = socket_map s"
  "next_sub (tell c s) = next_sub s" "ids_drawn (tell c s) = ids_drawn s"
  "to_multi (tell c s) = to_multi s" "queued (tell c s) = queued s" "routed (tell c s) = routed s"
  "connected (tell c s) = connected s" "conn (tell c s) = conn s"
  "conn_readers (tell c s) = conn_readers s" "conn_senders (tell c s) = conn_senders s"
  "sent_on (tell c s) = sent_on s" "our_peer_pubkey (tell c s) = our_peer_pubkey s"
  by (simp_all add: tell_def)

lemma queue_up_simps [simp]:
  "to_multi (queue_up m s) = to_multi s @ [m]" "queued (queue_up m s) = queued s @ [m]"
  "told (queue_up m s) = told s" "subs (queue_up m s) = subs s" "socket_map (queue_up m s) = socket_map s"
  "next_sub (queue_up m s) = next_sub s" "ids_drawn (queue_up m s) = ids_drawn s"
  "routed (queue_up m s) = routed s" "connected (queue_up m s) = connected s" "conn (queue_up m s) = conn s"
  "conn_readers (queue_up m s) = conn_readers s" "conn_senders (queue_up m s) = conn_senders s"
  "sent_on (queue_up m s) = sent_on s" "our_peer_pubkey (queue_up m s) = our_peer_pubkey s"
  by (simp_all add: queue_up_def)

text \<open>
  The parts of the invariant: the map's sockets exist and carry the key they are filed under; one
  reader, on the current connection, as long as the wallet counts as connected, and a loop that
  sends; LDK read what was put into a subsocket, in order; what was queued for the proxy was sent
  or waits; ids come from distinct draws of the counter.
\<close>

definition map_inv :: "multi_socket \<Rightarrow> bool" where
  "map_inv s \<longleftrightarrow> distinct (map fst (socket_map s)) \<and>
     (\<forall>(p, k) \<in> set (socket_map s). k < next_sub s \<and> peer_pubkey_bytes (subs s k) = p)"

definition conn_inv :: "multi_socket \<Rightarrow> bool" where
  "conn_inv s \<longleftrightarrow> (if connected s then conn_readers s = {conn s} \<and> conn s \<in> conn_senders s else conn_readers s = {}) \<and>
     (\<forall>c \<in> conn_senders s. c \<le> conn s)"

fun read_on :: "nat \<Rightarrow> LdkCall \<Rightarrow> bytes list" where
  "read_on k (ReadEvent (Mutiny j) b) = (if j = k then [b] else [])"
| "read_on k _ = []"

definition given_to_ldk :: "nat \<Rightarrow> multi_socket \<Rightarrow> bytes list" where
  "given_to_ldk k s = concat (map (read_on k) (told s))"

definition routed_to :: "nat \<Rightarrow> multi_socket \<Rightarrow> bytes list" where
  "routed_to k s = map snd (filter (\<lambda>(j, _). j = k) (routed s))"

definition inbox_inv :: "multi_socket \<Rightarrow> bool" where
  "inbox_inv s \<longleftrightarrow>
     (\<forall>k. map WsBytes (routed_to k s) = map WsBytes (given_to_ldk k s) @ inbox (subs s k)) \<and>
     (\<forall>k \<ge> next_sub s. routed_to k s = [] \<and> \<not> being_read (subs s k))"

definition out_inv :: "multi_socket \<Rightarrow> bool" where
  "out_inv s \<longleftrightarrow> queued s = map snd (sent_on s) @ to_multi s"

definition id_inv :: "multi_socket \<Rightarrow> bool" where
  "id_inv s \<longleftrightarrow> (\<exists>draw. inj_on draw {..<next_sub s} \<and>
     (\<forall>k < next_sub s. draw k < ids_drawn s \<and> sub_id (subs s k) = of_nat (draw k)))"

definition sockets_inv :: "multi_socket \<Rightarrow> bool" where
  "sockets_inv s \<longleftrightarrow> map_inv s \<and> conn_inv s \<and> inbox_inv s \<and> out_inv s \<and> id_inv s"

lemma routed_to_cong: "routed s' = routed s \<Longrightarrow> routed_to k s' = routed_to k s"
  by (simp add: routed_to_def)

lemma given_cong: "told s' = told s \<Longrightarrow> given_to_ldk k s' = given_to_ldk k s"
  by (simp add: given_to_ldk_def)

lemma given_to_ldk_tell [simp]: "given_to_ldk k (tell c s) = given_to_ldk k s @ read_on k c"
  by (simp add: given_to_ldk_def)

lemma routed_to_put_in [simp]: "routed_to j (put_in k d s) = routed_to j s @ (if j = k then [d] else [])"
  by (simp add: routed_to_def put_in_def)

lemmas sockets_inv_defs = sockets_inv_def map_inv_def conn_inv_def out_inv_def

section \<open>The invariant is kept\<close>

lemma inbox_inv_frame:
  assumes "inbox_inv s" "routed s' = routed s" "\<And>k. given_to_ldk k s' = given_to_ldk k s"
    and "\<And>k. inbox (subs s' k) = inbox (subs s k)" "next_sub s' = next_sub s"
    and "\<And>k. k \<ge> next_sub s \<Longrightarrow> being_read (subs s' k) \<Longrightarrow> being_read (subs s k)"
  shows "inbox_inv s'"
proof -
  have "routed_to k s' = routed_to k s" for k using assms(2) by (rule routed_to_cong)
  with assms show ?thesis by (simp add: inbox_inv_def) blast
qed

lemma id_inv_frame:
  assumes "id_inv s" "next_sub s' = next_sub s" "ids_drawn s \<le> ids_drawn s'"
    "\<And>k. k < next_sub s \<Longrightarrow> sub_id (subs s' k) = sub_id (subs s k)"
  shows "id_inv s'"
proof -
  from assms(1) obtain draw where "inj_on draw {..<next_sub s}"
    "\<And>k. k < next_sub s \<Longrightarrow> draw k < ids_drawn s \<and> sub_id (subs s k) = of_nat (draw k)"
    by (auto simp: id_inv_def)
  with assms(2-4) show ?thesis
    unfolding id_inv_def by (intro exI [of _ draw]) (auto intro: order_less_le_trans)
qed

lemma inv_tell:
  assumes "sockets_inv s" "\<And>k. read_on k c = []"
  shows "sockets_inv (tell c s)"
proof -
  have "inbox_inv (tell c s)"
    using assms by - (rule inbox_inv_frame [of s], simp_all add: sockets_inv_def)
  moreover have "id_inv (tell c s)"
    using assms by - (rule id_inv_frame [of s], simp_all add: sockets_inv_def)
  ultimately show ?thesis using assms(1) by (simp add: sockets_inv_defs)
qed

lemma inv_queue_up:
  assumes "sockets_inv s"
  shows "sockets_inv (queue_up m s)"
proof -
  have "inbox_inv (queue_up m s)"
    using assms by - (rule inbox_inv_frame [of s], simp_all add: sockets_inv_def given_to_ldk_def)
  moreover have "id_inv (queue_up m s)"
    using assms by - (rule id_inv_frame [of s], simp_all add: sockets_inv_def)
  ultimately show ?thesis using assms by (simp add: sockets_inv_defs)
qed

lemma inv_on_sub:
  assumes "sockets_inv s" "\<And>x. peer_pubkey_bytes (f x) = peer_pubkey_bytes x" "\<And>x. sub_id (f x) = sub_id x"
    "\<And>x. inbox (f x) = inbox x" "\<And>x. being_read (f x) \<Longrightarrow> being_read x \<or> k < next_sub s"
  shows "sockets_inv (on_sub k f s)"
proof -
  have "inbox_inv (on_sub k f s)"
    using assms by - (rule inbox_inv_frame [of s], auto simp: sockets_inv_def given_to_ldk_def split: if_splits)
  moreover have "id_inv (on_sub k f s)"
    using assms by - (rule id_inv_frame [of s], auto simp: sockets_inv_def)
  ultimately show ?thesis using assms(1,2) by (auto simp: sockets_inv_defs)
qed

lemma inv_disconnect: "sockets_inv s \<Longrightarrow> sockets_inv (disconnect_socket E k s)"
  unfolding disconnect_socket_def by (intro inv_on_sub inv_queue_up) simp_all

lemma inv_drop_sub: "sockets_inv s \<Longrightarrow> sockets_inv (drop_sub E k s)"
  unfolding drop_sub_def by (intro inv_tell inv_disconnect) simp_all

lemma inv_send: "sockets_inv s \<Longrightarrow> sockets_inv (snd (send_data k data s))"
  by (simp add: send_data_def inv_queue_up)

lemma inv_tcp_did: "sockets_inv s \<Longrightarrow> sockets_inv (s\<lparr>tcp_did := l\<rparr>)"
  by (auto simp: sockets_inv_defs inbox_inv_def routed_to_def given_to_ldk_def elim: id_inv_frame)

lemma inv_ldk:
  "sockets_inv s \<Longrightarrow> sockets_inv (snd (descriptor_send d data s))"
  "sockets_inv s \<Longrightarrow> sockets_inv (descriptor_disconnect E d s)"
  by (cases d; simp add: inv_tcp_did inv_send inv_disconnect)+

lemma inv_start_reading:
  "sockets_inv s \<Longrightarrow> k < next_sub s \<Longrightarrow> sockets_inv (on_sub k (\<lambda>x. x\<lparr>being_read := True\<rparr>) s)"
  by (rule inv_on_sub) simp_all

lemma inv_stop_reading: "sockets_inv s \<Longrightarrow> sockets_inv (on_sub k (\<lambda>x. x\<lparr>being_read := False\<rparr>) s)"
  by (rule inv_on_sub) simp_all

lemma create_new_subsocket_simps [simp]:
  "fst (create_new_subsocket p s) = next_sub s"
  "next_sub (snd (create_new_subsocket p s)) = Suc (next_sub s)"
  "subs (snd (create_new_subsocket p s)) = (subs s)(next_sub s := sub_new p (ids_drawn s))"
  "socket_map (snd (create_new_subsocket p s)) = AList.update p (next_sub s) (socket_map s)"
  "told (snd (create_new_subsocket p s)) = told s" "routed (snd (create_new_subsocket p s)) = routed s"
  "to_multi (snd (create_new_subsocket p s)) = to_multi s" "queued (snd (create_new_subsocket p s)) = queued s"
  by (simp_all add: create_new_subsocket_def)

lemma set_update: "distinct (map fst m) \<Longrightarrow> (a, b) \<in> set (AList.update p k m) \<longleftrightarrow> (if a = p then b = k else (a, b) \<in> set m)"
  by (metis distinct_update map_of_eq_Some_iff option.inject update_Some_unfold)

lemma inv_create:
  assumes "sockets_inv s"
  shows "sockets_inv (snd (create_new_subsocket p s))"
proof -
  let ?s = "snd (create_new_subsocket p s)"
  from assms have dist: "distinct (map fst (socket_map s))" by (simp add: sockets_inv_defs)
  from assms have rest: "inbox (subs s (next_sub s)) = []"
    unfolding sockets_inv_def inbox_inv_def by (metis Nil_is_append_conv list.map(1) order_refl)
  have "map_inv ?s"
    using assms by (auto simp: sockets_inv_defs set_update [OF dist] distinct_update sub_new_def less_Suc_eq split: if_splits)
  moreover have "inbox_inv ?s"
    using assms by (auto simp: sockets_inv_def inbox_inv_def routed_to_cong [of ?s s] given_cong [of ?s s] sub_new_def)
      (metis Nil_is_append_conv list.map_disc_iff order_refl)
  moreover from assms obtain draw where "inj_on draw {..<next_sub s}"
    "\<forall>k < next_sub s. draw k < ids_drawn s \<and> sub_id (subs s k) = of_nat (draw k)"
    by (auto simp: sockets_inv_def id_inv_def)
  then have "id_inv ?s"
    unfolding id_inv_def
    by (intro exI [of _ "draw(next_sub s := ids_drawn s)"])
      (auto simp: create_new_subsocket_def sub_new_def inj_on_def less_Suc_eq)
  ultimately show ?thesis
    using assms by (simp add: sockets_inv_def conn_inv_def out_inv_def create_new_subsocket_def)
qed

lemma given_to_ldk_put_in: "given_to_ldk j (put_in k d s) = given_to_ldk j s"
  by (simp add: given_to_ldk_def put_in_def)

lemma put_in_facts [simp]:
  "subs (put_in k d s) = (subs s)(k := (subs s k)\<lparr>inbox := inbox (subs s k) @ [WsBytes d]\<rparr>)"
  "next_sub (put_in k d s) = next_sub s" "socket_map (put_in k d s) = socket_map s"
  "told (put_in k d s) = told s" "to_multi (put_in k d s) = to_multi s"
  by (simp_all add: put_in_def)

lemma inv_put_in:
  assumes "sockets_inv s" "k < next_sub s"
  shows "sockets_inv (put_in k d s)"
proof -
  have "inbox_inv (put_in k d s)"
    using assms by (auto simp: inbox_inv_def sockets_inv_def given_to_ldk_put_in)
  moreover have "id_inv (put_in k d s)"
    using assms by - (rule id_inv_frame [of s], auto simp: sockets_inv_def put_in_def)
  ultimately show ?thesis using assms(1) by (auto simp: sockets_inv_defs put_in_def)
qed

lemma in_delete: "x \<in> set (AList.delete p m) \<Longrightarrow> x \<in> set m"
  by (simp add: AList.delete_eq)

lemma inv_unfile:
  assumes "sockets_inv s"
  shows "sockets_inv (s\<lparr>socket_map := AList.delete p (socket_map s)\<rparr>)"
proof -
  let ?s = "s\<lparr>socket_map := AList.delete p (socket_map s)\<rparr>"
  have "inbox_inv ?s"
    using assms by - (rule inbox_inv_frame [of s], simp_all add: sockets_inv_def given_to_ldk_def)
  moreover have "id_inv ?s"
    using assms by - (rule id_inv_frame [of s], simp_all add: sockets_inv_def)
  ultimately show ?thesis
    using assms by (auto simp: sockets_inv_defs distinct_delete dest: in_delete)
qed

lemma inv_command: "sockets_inv s \<Longrightarrow> sockets_inv (on_command E c s)"
  by (cases c) (auto simp: Let_def split: option.split intro: inv_unfile inv_drop_sub)

lemma inv_inbound:
  assumes "sockets_inv s"
  shows "sockets_inv (on_inbound E p d s)"
proof -
  let ?s2 = "tell (NewInbound (next_sub s)) (snd (create_new_subsocket p s))"
  have s2: "sockets_inv ?s2" using assms by (intro inv_tell inv_create) simp_all
  have "sockets_inv (put_in (next_sub s) d (on_sub (next_sub s) (\<lambda>x. x\<lparr>being_read := True\<rparr>) ?s2))"
    by (intro inv_put_in inv_start_reading s2) simp_all
  with inv_unfile [OF inv_drop_sub [OF s2, of E "next_sub s"], of p] show ?thesis
    by (simp add: on_inbound_def Let_def case_prod_beta)
qed

lemma mapped_exists: "sockets_inv s \<Longrightarrow> map_of (socket_map s) p = Some k \<Longrightarrow> k < next_sub s \<and> peer_pubkey_bytes (subs s k) = p"
  by (drule map_of_SomeD) (auto simp: sockets_inv_defs)

lemma inv_frame: "sockets_inv s \<Longrightarrow> sockets_inv (on_proxy_frame E f s)"
  by (cases "(E, f, s)" rule: on_proxy_frame.cases)
    (auto simp: Let_def split: option.split intro: inv_command inv_inbound inv_put_in dest: mapped_exists)

lemma inv_conn_ended: "sockets_inv s \<Longrightarrow> c \<in> conn_readers s \<Longrightarrow> sockets_inv (conn_ended c s)"
  by (auto simp: conn_ended_def sockets_inv_defs inbox_inv_def id_inv_def routed_to_def given_to_ldk_def split: if_splits)

lemma inv_sender: "sockets_inv s \<Longrightarrow> sockets_inv (sender_turn c s)"
  by (auto simp: sender_turn_def Let_def sockets_inv_defs inbox_inv_def id_inv_def routed_to_def given_to_ldk_def
      split: if_splits list.split)

lemma inv_read_tcp: "sockets_inv s \<Longrightarrow> sockets_inv (snd (after_read E (Tcp d) r s))"
  by (cases "(E, Tcp d, r, s)" rule: after_read.cases) (auto simp: Let_def intro!: inv_tell)

lemma inv_given:
  assumes "sockets_inv s" "inbox (subs s k) = WsBytes b # rest"
  shows "sockets_inv (tell (ReadEvent (Mutiny k) b) (on_sub k (\<lambda>x. x\<lparr>inbox := rest\<rparr>) s))"
proof -
  let ?s = "tell (ReadEvent (Mutiny k) b) (on_sub k (\<lambda>x. x\<lparr>inbox := rest\<rparr>) s)"
  have g: "given_to_ldk j ?s = given_to_ldk j s @ (if j = k then [b] else [])" for j
    by (simp add: given_to_ldk_def)
  have r: "routed_to j ?s = routed_to j s" for j by (simp add: routed_to_def)
  have "inbox_inv ?s"
    using assms unfolding sockets_inv_def inbox_inv_def g r by auto
  moreover have "id_inv ?s"
    using assms by - (rule id_inv_frame [of s], auto simp: sockets_inv_def)
  ultimately show ?thesis using assms(1) by (auto simp: sockets_inv_defs)
qed

lemma inv_inbox_bytes:
  assumes "sockets_inv s" "m \<in> set (inbox (subs s k))"
  obtains b where "m = WsBytes b"
proof -
  have "map WsBytes (routed_to k s) = map WsBytes (given_to_ldk k s) @ inbox (subs s k)"
    using assms(1) by (simp add: sockets_inv_def inbox_inv_def)
  then have "m \<in> set (map WsBytes (routed_to k s))" using assms(2) by simp
  with that show ?thesis by auto
qed

lemma inv_sub_turn:
  assumes "sockets_inv s"
  shows "sockets_inv (sub_turn E k s)"
proof (cases "stop (subs s k) \<or> inbox (subs s k) = []")
  case True
  then show ?thesis
    using assms by (auto simp: sub_turn_def sub_read_def intro: inv_stop_reading)
next
  case False
  then obtain m rest where m: "inbox (subs s k) = m # rest" by (auto simp: neq_Nil_conv)
  with inv_inbox_bytes [OF assms, of m k] obtain b where b: "m = WsBytes b" by auto
  from inv_given [OF assms m [unfolded b]] show ?thesis
    using False m b by (auto simp: sub_turn_def sub_read_def Let_def intro: inv_tell)
qed

lemma inv_connect:
  assumes "sockets_inv s"
  shows "sockets_inv (snd (connect_wallet E p s))"
proof -
  have "sockets_inv (tell (NewOutbound (next_sub s) p) (snd (create_new_subsocket p s)))" (is "sockets_inv ?s")
    using assms by (intro inv_tell inv_create) simp_all
  moreover have "next_sub (snd (send_data k bs s')) = next_sub s'" for k bs s' by (simp add: send_data_def)
  ultimately show ?thesis
    by (auto simp: connect_wallet_def Let_def case_prod_beta split: option.split intro!: inv_start_reading inv_send)
qed

lemma drop_sub_simps [simp]:
  "subs (drop_sub E k s) = (subs s)(k := (subs s k)\<lparr>stop := True\<rparr>)" "socket_map (drop_sub E k s) = socket_map s"
  "told (drop_sub E k s) = told s @ [SocketDisconnected k]" "next_sub (drop_sub E k s) = next_sub s"
  "to_multi (drop_sub E k s) =
     to_multi s @ [WsText (command_text E (ProxyDisconnect (peer_pubkey_bytes (subs s k)) (our_peer_pubkey s)))]"
  "connected (drop_sub E k s) = connected s" "conn (drop_sub E k s) = conn s"
  "conn_readers (drop_sub E k s) = conn_readers s" "conn_senders (drop_sub E k s) = conn_senders s"
  "our_peer_pubkey (drop_sub E k s) = our_peer_pubkey s" "sent_on (drop_sub E k s) = sent_on s"
  by (simp_all add: drop_sub_def disconnect_socket_def)

lemma drop_all_simps [simp]:
  "conn (fold (\<lambda>(_, k). drop_sub E k) m s) = conn s" "connected (fold (\<lambda>(_, k). drop_sub E k) m s) = connected s"
  "conn_readers (fold (\<lambda>(_, k). drop_sub E k) m s) = conn_readers s"
  "conn_senders (fold (\<lambda>(_, k). drop_sub E k) m s) = conn_senders s"
  "sent_on (fold (\<lambda>(_, k). drop_sub E k) m s) = sent_on s" "next_sub (fold (\<lambda>(_, k). drop_sub E k) m s) = next_sub s"
  by (induction m arbitrary: s) auto

lemma inv_drop_all: "sockets_inv s \<Longrightarrow> sockets_inv (fold (\<lambda>(_, k). drop_sub E k) m s)"
  by (induction m arbitrary: s) (auto intro: inv_drop_sub)

lemma inv_reconnect:
  assumes "sockets_inv s" "\<not> connected s"
  shows "sockets_inv (reconnect E (Suc (conn s)) s)"
proof -
  let ?t = "fold (\<lambda>(_, k). drop_sub E k) (socket_map s) s"
  let ?r = "listen (?t\<lparr>socket_map := [], conn := Suc (conn s), connected := True\<rparr>)"
  have t: "sockets_inv ?t" by (rule inv_drop_all [OF assms(1)])
  have "inbox_inv ?r"
    using t by - (rule inbox_inv_frame [of ?t], simp_all add: sockets_inv_def given_to_ldk_def listen_def)
  moreover have "id_inv ?r"
    using t by - (rule id_inv_frame [of ?t], simp_all add: sockets_inv_def listen_def)
  moreover have "conn_inv ?r"
    using t assms by (auto simp: sockets_inv_defs listen_def le_Suc_eq)
  ultimately show ?thesis
    using t by (simp add: reconnect_def sockets_inv_def map_inv_def out_inv_def listen_def)
qed

lemma inv_tcp: "sockets_inv s \<Longrightarrow> sockets_inv (snd (tcp_new c s))"
  by (auto simp: tcp_new_def sockets_inv_defs inbox_inv_def routed_to_def given_to_ldk_def elim: id_inv_frame)

interpretation sockets: kept "sock_step E" sockets_inv for E :: "'x sock_env_scheme"
proof
  fix s s' assume "sock_step E s s'" "sockets_inv s"
  then show "sockets_inv s'"
    by cases (auto simp: reconnect_round_def intro: inv_frame inv_conn_ended inv_sender inv_sub_turn inv_ldk
        inv_connect inv_reconnect inv_tcp inv_read_tcp)
qed

lemma inv_new: "sockets_inv (listen (multi_new c our drawn))"
  by (simp add: listen_def multi_new_def sockets_inv_defs inbox_inv_def routed_to_def given_to_ldk_def id_inv_def)

lemma reachable_sockets_inv: "sockets_reachable E s \<Longrightarrow> sockets_inv s"
  unfolding sockets_reachable_def using sockets.runs_keep inv_new by blast

section \<open>Properties of the wallet's sockets\<close>


lemma sender_drains:
  assumes "connected s" "c \<in> conn_senders s"
  shows "(sock_step E)\<^sup>*\<^sup>* s (s\<lparr>to_multi := [], sent_on := sent_on s @ map (Pair c) (to_multi s)\<rparr>)"
  using assms
proof (induction "to_multi s" arbitrary: s)
  case Nil
  then have "s = s\<lparr>to_multi := [], sent_on := sent_on s @ map (Pair c) (to_multi s)\<rparr>" by simp
  then show ?case by (metis rtranclp.rtrancl_refl)
next
  case (Cons m rest)
  let ?s1 = "sender_turn c s"
  have "sock_step E s ?s1" by (rule sock_step.Sender [OF Cons.prems(2)])
  moreover have s1: "?s1 = s\<lparr>to_multi := rest, sent_on := sent_on s @ [(c, m)]\<rparr>"
    using Cons.prems(1) Cons.hyps(2) [symmetric] by (simp add: sender_turn_def)
  moreover have "(sock_step E)\<^sup>*\<^sup>* ?s1 (?s1\<lparr>to_multi := [], sent_on := sent_on ?s1 @ map (Pair c) (to_multi ?s1)\<rparr>)"
    using Cons.prems by (intro Cons.hyps(1)) (simp_all add: s1)
  ultimately show ?case
    using Cons.hyps(2) [symmetric] by (auto intro: converse_rtranclp_into_rtranclp)
qed


text \<open>
  A reconnection that comes before the old sending loop has noticed the end of its connection
  leaves that loop running: from every reachable connected state steps lead to one where the wallet
  is connected anew, yet the opening bytes for a wallet it connects to went to the dead connection.
\<close>

theorem quick_reconnect_loses_the_handshake:
  assumes "sockets_reachable E s" "connected s" "\<And>log. outbound_bytes E log \<noteq> None"
  shows "\<exists>s' bs. (sock_step E)\<^sup>*\<^sup>* s s' \<and> connected s' \<and> conn s' \<noteq> conn s \<and> conn_readers s' = {conn s'} \<and>
    map_of (socket_map s') p = Some (next_sub s' - 1) \<and>
    (\<exists>before. sent_on s' = before @ [(conn s, WsBytes (p @ bs))]) \<and> to_multi s' = []"
proof -
  let ?c = "conn s"
  note inv = reachable_sockets_inv [OF assms(1)]
  define s1 where "s1 = conn_ended ?c s"
  define s2 where "s2 = reconnect E (Suc ?c) s1"
  define s3 where "s3 = s2\<lparr>to_multi := [], sent_on := sent_on s2 @ map (Pair (Suc ?c)) (to_multi s2)\<rparr>"
  have step1: "sock_step E s s1"
    using inv assms(2) sock_step.ConnEnd [of ?c s E] by (simp add: s1_def sockets_inv_defs)
  have off: "\<not> connected s1" "conn s1 = ?c" by (simp_all add: s1_def conn_ended_def)
  have step2: "sock_step E s1 s2"
    using sock_step.Reconnect [of E s1] off by (simp add: reconnect_round_def s2_def)
  have on: "connected s2" "conn s2 = Suc ?c" "?c \<in> conn_senders s2" "Suc ?c \<in> conn_senders s2" "conn_readers s2 = {Suc ?c}"
    using inv assms(2) by (auto simp: s2_def reconnect_def listen_def s1_def conn_ended_def sockets_inv_defs)
  have steps3: "(sock_step E)\<^sup>*\<^sup>* s2 s3"
    unfolding s3_def by (rule sender_drains [OF on(1,4)])
  obtain bs where bs: "outbound_bytes E (told s3 @ [NewOutbound (next_sub s3) p]) = Some bs"
    using assms(3) by blast
  let ?s4 = "snd (connect_wallet E p s3)"
  have s4: "connected ?s4" "conn ?s4 = Suc ?c" "?c \<in> conn_senders ?s4" "conn_readers ?s4 = {Suc ?c}"
    "to_multi ?s4 = [WsBytes (p @ bs)]" "sent_on ?s4 = sent_on s3" "map_of (socket_map ?s4) p = Some (next_sub ?s4 - 1)"
    using on bs by (simp_all add: connect_wallet_def Let_def create_new_subsocket_def send_data_def sub_new_def s3_def update_conv')
  have "sock_step E s3 ?s4" by (rule sock_step.Connect)
  moreover have "sock_step E ?s4 (sender_turn ?c ?s4)" by (rule sock_step.Sender [OF s4(3)])
  ultimately have "(sock_step E)\<^sup>*\<^sup>* s (sender_turn ?c ?s4)"
    using step1 step2 steps3 by (meson converse_rtranclp_into_rtranclp rtranclp.rtrancl_into_rtrancl)
  moreover have "sender_turn ?c ?s4 = ?s4\<lparr>to_multi := [], sent_on := sent_on s3 @ [(?c, WsBytes (p @ bs))]\<rparr>"
    using s4 by (simp add: sender_turn_def)
  ultimately show ?thesis
    using s4 by (intro exI [of _ "sender_turn ?c ?s4"] exI [of _ bs]) auto
qed

text \<open>
  A subsocket that LDK has disconnected stays filed under its peer's key: every further frame of
  that peer is put into it and never read, LDK hears nothing of it and the peer gets no answer,
  until the proxy reports the peer as disconnected; the next frame then opens a new connection.
\<close>

theorem stopped_subsocket_swallows:
  assumes "sockets_reachable E s" "map_of (socket_map s) p = Some k" "stop (subs s k)" "length p = PUBKEY_BYTES_LEN"
    and "s' = fold (\<lambda>d. on_proxy_frame E (Some (WsBytes (p @ d)))) ds s"
  shows "told s' = told s \<and> to_multi s' = to_multi s \<and> map_of (socket_map s') p = Some k \<and>
    routed s' = routed s @ map (Pair k) ds \<and> told (sub_turn E k s') = told s \<and>
    (\<exists>more. told (on_proxy_frame E (Some (WsBytes (p @ d))) (on_command E (ProxyDisconnect to p) s')) =
       told s @ [SocketDisconnected k, NewInbound (next_sub s)] @ more)"
proof -
  have "told s' = told s \<and> to_multi s' = to_multi s \<and> map_of (socket_map s') p = Some k \<and>
      routed s' = routed s @ map (Pair k) ds \<and> stop (subs s' k) \<and> next_sub s' = next_sub s \<and>
      distinct (map fst (socket_map s'))"
    unfolding assms(5)
  proof (induction ds rule: rev_induct)
    case Nil
    then show ?case using reachable_sockets_inv [OF assms(1)] assms(2,3) by (simp add: sockets_inv_defs)
  next
    case (snoc d ds)
    then show ?case using assms(4) by (simp add: put_in_def)
  qed
  then show ?thesis
    using assms(4)
    by (simp add: sub_turn_def sub_read_def on_inbound_def Let_def case_prod_beta delete_conv' put_in_def)
qed

text \<open>
  Descriptors are compared by their ids; as long as fewer than \<open>2 ^ 64\<close> sockets were made, two
  subsockets are equal for LDK only when they are the same one.
\<close>

theorem descriptors_are_told_apart:
  assumes "sockets_reachable E s" "ids_drawn s \<le> 2 ^ 64" "j < next_sub s" "k < next_sub s"
  shows "same_descriptor s (Mutiny j) (Mutiny k) \<longleftrightarrow> j = k"
proof -
  obtain draw where "inj_on draw {..<next_sub s}"
    "\<forall>k < next_sub s. draw k < ids_drawn s \<and> sub_id (subs s k) = of_nat (draw k)"
    using reachable_sockets_inv [OF assms(1)] by (auto simp: sockets_inv_def id_inv_def)
  moreover from this have "draw j < 2 ^ 64" "draw k < 2 ^ 64" using assms by (auto intro: order_less_le_trans)
  ultimately show ?thesis
    using assms(3,4) by (auto simp: word_of_nat_eq_iff take_bit_nat_eq_self inj_on_def)
qed

section \<open>Two wallets and the proxy\<close>

text \<open>The same frame as the proxy's library and the browser's name it.\<close>

fun frame_of :: "WsMessage \<Rightarrow> Message" where
  "frame_of (WsText t) = Text t"
| "frame_of (WsBytes b) = Binary b"

fun message_of :: "Message \<Rightarrow> WsMessage option" where
  "message_of (Text t) = Some (WsText t)"
| "message_of (Binary b) = Some (WsBytes b)"
| "message_of Ping = None"

text \<open>\<open>serde_json\<close> reads the commands it writes.\<close>

definition commands_ok :: "'x proxy_env_scheme \<Rightarrow> bool" where
  "commands_ok E \<longleftrightarrow> (\<forall>c. from_json (json_command E) (command_text E c) = Some c)"

text \<open>A frame from client \<open>t\<close>, and the next turn of task \<open>u\<close>.\<close>

definition relayed :: "'x proxy_env_scheme \<Rightarrow> task \<Rightarrow> task \<Rightarrow> Message \<Rightarrow> server \<Rightarrow> Message list" where
  "relayed E t u m s =
     (let P = proxy_env.truncate E
      in drop (length (sent_down (tasks s u))) (sent_down (tasks (deliver P u (on_message P t m s)) u)))"

definition linked :: "server \<Rightarrow> task \<Rightarrow> bytes \<Rightarrow> task \<Rightarrow> bytes \<Rightarrow> bool" where
  "linked s t owner u peer \<longleftrightarrow> owner_id_bytes (tasks s t) = owner \<and> registered s peer = Some u \<and>
     running (tasks s u) \<and> owner_id_bytes (tasks s u) = peer \<and> rx (tasks s u) = []"

lemma truncate_simps:
  "json_command (proxy_env.truncate E) = json_command E" "command_text (proxy_env.truncate E) = command_text E"
  by (simp_all add: proxy_env.truncate_def)

lemma listen_keeps:
  "rx (tasks (listen_for_disconnections t p on s) u) = rx (tasks s u)"
  "sent_down (tasks (listen_for_disconnections t p on s) u) = sent_down (tasks s u)"
  "owner_id_bytes (tasks (listen_for_disconnections t p on s) u) = owner_id_bytes (tasks s u)"
  by (simp_all add: listen_for_disconnections_def)

lemma relayed_bytes:
  assumes "linked s t owner u peer" "length peer = PUBKEY_BYTES_LEN"
  shows "relayed E t u (Binary (peer @ data)) s = [Binary (owner @ data)]"
  using assms
  by (simp add: relayed_def linked_def Let_def push_def push_running_def has_room_def QUEUE_LEN_def finish_def deliver_def
      listen_keeps)

lemma relayed_notice:
  assumes "linked s t owner u peer" "commands_ok E"
  shows "relayed E t u (Text (command_text E (ProxyDisconnect peer from))) s =
    [Text (command_text E (ProxyDisconnect peer owner))]"
  using assms
  by (auto simp: relayed_def linked_def Let_def push_def push_running_def has_room_def QUEUE_LEN_def finish_def deliver_def
      truncate_simps commands_ok_def)

text \<open>
  C19: what LDK of one wallet writes to its subsocket for another wallet arrives, over the one
  websocket of each and the proxy, in the other's subsocket for the first, unchanged.
\<close>

theorem data_crosses_the_proxy:
  assumes "linked s t our_a u our_b" "length our_a = PUBKEY_BYTES_LEN" "length our_b = PUBKEY_BYTES_LEN"
    and "our_peer_pubkey a = our_a" "peer_pubkey_bytes (subs a k) = our_b" "\<not> stop (subs a k)"
    and "map_of (socket_map b) our_a = Some j"
  shows "\<exists>m f. snd (send_data k data a) = queue_up m a \<and> fst (send_data k data a) = length data \<and>
    relayed E t u (frame_of m) s = [f] \<and> on_proxy_frame E (message_of f) b = put_in j data b"
  using relayed_bytes [OF assms(1,3)] assms(2-)
  by (intro exI [of _ "WsBytes (our_b @ data)"] exI [of _ "Binary (our_a @ data)"]) (simp add: send_data_def)

text \<open>
  C20: a wallet that hangs up on another makes the other drop its subsocket and tell its LDK; the
  other's answer makes the first drop its own, and the answer to that changes nothing any more.
\<close>

theorem hanging_up_reaches_both_ends:
  assumes "linked s t our_a u our_b" "linked s u our_b t our_a" "commands_ok E"
    and "our_peer_pubkey a = our_a" "peer_pubkey_bytes (subs a k) = our_b" "map_of (socket_map a) our_b = Some k"
    and "our_peer_pubkey b = our_b" "peer_pubkey_bytes (subs b j) = our_a" "map_of (socket_map b) our_a = Some j"
    and "a1 = disconnect_socket E k a"
  shows "\<exists>m f n g r b1 a2. a1 = on_sub k (\<lambda>x. x\<lparr>stop := True\<rparr>) (queue_up m a) \<and>
    relayed E t u (frame_of m) s = [f] \<and> on_proxy_frame E (message_of f) b = b1 \<and>
    map_of (socket_map b1) our_a = None \<and> stop (subs b1 j) \<and> told b1 = told b @ [SocketDisconnected j] \<and>
    to_multi b1 = to_multi b @ [n] \<and>
    relayed E u t (frame_of n) s = [g] \<and> on_proxy_frame E (message_of g) a1 = a2 \<and>
    map_of (socket_map a2) our_b = None \<and> told a2 = told a @ [SocketDisconnected k] \<and>
    to_multi a2 = to_multi a @ [m, r] \<and>
    relayed E t u (frame_of r) s = [f] \<and> on_proxy_frame E (message_of f) b1 = b1"
proof -
  let ?m = "WsText (command_text E (ProxyDisconnect our_b our_a))"
  let ?n = "WsText (command_text E (ProxyDisconnect our_a our_b))"
  let ?b1 = "(drop_sub E j b)\<lparr>socket_map := AList.delete our_a (socket_map b)\<rparr>"
  let ?a2 = "(drop_sub E k a1)\<lparr>socket_map := AList.delete our_b (socket_map a)\<rparr>"
  have codec: "from_json (json_command E) (command_text E c) = Some c" for c
    using assms(3) by (simp add: commands_ok_def)
  have f: "relayed E t u (frame_of ?m) s = [frame_of ?m]" and g: "relayed E u t (frame_of ?n) s = [frame_of ?n]"
    using relayed_notice [OF assms(1,3)] relayed_notice [OF assms(2,3)] by simp_all
  have b1: "on_proxy_frame E (message_of (frame_of ?m)) b = ?b1" "on_proxy_frame E (message_of (frame_of ?m)) ?b1 = ?b1"
    using assms(9) by (simp_all add: codec Let_def delete_conv')
  have a1: "a1 = on_sub k (\<lambda>x. x\<lparr>stop := True\<rparr>) (queue_up ?m a)"
    using assms(4,5,10) by (simp add: disconnect_socket_def)
  have a2: "on_proxy_frame E (message_of (frame_of ?n)) a1 = ?a2"
    using assms(6) by (simp add: a1 codec Let_def)
  show ?thesis
    using f g b1 a2 assms(4,5,7,8)
    by (intro exI [of _ ?m] exI [of _ "frame_of ?m"] exI [of _ ?n] exI [of _ "frame_of ?n"] exI [of _ ?b1] exI [of _ ?a2])
      (simp add: a1 delete_conv')
qed

section \<open>A concrete run\<close>

fun demo_text :: "MutinyProxyCommand \<Rightarrow> string" where
  "demo_text (ProxyDisconnect a b) = replicate (length a) CHR ''1'' @ CHR ''0'' # of_bytes (a @ b)"

definition demo_command :: "string \<Rightarrow> MutinyProxyCommand option" where
  "demo_command t =
     (let n = length (takeWhile (\<lambda>c. c = CHR ''1'') t); r = as_bytes (drop (Suc n) t)
      in Some (ProxyDisconnect (take n r) (drop n r)))"

definition demo_sock :: sock_env where
  "demo_sock = \<lparr>hex_id = (\<lambda>_. None), json_command = \<lparr>to_json = (\<lambda>_. None), from_json = demo_command\<rparr>,
     command_text = demo_text, inbound_ok = (\<lambda>_. True), outbound_bytes = (\<lambda>_. Some [9]), read_ok = (\<lambda>_. True)\<rparr>"

lemma demo_ones: "takeWhile (\<lambda>c. c = CHR ''1'') (replicate n CHR ''1'' @ CHR ''0'' # r) = replicate n CHR ''1''"
  by (induction n) simp_all

lemma demo_commands_ok: "commands_ok demo_sock"
proof -
  have "demo_command (demo_text c) = Some c" for c
    by (cases c) (simp add: demo_command_def Let_def demo_ones)
  then show ?thesis by (simp add: commands_ok_def demo_sock_def)
qed

definition wallet_a :: multi_socket where "wallet_a = snd (connect_wallet demo_sock id_b (listen (multi_new 0 id_a 0)))"
definition wallet_b :: multi_socket where "wallet_b = snd (connect_wallet demo_sock id_a (listen (multi_new 0 id_b 0)))"

lemma demo_connect:
  "snd (connect_wallet demo_sock p (listen (multi_new 0 our 0))) =
   (listen (multi_new 0 our 0))\<lparr>socket_map := [(p, 0)], next_sub := 1, ids_drawn := 1, told := [NewOutbound 0 p],
     to_multi := [WsBytes (p @ [9])], queued := [WsBytes (p @ [9])],
     subs := (subs (multi_new 0 our 0))(0 := (sub_new p 0)\<lparr>being_read := True\<rparr>)\<rparr>"
  by (simp add: connect_wallet_def create_new_subsocket_def send_data_def demo_sock_def listen_def multi_new_def
      sub_new_def tell_def queue_up_def on_sub_def)

lemma demo_wallet_facts:
  "socket_map wallet_a = [(id_b, 0)]" "socket_map wallet_b = [(id_a, 0)]"
  "our_peer_pubkey wallet_a = id_a" "our_peer_pubkey wallet_b = id_b"
  "peer_pubkey_bytes (subs wallet_a 0) = id_b" "peer_pubkey_bytes (subs wallet_b 0) = id_a"
  "\<not> stop (subs wallet_a 0)" "connected wallet_a" "next_sub wallet_a = 1" "ids_drawn wallet_a = 1" "conn wallet_a = 0"
  unfolding wallet_a_def wallet_b_def demo_connect by (simp_all add: sub_new_def listen_def multi_new_def)

lemma demo_wallet_reachable: "sockets_reachable demo_sock wallet_a"
  unfolding sockets_reachable_def wallet_a_def
  by (intro exI [of _ 0] exI [of _ id_a] exI [of _ "0::nat"] r_into_rtranclp sock_step.Connect)

lemma demo_linked: "linked demo_two 0 id_a 1 id_b" "linked demo_two 1 id_b 0 id_a"
  using demo_ids by (simp_all add: linked_def demo_two demo_one proxy_start_def new_task_def)

lemma demo_id_lengths: "length id_a = PUBKEY_BYTES_LEN" "length id_b = PUBKEY_BYTES_LEN"
  by (simp_all add: demo_ids PUBKEY_BYTES_LEN_def)



lemma quick_reconnect_loses_the_handshake_witness:
  "\<exists>s' bs. (sock_step demo_sock)\<^sup>*\<^sup>* wallet_a s' \<and> connected s' \<and> conn s' \<noteq> 0 \<and> to_multi s' = [] \<and>
    (\<exists>before. sent_on s' = before @ [(0, WsBytes (id_b @ bs))])"
proof -
  have "outbound_bytes demo_sock log \<noteq> None" for log by (simp add: demo_sock_def)
  from quick_reconnect_loses_the_handshake [OF demo_wallet_reachable demo_wallet_facts(8) this, of id_b]
  show ?thesis by (auto simp: demo_wallet_facts)
qed

definition wallet_a_off :: multi_socket where "wallet_a_off = disconnect_socket demo_sock 0 wallet_a"

lemma stopped_subsocket_swallows_witness:
  "told (fold (\<lambda>d. on_proxy_frame demo_sock (Some (WsBytes (id_b @ d)))) [[1], [2]] wallet_a_off) = told wallet_a"
proof -
  have "sock_step demo_sock wallet_a wallet_a_off"
    using sock_step.LdkDisconnect [of wallet_a "Mutiny 0" demo_sock] by (simp add: wallet_a_off_def demo_wallet_facts)
  then have r: "sockets_reachable demo_sock wallet_a_off"
    using demo_wallet_reachable unfolding sockets_reachable_def by (meson rtranclp.rtrancl_into_rtrancl)
  have "map_of (socket_map wallet_a_off) id_b = Some 0" "stop (subs wallet_a_off 0)" "told wallet_a_off = told wallet_a"
    by (simp_all add: wallet_a_off_def disconnect_socket_def demo_wallet_facts)
  then show ?thesis
    using stopped_subsocket_swallows [OF r _ _ demo_id_lengths(2) refl, of 0 "[[1], [2]]"] by simp
qed

lemma descriptors_are_told_apart_witness: "same_descriptor wallet_a (Mutiny 0) (Mutiny 0)"
  using descriptors_are_told_apart [OF demo_wallet_reachable, of 0 0] demo_wallet_facts by simp

lemma data_crosses_the_proxy_witness:
  "\<exists>m f. snd (send_data 0 [5] wallet_a) = queue_up m wallet_a \<and>
    relayed demo_sock 0 1 (frame_of m) demo_two = [f] \<and> on_proxy_frame demo_sock (message_of f) wallet_b = put_in 0 [5] wallet_b"
  using data_crosses_the_proxy [OF demo_linked(1) demo_id_lengths, of wallet_a 0 wallet_b 0 "[5]" demo_sock] demo_wallet_facts
  by (auto simp del: on_proxy_frame.simps)

lemma hanging_up_reaches_both_ends_witness:
  "\<exists>m f b1. disconnect_socket demo_sock 0 wallet_a = on_sub 0 (\<lambda>x. x\<lparr>stop := True\<rparr>) (queue_up m wallet_a) \<and>
    relayed demo_sock 0 1 (frame_of m) demo_two = [f] \<and> on_proxy_frame demo_sock (message_of f) wallet_b = b1 \<and>
    map_of (socket_map b1) id_a = None"
  using hanging_up_reaches_both_ends [OF demo_linked demo_commands_ok, of wallet_a 0 wallet_b 0, OF _ _ _ _ _ _ refl]
    demo_wallet_facts
  by (auto simp del: on_proxy_frame.simps)

end
