(* ===== verification/OnChain.thy ===== *)
theory OnChain
  imports WalletApi "HOL-Library.Option_ord" "HOL-Library.Sublist"
begin

text \<open>
  The on-chain side of the wallet: \<open>node-manager/src/wallet.rs\<close> and the calls of
  \<open>node-manager/src/nodemanager.rs\<close> that use it. The bdk wallet and the Esplora client are
  parameters: what they answer may depend on all the calls made of them (\<open>oc_calls\<close>) and, as bdk
  keeps its data there, on the browser storage, which they may change. An \<open>f32\<close> is its 32 bits; the
  results of the JavaScript side are the values before their conversion.
\<close>

section \<open>State and surroundings\<close>

type_synonym f32 = "32 word"

datatype FeeRate = FeeRate f32

datatype Psbt = Psbt bytes

text \<open>An address as \<open>Address::from_str\<close> gives it, its payload as the script.\<close>

record Address =
  addr_network :: Network
  addr_script :: Script

text \<open>A transaction as Esplora lists it; the last two fields are its conversions.\<close>

record EsploraTx =
  etx_txid :: Txid
  etx_vout :: "TxOut list"
  etx_confirmation_time :: "BlockTime option"
  etx_to_tx :: Transaction

datatype WalletCall =
    GetNewAddress
  | GetWalletBalance
  | ListUnspent
  | ListTransactions bool
  | EstimateFee nat
  | BuildTx Script u64 FeeRate
  | BuildDrain Script FeeRate
  | SignPsbt Psbt
  | BroadcastTx Transaction
  | BdkSync
  | FetchFeeEstimates
  | ScripthashTxs Script
  | SpawnBroadcast Transaction

text \<open>\<open>fee_tasks\<close> counts the spawned tasks that have still to fetch the fee estimates.\<close>

record oc_state =
  oc_node :: node_state
  oc_chain :: MutinyChain
  oc_calls :: "WalletCall list"
  fee_tasks :: nat

type_synonym ('a, 'e) oc_prog = "(oc_state, 'a, 'e) prog"

type_synonym 'a answer = "WalletCall list \<Rightarrow> (browser, 'a, BdkError) prog"

record oc_env = api_env +
  chain_client :: esplora
  new_address :: "string answer"
  wallet_balance :: "WalletBalance answer"
  unspent :: "LocalUtxo list answer"
  wallet_txs :: "bool \<Rightarrow> TransactionDetails list answer"
  fee_for_target :: "FeeRate answer"
  built_psbt :: "Psbt answer"
  signed_psbt :: "Psbt answer"
  broadcasts :: "unit answer"
  bdk_sync :: "unit answer"
  fetched_fees :: "WalletCall list \<Rightarrow> (string \<times> f64) list option"
  script_txs :: "WalletCall list \<Rightarrow> EsploraTx list option"
  from_sat_per_vb :: "f32 \<Rightarrow> FeeRate option"
  extract_tx :: "Psbt \<Rightarrow> Transaction"
  address_from_str :: "string \<Rightarrow> Address option"
  tx_deserialize :: "bytes \<Rightarrow> Transaction option"
  txid_from_str :: "string \<Rightarrow> Txid option"
  txid_to_string :: "Txid \<Rightarrow> string"
  btc_to_string :: "u64 \<Rightarrow> string"

definition wcall :: "WalletCall \<Rightarrow> (WalletCall list \<Rightarrow> (browser, 'a, 'e) prog) \<Rightarrow> ('a, 'e) oc_prog" where
  "wcall c answer s =
     (let made = oc_calls s @ [c]; (r, b) = answer made (store (oc_node s))
      in (r, s\<lparr>oc_calls := made, oc_node := (oc_node s)\<lparr>store := b\<rparr>\<rparr>))"

definition on_api :: "'a api_prog \<Rightarrow> ('a, MutinyJsError) oc_prog" where
  "on_api m s = (let (r, n) = m (oc_node s) in (r, s\<lparr>oc_node := n\<rparr>))"

definition oc_panics :: "('a, 'e) oc_prog" where
  "oc_panics s = (Panic, s)"

section \<open>The wallet\<close>

text \<open>
  Where the wallet's keys come from: purpose 86, the coin of the network, one path per keychain. The
  keys, the reading of a path and the making of a descriptor are bdk's.
\<close>

datatype ChildNumber = Hardened u32 | Normal u32

record ('k, 'm, 'd) key_env =
  into_xprv :: "'k \<Rightarrow> Network \<Rightarrow> 'm option"
  derivation_path_from_str :: "string \<Rightarrow> ChildNumber list option"
  from_hardened_idx :: "u32 \<Rightarrow> ChildNumber option"
  tr_descriptor :: "'m \<Rightarrow> ChildNumber list \<Rightarrow> 'd option"

fun coin_type :: "Network \<Rightarrow> u32" where
  "coin_type NetBitcoin = 0"
| "coin_type NetTestnet = 1"
| "coin_type NetSignet = 1"
| "coin_type NetRegtest = 1"

text \<open>\<open>None\<close> is the panic of an \<open>unwrap\<close>.\<close>

definition get_tr_descriptors_for_extended_key ::
  "('k, 'm, 'd) key_env \<Rightarrow> 'k \<Rightarrow> Network \<Rightarrow> u32 \<Rightarrow> ('d \<times> 'd) option" where
  "get_tr_descriptors_for_extended_key K xkey network account_number =
     Option.bind (into_xprv K xkey network) (\<lambda>master_xprv.
     Option.bind (derivation_path_from_str K (''m/86'' @ [CHR 0x27])) (\<lambda>base_path.
     Option.bind (from_hardened_idx K (coin_type network)) (\<lambda>coin.
     Option.bind (from_hardened_idx K account_number) (\<lambda>account.
     let derivation_path = base_path @ [coin, account] in
     Option.bind (tr_descriptor K master_xprv (derivation_path @ [Normal 0])) (\<lambda>receive_descriptor_template.
     Option.bind (tr_descriptor K master_xprv (derivation_path @ [Normal 1])) (\<lambda>change_descriptor_template.
     Some (receive_descriptor_template, change_descriptor_template)))))))"

lemma descriptors_of_an_account:
  assumes "into_xprv K xkey network = Some master" "derivation_path_from_str K (''m/86'' @ [CHR 0x27]) = Some [Hardened 86]"
    "\<And>i. from_hardened_idx K i = (if i < 0x80000000 then Some (Hardened i) else None)"
    "\<And>m path. tr_descriptor K m path = Some (f m path)"
  shows "get_tr_descriptors_for_extended_key K xkey network account =
    (if account < 0x80000000
     then let path = [Hardened 86, Hardened (coin_type network), Hardened account]
          in Some (f master (path @ [Normal 0]), f master (path @ [Normal 1]))
     else None)"
  using assms(1,2,4) by (cases network) (simp_all add: get_tr_descriptors_for_extended_key_def assms(3) Let_def)

text \<open>The client of a server and its stop gap.\<close>

datatype EsploraBlockchain = EsploraBlockchain string nat

fun esplora_from_network :: "Network \<Rightarrow> string option \<Rightarrow> EsploraBlockchain" where
  "esplora_from_network network (Some url) = EsploraBlockchain url 5"
| "esplora_from_network network None =
     (let url = (case network of
          NetBitcoin \<Rightarrow> ''https://blockstream.info/api''
        | NetTestnet \<Rightarrow> ''https://blockstream.info/testnet/api''
        | NetSignet \<Rightarrow> ''https://mempool.space/signet/api''
        | NetRegtest \<Rightarrow> ''http://localhost:3003'')
      in EsploraBlockchain url 5)"

text \<open>The spawned task: what it fails on, it panics on.\<close>

definition fee_task :: "'x oc_env_scheme \<Rightarrow> (unit, MutinyError) oc_prog" where
  "fee_task E =
     pbind (pmodify (\<lambda>s. s\<lparr>fee_tasks := fee_tasks s - 1\<rparr>)) (\<lambda>_.
     pbind (wcall FetchFeeEstimates (\<lambda>made b. (of_option (fetched_fees E made), b))) (\<lambda>estimates s.
     let (r, b) = insert_fee_estimates E estimates (store (oc_node s))
     in (unwrap_of r, s\<lparr>oc_node := (oc_node s)\<lparr>store := b\<rparr>\<rparr>)))"

definition wallet_sync :: "'x oc_env_scheme \<Rightarrow> (unit, MutinyError) oc_prog" where
  "wallet_sync E =
     pbind (pmodify (\<lambda>s. s\<lparr>fee_tasks := Suc (fee_tasks s)\<rparr>)) (\<lambda>_.
     pmap_err mutiny_of_bdk (wcall BdkSync (bdk_sync E)))"

definition list_utxos :: "'x oc_env_scheme \<Rightarrow> (LocalUtxo list, MutinyError) oc_prog" where
  "list_utxos E = pmap_err mutiny_of_bdk (wcall ListUnspent (unspent E))"

definition list_transactions :: "'x oc_env_scheme \<Rightarrow> bool \<Rightarrow> (TransactionDetails list, MutinyError) oc_prog" where
  "list_transactions E include_raw = pmap_err mutiny_of_bdk (wcall (ListTransactions include_raw) (wallet_txs E include_raw))"

definition get_transaction :: "'x oc_env_scheme \<Rightarrow> Txid \<Rightarrow> bool \<Rightarrow> (TransactionDetails option, MutinyError) oc_prog" where
  "get_transaction E txid include_raw =
     pbind (list_transactions E include_raw) (\<lambda>txs. preturn (find (\<lambda>tx. td_txid tx = txid) txs))"

text \<open>The given rate, or the client's estimate for the next block.\<close>

definition choose_rate :: "'x oc_env_scheme \<Rightarrow> f32 option \<Rightarrow> (FeeRate, MutinyError) oc_prog" where
  "choose_rate E fee_rate =
     (case fee_rate of
        Some rate \<Rightarrow> (case from_sat_per_vb E rate of Some r \<Rightarrow> preturn r | None \<Rightarrow> oc_panics)
      | None \<Rightarrow> pmap_err mutiny_of_bdk (wcall (EstimateFee 1) (fee_for_target E)))"

text \<open>The bdk wallet is opened for the network of the node manager.\<close>

definition create_signed_psbt ::
  "'x oc_env_scheme \<Rightarrow> Address \<Rightarrow> u64 \<Rightarrow> f32 option \<Rightarrow> (Psbt, MutinyError) oc_prog" where
  "create_signed_psbt E send_to amount fee_rate =
     (if addr_network send_to \<noteq> api_network E then perr IncorrectNetwork
      else
        pbind (choose_rate E fee_rate) (\<lambda>rate.
        pbind (pmap_err mutiny_of_bdk (wcall (BuildTx (addr_script send_to) amount rate) (built_psbt E))) (\<lambda>psbt.
        pmap_err mutiny_of_bdk (wcall (SignPsbt psbt) (signed_psbt E)))))"

text \<open>The wallet's \<open>send\<close>.\<close>

definition wallet_send ::
  "'x oc_env_scheme \<Rightarrow> Address \<Rightarrow> u64 \<Rightarrow> f32 option \<Rightarrow> (Txid, MutinyError) oc_prog" where
  "wallet_send E destination_address amount fee_rate =
     pbind (create_signed_psbt E destination_address amount fee_rate) (\<lambda>psbt.
     let raw_transaction = extract_tx E psbt in
     pbind (pmap_err mutiny_of_bdk (wcall (BroadcastTx raw_transaction) (broadcasts E))) (\<lambda>_.
     preturn (txid_of E raw_transaction)))"

definition create_sweep_psbt :: "'x oc_env_scheme \<Rightarrow> Address \<Rightarrow> f32 option \<Rightarrow> (Psbt, MutinyError) oc_prog" where
  "create_sweep_psbt E destination_address fee_rate =
     (if addr_network destination_address \<noteq> api_network E then perr IncorrectNetwork
      else
        pbind (choose_rate E fee_rate) (\<lambda>rate.
        pbind (pmap_err mutiny_of_bdk (wcall (BuildDrain (addr_script destination_address) rate) (built_psbt E))) (\<lambda>psbt.
        pmap_err mutiny_of_bdk (wcall (SignPsbt psbt) (signed_psbt E)))))"

definition wallet_sweep :: "'x oc_env_scheme \<Rightarrow> Address \<Rightarrow> f32 option \<Rightarrow> (Txid, MutinyError) oc_prog" where
  "wallet_sweep E destination_address fee_rate =
     pbind (create_sweep_psbt E destination_address fee_rate) (\<lambda>psbt.
     let raw_transaction = extract_tx E psbt in
     pbind (pmap_err mutiny_of_bdk (wcall (BroadcastTx raw_transaction) (broadcasts E))) (\<lambda>_.
     preturn (txid_of E raw_transaction)))"

section \<open>The calls of the frontend\<close>

text \<open>The chain object only spawns the broadcast; its failure is logged.\<close>

definition broadcast_transaction :: "'x oc_env_scheme \<Rightarrow> string \<Rightarrow> (unit, MutinyJsError) oc_prog" where
  "broadcast_transaction E str =
     (case from_hex E str of
        None \<Rightarrow> perr (js_of_mutiny WalletOperationFailed)
      | Some tx_bytes \<Rightarrow>
          (case tx_deserialize E tx_bytes of
             None \<Rightarrow> perr (js_of_mutiny WalletOperationFailed)
           | Some tx \<Rightarrow> wcall (SpawnBroadcast tx) (\<lambda>_. preturn ())))"

definition get_new_address :: "'x oc_env_scheme \<Rightarrow> (string, MutinyJsError) oc_prog" where
  "get_new_address E = pmap_err (\<lambda>_. js_of_mutiny WalletOperationFailed) (wcall GetNewAddress (new_address E))"

text \<open>\<open>get_total\<close>; sums of \<open>u64\<close> wrap.\<close>

definition get_total :: "WalletBalance \<Rightarrow> u64" where
  "get_total w = wb_confirmed w + wb_trusted_pending w + wb_untrusted_pending w + wb_immature w"

definition get_wallet_balance :: "'x oc_env_scheme \<Rightarrow> (u64, MutinyJsError) oc_prog" where
  "get_wallet_balance E =
     pbind (pmap_err (\<lambda>_. JsWalletOperationFailed) (wcall GetWalletBalance (wallet_balance E))) (\<lambda>balance.
     preturn (get_total balance))"

record MutinyBip21RawMaterials =
  bip21_address :: string
  bip21_invoice :: string
  bip21_btc_amount :: "string option"
  bip21_description :: "string option"

text \<open>\<open>let Ok(x) = .. else { return Err(..) }\<close>\<close>

definition or_fail :: "('a, 'e) oc_prog \<Rightarrow> ('a, MutinyJsError) oc_prog" where
  "or_fail m = pmap_err (\<lambda>_. js_of_mutiny WalletOperationFailed) m"

definition create_bip21 ::
  "'x oc_env_scheme \<Rightarrow> NodeManager \<Rightarrow> u64 option \<Rightarrow> string option \<Rightarrow> (MutinyBip21RawMaterials, MutinyJsError) oc_prog" where
  "create_bip21 E nm amount description =
     pbind (or_fail (get_new_address E)) (\<lambda>address.
     pbind (or_fail (on_api (api_create_invoice E nm amount (case description of Some d \<Rightarrow> d | None \<Rightarrow> [])))) (\<lambda>invoice.
     case mi_bolt11 invoice of
       None \<Rightarrow> perr (js_of_mutiny WalletOperationFailed)
     | Some b11 \<Rightarrow> preturn \<lparr>bip21_address = address, bip21_invoice = b11,
         bip21_btc_amount = map_option (btc_to_string E) amount, bip21_description = description\<rparr>))"

text \<open>\<open>Address::from_str(..)?\<close> and the check of the network.\<close>

definition own_address :: "'x oc_env_scheme \<Rightarrow> string \<Rightarrow> (Address, MutinyJsError) oc_prog" where
  "own_address E str =
     (case address_from_str E str of
        None \<Rightarrow> perr (js_of_source FromAddress)
      | Some a \<Rightarrow> if addr_network a \<noteq> api_network E then perr JsIncorrectNetwork else preturn a)"

definition send_to_address ::
  "'x oc_env_scheme \<Rightarrow> string \<Rightarrow> u64 \<Rightarrow> f32 option \<Rightarrow> (string, MutinyJsError) oc_prog" where
  "send_to_address E destination_address amount fee_rate =
     pbind (own_address E destination_address) (\<lambda>send_to.
     pbind (pmap_err js_of_mutiny (wallet_send E send_to amount fee_rate)) (\<lambda>txid.
     preturn (txid_to_string E txid)))"

definition sweep_wallet :: "'x oc_env_scheme \<Rightarrow> string \<Rightarrow> f32 option \<Rightarrow> (string, MutinyJsError) oc_prog" where
  "sweep_wallet E destination_address fee_rate =
     pbind (own_address E destination_address) (\<lambda>send_to.
     pbind (pmap_err js_of_mutiny (wallet_sweep E send_to fee_rate)) (\<lambda>txid.
     preturn (txid_to_string E txid)))"

definition address_details :: "Script \<Rightarrow> EsploraTx \<Rightarrow> TransactionDetails" where
  "address_details script tx =
     \<lparr>td_transaction = Some (etx_to_tx tx), td_txid = etx_txid tx,
      td_received = sum_list (map txout_value (filter (\<lambda>v. txout_script v = script) (etx_vout tx))),
      td_sent = 0, td_fee = None, td_confirmation_time = etx_confirmation_time tx\<rparr>"

definition check_address :: "'x oc_env_scheme \<Rightarrow> string \<Rightarrow> (TransactionDetails option, MutinyJsError) oc_prog" where
  "check_address E str =
     pbind (own_address E str) (\<lambda>address.
     let script = addr_script address in
     pbind (wcall (ScripthashTxs script) (\<lambda>made b.
       (case script_txs E made of
          Some txs \<Rightarrow> (Ok txs, b)
        | None \<Rightarrow> (Err (js_of_source (FromEsplora EsploraError)), b)))) (\<lambda>txs.
     preturn (case txs of [] \<Rightarrow> None | tx # _ \<Rightarrow> Some (address_details script tx))))"

text \<open>The order of the list: transaction ids compare by their bytes.\<close>

fun txid_bytes :: "Txid \<Rightarrow> bytes" where
  "txid_bytes (Txid bs) = bs"

definition tx_rank :: "TransactionDetails \<Rightarrow> u64 option \<times> bytes" where
  "tx_rank tx = (map_option bt_timestamp (td_confirmation_time tx), txid_bytes (td_txid tx))"

definition list_onchain :: "'x oc_env_scheme \<Rightarrow> (TransactionDetails list, MutinyJsError) oc_prog" where
  "list_onchain E =
     pbind (pmap_err js_of_mutiny (list_transactions E False)) (\<lambda>txs. preturn (sort_key tx_rank txs))"

definition api_get_transaction :: "'x oc_env_scheme \<Rightarrow> string \<Rightarrow> (TransactionDetails option, MutinyJsError) oc_prog" where
  "api_get_transaction E str =
     (case txid_from_str E str of
        None \<Rightarrow> perr (js_of_source FromHex)
      | Some txid \<Rightarrow> pmap_err js_of_mutiny (get_transaction E txid False))"

definition api_list_utxos :: "'x oc_env_scheme \<Rightarrow> (LocalUtxo list, MutinyJsError) oc_prog" where
  "api_list_utxos E = pmap_err js_of_mutiny (list_utxos E)"

text \<open>The channel manager and the chain monitor of every node are the confirmables.\<close>

definition sync_ldk ::
  "'x oc_env_scheme \<Rightarrow> NodeManager \<Rightarrow> nat \<Rightarrow> oc_state \<Rightarrow> ((unit, MutinyError) result \<times> oc_state) option" where
  "sync_ldk E nm fuel s =
     map_option (\<lambda>(r, c). (r, s\<lparr>oc_chain := c\<rparr>))
       (sync ((chain_client E)\<lparr>confirmables := 2 * length (nodes nm)\<rparr>) fuel (oc_chain s))"

text \<open>\<open>NodeManager::sync\<close>; \<open>None\<close>: the sync of LDK is not over after \<open>fuel\<close> iterations.\<close>

definition nm_sync ::
  "'x oc_env_scheme \<Rightarrow> NodeManager \<Rightarrow> nat \<Rightarrow> oc_state \<Rightarrow> ((unit, MutinyJsError) result \<times> oc_state) option" where
  "nm_sync E nm fuel s =
     (case sync_ldk E nm fuel s of
        None \<Rightarrow> None
      | Some (Ok _, s1) \<Rightarrow> Some (pmap_err js_of_mutiny (wallet_sync E) s1)
      | Some (Err e, s1) \<Rightarrow> Some (Err (js_of_mutiny e), s1)
      | Some (Panic, s1) \<Rightarrow> Some (Panic, s1))"

definition estimate_fee_normal :: "'x oc_env_scheme \<Rightarrow> oc_state \<Rightarrow> u32" where
  "estimate_fee_normal E s = get_est_sat_per_1000_weight E (feerate_floor E) (fee_wu_1000 E) ConfirmationTarget.Normal (store (oc_node s))"

definition estimate_fee_high :: "'x oc_env_scheme \<Rightarrow> oc_state \<Rightarrow> u32" where
  "estimate_fee_high E s = get_est_sat_per_1000_weight E (feerate_floor E) (fee_wu_1000 E) HighPriority (store (oc_node s))"

section \<open>Spending\<close>

lemma pbind_cases:
  assumes "pbind m k s = (r, s')"
  obtains (Ok) v s1 where "m s = (Ok v, s1)" "k v s1 = (r, s')"
  | (Err) e where "m s = (Err e, s')" "r = Err e"
  | (Panic) "m s = (Panic, s')" "r = Panic"
  using assms by (auto simp: pbind_def split: prod.splits result.splits)

lemma wcall_cases:
  assumes "wcall c f s = (r, s')"
  shows "oc_calls s' = oc_calls s @ [c]" "fst (f (oc_calls s @ [c]) (store (oc_node s))) = r"
    "oc_chain s' = oc_chain s" "fee_tasks s' = fee_tasks s"
  using assms by (auto simp: wcall_def Let_def split: prod.splits)

lemma pmap_err_cases:
  assumes "pmap_err f m s = (r, s')"
  obtains r0 where "m s = (r0, s')" "r = map_err f r0"
  using assms by (auto simp: pmap_err_def split: prod.splits)

lemma bdk_call:
  assumes "pmap_err g (wcall c f) u = (r, u')"
  shows "oc_calls u' = oc_calls u @ [c] \<and> (\<forall>v. r = Ok v \<longrightarrow> (\<exists>b. fst (f (oc_calls u @ [c]) b) = Ok v))"
proof -
  obtain q where "wcall c f u = (q, u')" "r = map_err g q" using assms by (rule pmap_err_cases)
  with wcall_cases [OF this(1)] show ?thesis by auto
qed

text \<open>What sending and sweeping share: \<open>build\<close> is what bdk is asked to build.\<close>

definition spend :: "'x oc_env_scheme \<Rightarrow> (FeeRate \<Rightarrow> WalletCall) \<Rightarrow> f32 option \<Rightarrow> (Txid, MutinyError) oc_prog" where
  "spend E build fee_rate =
     pbind (choose_rate E fee_rate) (\<lambda>rate.
     pbind (pmap_err mutiny_of_bdk (wcall (build rate) (built_psbt E))) (\<lambda>psbt.
     pbind (pmap_err mutiny_of_bdk (wcall (SignPsbt psbt) (signed_psbt E))) (\<lambda>signed.
     pbind (pmap_err mutiny_of_bdk (wcall (BroadcastTx (extract_tx E signed)) (broadcasts E))) (\<lambda>_.
     preturn (txid_of E (extract_tx E signed))))))"


lemma wallet_sweep_spends:
  "wallet_sweep E a fee = (if addr_network a \<noteq> api_network E then perr IncorrectNetwork
     else spend E (BuildDrain (addr_script a)) fee)"
  by (rule ext) (simp add: wallet_sweep_def create_sweep_psbt_def spend_def pbind_assoc Let_def, simp add: pbind_def)

text \<open>
  The calls \<open>made\<close> after \<open>before\<close> are the beginning of: estimate when no rate was given, build,
  sign, broadcast, each with what the one before gave; they are all of it when the result is \<open>Ok\<close>.
\<close>

definition spends_by ::
  "'x oc_env_scheme \<Rightarrow> (FeeRate \<Rightarrow> WalletCall) \<Rightarrow> f32 option \<Rightarrow> WalletCall list \<Rightarrow> WalletCall list \<Rightarrow> Txid option \<Rightarrow> bool" where
  "spends_by E build fee before made sent \<longleftrightarrow>
     (\<exists>rate psbt signed.
        (let est = (if fee = None then [EstimateFee 1] else []);
             all = est @ [build rate, SignPsbt psbt, BroadcastTx (extract_tx E signed)]
         in prefix made all \<and>
            (length est < length made \<longrightarrow> (case fee of
               Some f \<Rightarrow> from_sat_per_vb E f = Some rate
             | None \<Rightarrow> \<exists>b. fst (fee_for_target E (before @ est) b) = Ok rate)) \<and>
            (length est + 1 < length made \<longrightarrow> (\<exists>b. fst (built_psbt E (before @ est @ [build rate]) b) = Ok psbt)) \<and>
            (length est + 2 < length made \<longrightarrow> (\<exists>b. fst (signed_psbt E (before @ est @ [build rate, SignPsbt psbt]) b) = Ok signed)) \<and>
            (\<forall>t. sent = Some t \<longrightarrow> made = all \<and> t = txid_of E (extract_tx E signed))))"

lemma spend_spends:
  assumes "spend E build fee s = (r, s')"
  shows "\<exists>made. oc_calls s' = oc_calls s @ made \<and> spends_by E build fee (oc_calls s) made (case r of Ok t \<Rightarrow> Some t | _ \<Rightarrow> None)"
proof -
  let ?est = "if fee = None then [EstimateFee 1] else []"
  have rate: "(\<exists>rate. r0 = Ok rate \<and> oc_calls s1 = oc_calls s @ ?est \<and> (case fee of
               Some f \<Rightarrow> from_sat_per_vb E f = Some rate
             | None \<Rightarrow> \<exists>b. fst (fee_for_target E (oc_calls s @ ?est) b) = Ok rate)) \<or>
      (\<forall>v. r0 \<noteq> Ok v) \<and> oc_calls s1 = oc_calls s @ ?est"
    if "choose_rate E fee s = (r0, s1)" for r0 s1
  proof (cases fee)
    case None
    with that obtain q where q: "wcall (EstimateFee 1) (fee_for_target E) s = (q, s1)" "r0 = map_err mutiny_of_bdk q"
      by (auto simp: choose_rate_def elim: pmap_err_cases)
    with None wcall_cases [OF q(1)] show ?thesis by (cases q) auto
  qed (use that in \<open>auto simp: choose_rate_def oc_panics_def split: option.splits\<close>)
  note call = bdk_call
  show ?thesis
    using assms unfolding spend_def
  proof (cases rule: pbind_cases)
    case (Ok rate s1)
    with rate have r1: "oc_calls s1 = oc_calls s @ ?est" "case fee of
               Some f \<Rightarrow> from_sat_per_vb E f = Some rate
             | None \<Rightarrow> \<exists>b. fst (fee_for_target E (oc_calls s @ ?est) b) = Ok rate"
      by auto
    from Ok(2) show ?thesis
    proof (cases rule: pbind_cases)
      case (Ok psbt s2)
      note r2 = call [OF Ok(1)]
      from Ok(2) show ?thesis
      proof (cases rule: pbind_cases)
        case (Ok signed s3)
        note r3 = call [OF Ok(1)]
        have "oc_calls s' = oc_calls s3 @ [BroadcastTx (extract_tx E signed)] \<and>
            (r = Ok (txid_of E (extract_tx E signed)) \<or> (\<forall>t. r \<noteq> Ok t))"
          using Ok(2) by (cases rule: pbind_cases) (auto dest: call wcall_cases(1))
        with r1 r2 r3 show ?thesis
          by (intro exI [of _ "?est @ [build rate, SignPsbt psbt, BroadcastTx (extract_tx E signed)]"])
            (auto simp: spends_by_def Let_def intro!: exI [of _ rate] exI [of _ psbt] exI [of _ signed] split: result.splits)
      qed (use r1 r2 in \<open>auto dest!: call simp: spends_by_def Let_def intro!: exI [of _ rate] exI [of _ psbt]\<close>)
    qed (use r1 in \<open>auto dest!: call simp: spends_by_def Let_def intro!: exI [of _ rate]\<close>)
  qed (use rate in \<open>auto simp: spends_by_def Let_def\<close>)
qed

section \<open>Properties of the on-chain wallet\<close>

lemma own_address_run [simp]:
  "pbind (own_address E str) k s =
    (case address_from_str E str of
       None \<Rightarrow> (Err JsJsonReadWriteError, s)
     | Some a \<Rightarrow> if addr_network a \<noteq> api_network E then (Err JsIncorrectNetwork, s) else k a s)"
  by (simp add: own_address_def pbind_def split: option.split)

lemma spend_for_frontend:
  assumes "pbind (pmap_err js_of_mutiny (spend E build fee)) (\<lambda>txid. preturn (txid_to_string E txid)) s = (r, s')"
  shows "\<exists>made sent. oc_calls s' = oc_calls s @ made \<and> spends_by E build fee (oc_calls s) made sent \<and>
    (case sent of Some t \<Rightarrow> r = Ok (txid_to_string E t) | None \<Rightarrow> \<forall>txt. r \<noteq> Ok txt)"
proof -
  obtain q u where q: "spend E build fee s = (q, u)" by fastforce
  with assms have "s' = u" "r = (case q of Ok t \<Rightarrow> Ok (txid_to_string E t) | Err e \<Rightarrow> Err (js_of_mutiny e) | Panic \<Rightarrow> Panic)"
    by (cases q; simp add: pbind_def pmap_err_def)+
  with spend_spends [OF q] show ?thesis
    by (cases q) (force intro!: exI [of _ "case q of Ok t \<Rightarrow> Some t | _ \<Rightarrow> None"])+
qed


text \<open>Sweeping does the same with a transaction that drains the wallet to the address.\<close>

theorem sweep_wallet_outcomes:
  assumes "sweep_wallet E dest fee s = (r, s')"
  shows "case address_from_str E dest of
      None \<Rightarrow> r = Err JsJsonReadWriteError \<and> s' = s
    | Some a \<Rightarrow>
        if addr_network a \<noteq> api_network E then r = Err JsIncorrectNetwork \<and> s' = s
        else \<exists>made sent. oc_calls s' = oc_calls s @ made \<and>
          spends_by E (BuildDrain (addr_script a)) fee (oc_calls s) made sent \<and>
          (case sent of Some t \<Rightarrow> r = Ok (txid_to_string E t) | None \<Rightarrow> \<forall>txt. r \<noteq> Ok txt)"
proof (cases "address_from_str E dest")
  case (Some a)
  then show ?thesis
    using assms spend_for_frontend [of E "BuildDrain (addr_script a)" fee s r s']
    by (cases "addr_network a = api_network E") (simp_all add: sweep_wallet_def wallet_sweep_spends)
qed (use assms in \<open>simp add: sweep_wallet_def\<close>)

text \<open>
  C38: on signet the wallet cannot spend. The address parser takes signet addresses for testnet
  ones, as its documentation says; so whatever address is given, sending, sweeping and looking up
  an address fail before anything is asked, most with an \<open>IncorrectNetwork\<close>.
\<close>

theorem signet_wallet_cannot_spend:
  assumes "\<And>str a. address_from_str E str = Some a \<Longrightarrow> addr_network a \<noteq> NetSignet" "api_network E = NetSignet"
    and "refusal = (if address_from_str E dest = None then JsJsonReadWriteError else JsIncorrectNetwork)"
  shows "send_to_address E dest amount fee s = (Err refusal, s) \<and>
    sweep_wallet E dest fee s = (Err refusal, s) \<and> check_address E dest s = (Err refusal, s)"
  using assms(1) [of dest] assms(2)
  by (auto simp: assms(3) send_to_address_def sweep_wallet_def check_address_def split: option.split)

text \<open>
  The list of transactions is the wallet's, each once, with the unconfirmed ones first, then
  by the time of their block, the oldest first, and by id among equals.
\<close>

theorem list_onchain_sorted:
  assumes "list_onchain E s = (Ok txs, s')" "i < j" "j < length txs"
    and "time = (\<lambda>tx. map_option bt_timestamp (td_confirmation_time tx))"
  shows "(\<exists>raw b. wallet_txs E False (oc_calls s @ [ListTransactions False]) (store (oc_node s)) = (Ok raw, b) \<and>
      mset txs = mset raw) \<and>
    (time (txs ! j) = None \<longrightarrow> time (txs ! i) = None) \<and>
    (time (txs ! i) \<noteq> None \<longrightarrow> the (time (txs ! i)) \<le> the (time (txs ! j))) \<and>
    (time (txs ! i) = time (txs ! j) \<longrightarrow> txid_bytes (td_txid (txs ! i)) \<le> txid_bytes (td_txid (txs ! j)))"
proof -
  obtain raw where raw: "wcall (ListTransactions False) (wallet_txs E False) s = (Ok raw, s')" "txs = sort_key tx_rank raw"
    using assms(1) by (auto simp: list_onchain_def list_transactions_def pbind_Ok_iff)
  then have "\<exists>b. wallet_txs E False (oc_calls s @ [ListTransactions False]) (store (oc_node s)) = (Ok raw, b)"
    using wcall_cases(2) [OF raw(1)] by (metis fst_conv surj_pair)
  moreover have "tx_rank (txs ! i) \<le> tx_rank (txs ! j)"
    using sorted_nth_mono [of "map tx_rank txs" i j] assms(2,3) raw(2) by simp
  ultimately show ?thesis
    using raw(2) by (auto simp: tx_rank_def assms(4) less_eq_prod_def less_option_def less_eq_option_def split: option.splits)
qed

text \<open>
  A receive request takes its address first: whatever becomes of the invoice, the address has
  been asked for. It fails with the wallet's general error when either fails, and otherwise holds
  that address and the new invoice, with the amount and the description as given.
\<close>

theorem create_bip21_outcomes:
  assumes "create_bip21 E nm amount description s = (r, s')"
    and "new_address E (oc_calls s @ [GetNewAddress]) (store (oc_node s)) = (ra, b)"
    and "api_create_invoice E nm amount (case description of Some d \<Rightarrow> d | None \<Rightarrow> []) ((oc_node s)\<lparr>store := b\<rparr>) = (ri, n)"
  shows "oc_calls s' = oc_calls s @ [GetNewAddress] \<and>
    (case ra of
       Ok address \<Rightarrow> oc_node s' = n \<and>
         (case ri of
            Ok invo \<Rightarrow> r = Ok \<lparr>bip21_address = address, bip21_invoice = the (mi_bolt11 invo),
              bip21_btc_amount = map_option (btc_to_string E) amount, bip21_description = description\<rparr>
          | Err _ \<Rightarrow> r = Err JsWalletOperationFailed
          | Panic \<Rightarrow> r = Panic)
     | Err _ \<Rightarrow> r = Err JsWalletOperationFailed \<and> oc_node s' = (oc_node s)\<lparr>store := b\<rparr>
     | Panic \<Rightarrow> r = Panic)"
proof -
  have "mi_bolt11 invo \<noteq> None" if "ri = Ok invo" for invo
    using assms(3) that
    by (auto simp: api_create_invoice_def pbind_Ok_iff mutiny_of_invoice_def Let_def split: list.splits prod.splits)
  with assms show ?thesis
    by (auto simp: create_bip21_def or_fail_def get_new_address_def wcall_def on_api_def pbind_def pmap_err_def
        split: result.splits)
qed


text \<open>
  The task a sync starts either caches the fees it fetched, and then the wallet's fee is the
  cached one or the fallback, or ends in a panic, though the sync has succeeded: exactly when
  the client fails, and then the wallet's fee is the one from before, or the storage is full.
\<close>

theorem fees_after_sync:
  assumes "web_ok E" "feerate_floor E \<le> 2000" "nm_sync E nm fuel s = Some (Ok (), s1)" "fee_task E s1 = (r, s2)"
  shows "case fetched_fees E (oc_calls s1 @ [FetchFeeEstimates]) of
      None \<Rightarrow> r = Panic \<and> estimate_fee_normal E s2 = estimate_fee_normal E s1
    | Some est \<Rightarrow>
        (case insert_fee_estimates E est (store (oc_node s1)) of
           (Ok _, b) \<Rightarrow> r = Ok () \<and> estimate_fee_normal E s2 =
             (case map_of est (nat_to_string (num_blocks_from_conf_target ConfirmationTarget.Normal)) of
                Some rate \<Rightarrow> max (ucast (fee_wu_1000 E rate)) (feerate_floor E) | None \<Rightarrow> 2000)
         | (_, b) \<Rightarrow> r = Panic)"
proof (cases "fetched_fees E (oc_calls s1 @ [FetchFeeEstimates])")
  case None
  with assms(4) show ?thesis by (auto simp: fee_task_def wcall_def pbind_def estimate_fee_normal_def)
next
  case (Some est)
  obtain q b where q: "insert_fee_estimates E est (store (oc_node s1)) = (q, b)" by fastforce
  with assms(4) Some have r: "r = unwrap_of q" "store (oc_node s2) = b"
    by (auto simp: fee_task_def wcall_def pbind_def)
  show ?thesis
  proof (cases q)
    case (Ok u)
    with q have "insert_fee_estimates E est (store (oc_node s1)) = (Ok (), b)" by simp
    from fee_estimate_from_cache [OF assms(1) this assms(2)] Some q Ok r show ?thesis
      by (simp add: estimate_fee_normal_def cong: option.case_cong)
  qed (use Some q r in simp_all)
qed

lemma find_by_key: "distinct (map f xs) \<Longrightarrow> x \<in> set xs \<Longrightarrow> find (\<lambda>y. f y = f x) xs = Some x"
  by (induction xs) (auto simp: image_iff)

text \<open>
  C25: with bdk listing the transactions of its database, a transaction the wallet stored is the
  one the frontend gets for its id, without the raw transaction, and it is in the list, which has no id twice.
\<close>

theorem stored_transaction_is_listed:
  assumes "bdk_ok E" "db_inv E strg b0" "set_tx E strg td b0 = (Ok (), store (oc_node s))"
    and "\<forall>tx. td_transaction td = Some tx \<longrightarrow> txid_of E tx = td_txid td"
    and "\<And>raw made b. wallet_txs E raw made b = (iter_txs E strg raw b, b)"
    and "txid_from_str E str = Some (td_txid td)"
  shows "fst (api_get_transaction E str s) = Ok (Some (td\<lparr>td_transaction := None\<rparr>)) \<and>
    (\<exists>txs. fst (list_onchain E s) = Ok txs \<and> distinct (map td_txid txs) \<and> td\<lparr>td_transaction := None\<rparr> \<in> set txs)"
proof -
  let ?b = "store (oc_node s)" and ?td = "td\<lparr>td_transaction := None\<rparr>"
  have inv: "db_inv E strg ?b"
    using keeps_invD [OF keeps_inv_set_tx [OF assms(1)] assms(2), of td] assms(3) by simp
  obtain tds where tds: "iter_txs E strg False ?b = Ok tds" "distinct (map td_txid tds)"
    "\<And>x. x \<in> set tds \<longleftrightarrow> get_tx E strg (td_txid x) False ?b = Ok (Some x)"
    using iter_txs_agrees_with_get_tx [OF assms(1) inv, of ?b "[]" False] by (auto simp: db_run_def)
  have in_tds: "?td \<in> set tds"
    using set_tx_get_tx [OF assms(1,3,4)] tds(3) [of ?td] by simp
  have "find (\<lambda>x. td_txid x = td_txid td) tds = Some ?td"
    using find_by_key [OF tds(2) in_tds] by simp
  then have "fst (api_get_transaction E str s) = Ok (Some ?td)"
    using tds(1) by (simp add: api_get_transaction_def get_transaction_def list_transactions_def assms(5,6) wcall_def pbind_def pmap_err_def)
  moreover have "fst (list_onchain E s) = Ok (sort_key tx_rank tds)"
    using tds(1) by (simp add: list_onchain_def list_transactions_def assms(5) wcall_def pbind_def pmap_err_def)
  moreover have "distinct (map td_txid (sort_key tx_rank tds))"
    using tds(2) by (simp add: distinct_map)
  ultimately show ?thesis using in_tds by auto
qed

section \<open>A concrete wallet\<close>

text \<open>For the witnesses: a wallet that does what it is asked, on a network of choice.\<close>

definition demo_address :: Address where
  "demo_address = \<lparr>addr_network = NetRegtest, addr_script = Script [5]\<rparr>"

definition demo_oc :: "Network \<Rightarrow> oc_env" where
  "demo_oc net = api_env.extend ((demo_api [])\<lparr>api_network := net\<rparr>) (oc_env.fields demo_client
     (\<lambda>_ b. (Ok ''bcrt1'', b)) (\<lambda>_ b. (Err BdkOther, b)) (\<lambda>_ b. (Ok [], b))
     (\<lambda>raw made b. (iter_txs demo_bdk plain raw b, b))
     (\<lambda>_ b. (Ok (FeeRate 1), b)) (\<lambda>_ b. (Ok (Psbt [1]), b)) (\<lambda>_ b. (Ok (Psbt [2]), b)) (\<lambda>_ b. (Ok (), b)) (\<lambda>_ b. (Ok (), b))
     (\<lambda>_. Some [(''6'', 0x4014000000000000)]) (\<lambda>_. Some []) (\<lambda>f. Some (FeeRate f)) (\<lambda>p. case p of Psbt b \<Rightarrow> Transaction b)
     (\<lambda>_. Some demo_address) (\<lambda>_. None) (\<lambda>_. Some (Txid [2, 0])) (\<lambda>t. case t of Txid b \<Rightarrow> ''id'') (\<lambda>_. ''1''))"

lemmas demo_oc_defs = demo_oc_def oc_env.defs demo_api_defs

definition demo_oc_state :: "browser \<Rightarrow> oc_state" where
  "demo_oc_state b = \<lparr>oc_node = demo_state\<lparr>store := b\<rparr>,
     oc_chain = chain_new\<lparr>last_sync_hash := Some demo_tip\<rparr>, oc_calls = [], fee_tasks = 0\<rparr>"

lemma demo_oc_fields [simp]:
  "api_network (demo_oc net) = net" "chain_client (demo_oc net) = demo_client"
  "address_from_str (demo_oc net) = (\<lambda>_. Some demo_address)"
  "new_address (demo_oc net) = (\<lambda>_ b. (Ok ''bcrt1'', b))" "bdk_sync (demo_oc net) = (\<lambda>_ b. (Ok (), b))"
  "wallet_txs (demo_oc net) = (\<lambda>raw made b. (iter_txs demo_bdk plain raw b, b))"
  "fee_for_target (demo_oc net) = (\<lambda>_ b. (Ok (FeeRate 1), b))" "built_psbt (demo_oc net) = (\<lambda>_ b. (Ok (Psbt [1]), b))"
  "signed_psbt (demo_oc net) = (\<lambda>_ b. (Ok (Psbt [2]), b))" "broadcasts (demo_oc net) = (\<lambda>_ b. (Ok (), b))"
  "extract_tx (demo_oc net) (Psbt bs) = Transaction bs" "txid_of (demo_oc net) (Transaction bs) = Txid bs"
  "fetched_fees (demo_oc net) = (\<lambda>_. Some [(''6'', 0x4014000000000000)])"
  "feerate_floor (demo_oc net) = 253" "fee_wu_1000 (demo_oc net) = (\<lambda>_. 1)"
  "txid_from_str (demo_oc net) = (\<lambda>_. Some (Txid [2, 0]))" "txid_to_string (demo_oc net) (Txid bs) = ''id''"
  by (simp_all add: demo_oc_defs)

lemma demo_address_fields [simp]: "addr_network demo_address = NetRegtest" "addr_script demo_address = Script [5]"
  by (simp_all add: demo_address_def)

lemma demo_oc_state_fields [simp]:
  "oc_calls (demo_oc_state b) = []" "store (oc_node (demo_oc_state b)) = b" "fee_tasks (demo_oc_state b) = 0"
  "oc_chain (demo_oc_state b) = chain_new\<lparr>last_sync_hash := Some demo_tip\<rparr>"
  by (simp_all add: demo_oc_state_def)

lemma demo_oc_bdk_ok: "bdk_ok (demo_oc net)"
proof -
  have "bdk_ok (demo_oc net) = bdk_ok demo_bdk"
    unfolding bdk_ok_def web_ok_def crypto_ok_def by (simp add: demo_oc_defs)
  then show ?thesis by (simp add: demo_bdk_ok)
qed


lemma sweep_wallet_outcomes_witness:
  "\<exists>s'. sweep_wallet (demo_oc NetTestnet) ''bcrt1'' (Some 1) (demo_oc_state demo_browser) = (Err JsIncorrectNetwork, s') \<and>
     s' = demo_oc_state demo_browser"
proof -
  obtain r s' where "sweep_wallet (demo_oc NetTestnet) ''bcrt1'' (Some 1) (demo_oc_state demo_browser) = (r, s')" by fastforce
  with sweep_wallet_outcomes [OF this] show ?thesis by (simp add: demo_oc_defs demo_address_def)
qed

lemma signet_wallet_cannot_spend_witness:
  "send_to_address (demo_oc NetSignet) ''tb1'' 7 None (demo_oc_state demo_browser) = (Err JsIncorrectNetwork, demo_oc_state demo_browser)"
proof -
  have "address_from_str (demo_oc NetSignet) str = Some a \<Longrightarrow> addr_network a \<noteq> NetSignet" for str a
    by (auto simp: demo_oc_defs demo_address_def)
  moreover have "api_network (demo_oc NetSignet) = NetSignet" "address_from_str (demo_oc NetSignet) ''tb1'' \<noteq> None"
    by (simp_all add: demo_oc_defs)
  ultimately show ?thesis
    using signet_wallet_cannot_spend [of "demo_oc NetSignet" JsIncorrectNetwork "''tb1''" 7 None "demo_oc_state demo_browser"] by simp
qed

lemma create_bip21_outcomes_witness:
  "\<exists>s'. create_bip21 (demo_oc NetRegtest) demo_manager (Some 5) None (demo_oc_state demo_browser) = (Err JsWalletOperationFailed, s') \<and>
     oc_calls s' = [GetNewAddress]"
proof -
  let ?E = "demo_oc NetRegtest" and ?s = "demo_oc_state demo_browser"
  obtain r s' where run: "create_bip21 ?E demo_manager (Some 5) None ?s = (r, s')" by fastforce
  have a: "new_address ?E (oc_calls ?s @ [GetNewAddress]) (store (oc_node ?s)) = (Ok ''bcrt1'', store (oc_node ?s))"
    by (simp add: demo_oc_defs)
  have i: "api_create_invoice ?E demo_manager (Some 5) (case None of Some d \<Rightarrow> d | None \<Rightarrow> [])
      ((oc_node ?s)\<lparr>store := store (oc_node ?s)\<rparr>) = (Err JsInvoiceCreationFailed, oc_node ?s)"
    by (simp add: api_create_invoice_def demo_manager_def demo_oc_state_def)
  from create_bip21_outcomes [OF run a i] run show ?thesis by (simp add: demo_oc_state_def)
qed

lemma demo_oc_sync:
  "\<exists>s'. nm_sync (demo_oc NetRegtest) demo_manager 1 (demo_oc_state b) = Some (Ok (), s') \<and> store (oc_node s') = b"
  by (simp add: nm_sync_def sync_ldk_def sync_def ChainSync.ask_def sync_iteration_def process_queues_def wallet_sync_def
      wcall_def pmap_err_def demo_client_def chain_new_def Let_def)


lemma fees_after_sync_witness:
  "\<exists>s1 s2. nm_sync (demo_oc NetRegtest) demo_manager 1 (demo_oc_state demo_browser) = Some (Ok (), s1) \<and>
     fee_task (demo_oc NetRegtest) s1 = (Ok (), s2) \<and> estimate_fee_normal (demo_oc NetRegtest) s2 = 253"
proof -
  let ?E = "demo_oc NetRegtest"
  obtain s1 where s1: "nm_sync ?E demo_manager 1 (demo_oc_state demo_browser) = Some (Ok (), s1)"
    using demo_oc_sync by blast
  obtain r s2 where s2: "fee_task ?E s1 = (r, s2)" by fastforce
  have ok: "web_ok ?E" using demo_oc_bdk_ok by (simp add: bdk_ok_def)
  obtain b where "insert_fee_estimates ?E [(''6'', 0x4014000000000000)] (store (oc_node s1)) = (Ok (), b)"
    by (simp add: insert_fee_estimates_def pmap_err_def ls_set_def demo_web_def list_codec_def demo_oc_defs demo_bdk_def)
  moreover have "nat_to_string 6 = ''6''" by code_simp
  ultimately show ?thesis
    using fees_after_sync [OF ok _ s1 s2] s1 s2 by simp
qed

text \<open>The database is that of the smaller instance.\<close>

lemma demo_oc_database:
  "txid_of (demo_oc net) = txid_of demo_bdk" "json_tx (demo_oc net) = json_tx demo_bdk"
  "json_details (demo_oc net) = json_details demo_bdk" "from_hex (demo_oc net) = from_hex demo_bdk" "to_hex (demo_oc net) = to_hex demo_bdk"
  "de_txid (demo_oc net) = de_txid demo_bdk" "show_gloo (demo_oc net) = show_gloo demo_bdk" "show_serde (demo_oc net) = show_serde demo_bdk"
  "kc_byte (demo_oc net) = kc_byte demo_bdk" "ser_script (demo_oc net) = ser_script demo_bdk"
  "ser_outpoint (demo_oc net) = ser_outpoint demo_bdk" "ser_txid (demo_oc net) = ser_txid demo_bdk"
  "json_string (demo_oc net) = json_string demo_bdk" "accepts (demo_oc net) = accepts demo_bdk"
  by (simp_all add: demo_oc_defs)

lemma demo_oc_get: "mbs_get (demo_oc net) c plain key b = mbs_get demo_bdk c plain key b"
  by (simp add: mbs_get_def demo_oc_database ls_get_def)

lemma demo_oc_set: "mbs_set (demo_oc net) c plain key v b = mbs_set demo_bdk c plain key v b"
  by (simp add: mbs_set_def pmap_err_def ls_set_def demo_oc_database split: option.split)

lemma demo_oc_map_key: "as_map_key (demo_oc net) k = as_map_key demo_bdk k"
proof -
  have "as_prefix (demo_oc net) k = as_prefix demo_bdk k"
    by (cases k) (simp_all add: demo_oc_database cong: option.case_cong)
  moreover have "serialize_content (demo_oc net) k = serialize_content demo_bdk k"
  proof (cases k)
    case (MapPath st ch)
    then show ?thesis by (cases ch) simp_all
  next
    case (MapScript x)
    then show ?thesis by (cases x) (simp_all add: demo_oc_database)
  next
    case (MapUtxo x)
    then show ?thesis by (cases x) (simp_all add: demo_oc_database)
  next
    case (MapRawTx x)
    then show ?thesis by (cases x) (simp_all add: demo_oc_database)
  next
    case (MapTransaction x)
    then show ?thesis by (cases x) (simp_all add: demo_oc_database)
  qed simp_all
  ultimately show ?thesis by (simp add: as_map_key_def demo_oc_database)
qed

lemma demo_oc_iter_txs: "iter_txs (demo_oc net) plain raw b = iter_txs demo_bdk plain raw b"
proof -
  have scan: "scan_loop (demo_oc net) c plain p sfx b keys m = scan_loop demo_bdk c plain p sfx b keys m" for c :: "'c codec" and p sfx b keys m
    by (induction keys arbitrary: m) (simp_all add: demo_oc_database demo_oc_get split: result.split)
  have raw_tx: "get_raw_tx (demo_oc net) plain t b = get_raw_tx demo_bdk plain t b" for t b
    by (simp add: get_raw_tx_def db_get_def demo_oc_database demo_oc_get demo_oc_map_key)
  have "iter_txs_entry (demo_oc net) plain raw b = iter_txs_entry demo_bdk plain raw b"
    by (rule ext) (simp add: iter_txs_entry_def demo_oc_database demo_oc_get demo_oc_map_key raw_tx split: prod.split cong: option.case_cong if_cong)
  then show ?thesis
    by (simp add: iter_txs_def mbs_scan_def scan demo_oc_database demo_oc_get demo_oc_map_key)
qed

lemma demo_oc_db_set: "db_set (demo_oc net) c plain k v = db_set demo_bdk c plain k v"
  by (rule ext) (simp add: db_set_def pmap_err_def demo_oc_set demo_oc_database demo_oc_map_key db_error_def)

lemma demo_oc_stores:
  obtains b where "set_tx (demo_oc net) plain demo_details demo_browser = (Ok (), b)"
proof -
  obtain b1 where "db_set demo_bdk (list_codec [demo_tx]) plain (MapRawTx (Some (Txid [2, 0]))) demo_tx demo_browser = (Ok (), b1)"
    using demo_db_set_list [of demo_tx "[demo_tx]"] by auto
  moreover obtain b2 where "db_set demo_bdk (list_codec [demo_details\<lparr>td_transaction := None\<rparr>]) plain
      (MapTransaction (Some (Txid [2, 0]))) (demo_details\<lparr>td_transaction := None\<rparr>) b1 = (Ok (), b2)"
    using demo_db_set_list [of "demo_details\<lparr>td_transaction := None\<rparr>" "[demo_details\<lparr>td_transaction := None\<rparr>]"]
    by auto
  moreover have "td_transaction demo_details = Some demo_tx" "td_txid demo_details = Txid [2, 0]"
    by (simp_all add: demo_details_def)
  ultimately have "set_tx (demo_oc net) plain demo_details demo_browser = (Ok (), b2)"
    by (simp add: set_tx_def set_raw_tx_def pbind_Ok_iff demo_oc_database demo_oc_db_set)
  then show ?thesis by (rule that)
qed

lemma stored_transaction_is_listed_witness:
  "\<exists>b. set_tx (demo_oc NetRegtest) plain demo_details demo_browser = (Ok (), b) \<and>
     fst (api_get_transaction (demo_oc NetRegtest) ''02'' (demo_oc_state b)) = Ok (Some (demo_details\<lparr>td_transaction := None\<rparr>))"
proof -
  let ?E = "demo_oc NetRegtest"
  obtain b where b: "set_tx ?E plain demo_details demo_browser = (Ok (), b)" by (rule demo_oc_stores)
  have inv: "db_inv ?E plain demo_browser"
    by (simp add: db_inv_def space_def demo_browser_def raw_item_def)
  have "\<forall>tx. td_transaction demo_details = Some tx \<longrightarrow> txid_of ?E tx = td_txid demo_details"
    by (simp add: demo_details_def demo_tx_def)
  moreover have "wallet_txs ?E raw made b = (iter_txs ?E plain raw b, b)" for raw made b
    by (simp add: demo_oc_iter_txs)
  ultimately show ?thesis
    using stored_transaction_is_listed [OF demo_oc_bdk_ok inv, of demo_details "demo_oc_state b" "''02''"] b
    by (simp add: demo_details_def)
qed

lemma list_onchain_sorted_witness:
  "\<exists>txs s'. list_onchain ((demo_oc NetRegtest)\<lparr>wallet_txs := \<lambda>_ _ b.
        (Ok [demo_details\<lparr>td_confirmation_time := Some \<lparr>bt_height = 1, bt_timestamp = 2\<rparr>\<rparr>, demo_details], b)\<rparr>)
      (demo_oc_state demo_browser) = (Ok txs, s') \<and> length txs = 2 \<and>
    (map_option bt_timestamp (td_confirmation_time (txs ! 1)) = None \<longrightarrow> td_confirmation_time (txs ! 0) = None)"
proof -
  let ?E = "(demo_oc NetRegtest)\<lparr>wallet_txs := \<lambda>_ _ b.
        (Ok [demo_details\<lparr>td_confirmation_time := Some \<lparr>bt_height = 1, bt_timestamp = 2\<rparr>\<rparr>, demo_details], b)\<rparr>"
  obtain txs s' where l: "list_onchain ?E (demo_oc_state demo_browser) = (Ok txs, s')" "length txs = 2"
    by (simp add: list_onchain_def list_transactions_def wcall_def pbind_def pmap_err_def)
  from list_onchain_sorted [OF l(1), of 0 1] l show ?thesis by simp
qed

end
