(* ===== verification/Relay.thy ===== *)
theory Relay
  imports Sockets Connection
begin

text \<open>
  The proxy between a wallet's websocket and a TCP connection to a Lightning node
  (\<open>handle_socket\<close> of \<open>ln-websocket-proxy/src/main.rs\<close>), and its composition with the wallet's
  descriptor of such a connection. Name resolution, dialling and the two sockets are parameters; a
  turn of the loop is one event, whichever of the two the \<open>select!\<close> took.
\<close>

section \<open>The proxy\<close>

text \<open>What a turn found: a frame, an error or the end of the websocket, bytes, the end or an error of the TCP stream.\<close>

datatype RelayEvent = ClientFrame Message | ClientError | ClientClosed | NodeRead bytes | NodeError

datatype Phase = Relaying | Returned | Panicked

text \<open>\<open>ws_out\<close> and \<open>tcp_out\<close>: what went down the websocket and the TCP stream.\<close>

record relay_state =
  dialed :: "string list"
  ws_out :: "Message list"
  tcp_out :: bytes
  phase :: Phase

text \<open>
  \<open>dials\<close> answers the last of the addresses dialled so far. \<open>tcp_writes\<close>: how many of the bytes
  got through; the caller of \<open>write_all\<close> ignores an error, as that of \<open>send\<close> does.
\<close>

record relay_env =
  resolve :: "string \<Rightarrow> string list option"
  dials :: "string list \<Rightarrow> bool"
  peer_addr_known :: "string \<Rightarrow> bool"
  ws_sends :: "Message list \<Rightarrow> Message \<Rightarrow> bool"
  tcp_writes :: "bytes \<Rightarrow> bytes \<Rightarrow> nat"

definition relay_new :: relay_state where
  "relay_new = \<lparr>dialed = [], ws_out = [], tcp_out = [], phase = Relaying\<rparr>"

definition ws_send :: "'x relay_env_scheme \<Rightarrow> Message \<Rightarrow> relay_state \<Rightarrow> relay_state" where
  "ws_send E m s = (if ws_sends E (ws_out s) m then s\<lparr>ws_out := ws_out s @ [m]\<rparr> else s)"

definition tcp_write :: "'x relay_env_scheme \<Rightarrow> bytes \<Rightarrow> relay_state \<Rightarrow> relay_state" where
  "tcp_write E data s = s\<lparr>tcp_out := tcp_out s @ take (tcp_writes E (tcp_out s) data) data\<rparr>"

text \<open>The first of the addresses that takes the connection.\<close>

fun dial_first :: "'x relay_env_scheme \<Rightarrow> string list \<Rightarrow> relay_state \<Rightarrow> string option \<times> relay_state" where
  "dial_first E [] s = (None, s)"
| "dial_first E (addr # addrs) s =
     (let s1 = s\<lparr>dialed := dialed s @ [addr]\<rparr>
      in if dials E (dialed s1) then (Some addr, s1) else dial_first E addrs s1)"

fun relay_turn :: "'x relay_env_scheme \<Rightarrow> RelayEvent \<Rightarrow> relay_state \<Rightarrow> relay_state" where
  "relay_turn E (ClientFrame (Binary msg)) s = tcp_write E msg s"
| "relay_turn E (ClientFrame _) s = s"
| "relay_turn E ClientError s = s"
| "relay_turn E ClientClosed s = s\<lparr>phase := Returned\<rparr>"
| "relay_turn E (NodeRead bs) s = (if length bs \<noteq> 0 then ws_send E (Binary bs) s else s\<lparr>phase := Returned\<rparr>)"
| "relay_turn E NodeError s = s\<lparr>phase := Returned\<rparr>"

fun relay_loop :: "'x relay_env_scheme \<Rightarrow> RelayEvent list \<Rightarrow> relay_state \<Rightarrow> relay_state" where
  "relay_loop E [] s = s"
| "relay_loop E (e # es) s =
     (let s1 = relay_turn E e s in if phase s1 = Relaying then relay_loop E es s1 else s1)"

definition handle_socket :: "'x relay_env_scheme \<Rightarrow> string \<Rightarrow> string \<Rightarrow> RelayEvent list \<Rightarrow> relay_state" where
  "handle_socket E host port es =
     (let addr_str = format_addr_from_url host port; addrs = resolve E addr_str in
      if addrs = None \<or> the addrs = [] then
        (ws_send E (Text (''Could not resolve addr '' @ addr_str)) relay_new)\<lparr>phase := Returned\<rparr>
      else
        (case dial_first E (the addrs) relay_new of
           (None, s) \<Rightarrow> (ws_send E (Text (''Could not connect to: '' @ addr_str)) s)\<lparr>phase := Returned\<rparr>
         | (Some addr, s) \<Rightarrow>
             if \<not> peer_addr_known E addr then s\<lparr>phase := Panicked\<rparr> else relay_loop E es s))"

section \<open>Dialling\<close>

lemma dial_first_cases:
  assumes "dial_first E addrs s = (r, s')"
  obtains (One) before addr after where "addrs = before @ addr # after" "r = Some addr" "dials E (dialed s @ before @ [addr])"
      "s' = s\<lparr>dialed := dialed s @ before @ [addr]\<rparr>" "\<And>n. n < length before \<Longrightarrow> \<not> dials E (dialed s @ take (Suc n) before)"
  | (None) "r = None" "s' = s\<lparr>dialed := dialed s @ addrs\<rparr>" "\<And>n. n < length addrs \<Longrightarrow> \<not> dials E (dialed s @ take (Suc n) addrs)"
proof -
  have "(\<exists>before addr after. addrs = before @ addr # after \<and> r = Some addr \<and> dials E (dialed s @ before @ [addr]) \<and>
      s' = s\<lparr>dialed := dialed s @ before @ [addr]\<rparr> \<and> (\<forall>n < length before. \<not> dials E (dialed s @ take (Suc n) before))) \<or>
    (r = None \<and> s' = s\<lparr>dialed := dialed s @ addrs\<rparr> \<and> (\<forall>n < length addrs. \<not> dials E (dialed s @ take (Suc n) addrs)))"
    using assms
  proof (induction addrs arbitrary: s)
    case (Cons a as)
    let ?s1 = "s\<lparr>dialed := dialed s @ [a]\<rparr>"
    show ?case
    proof (cases "dials E (dialed s @ [a])")
      case True
      with Cons.prems have "r = Some a \<and> s' = ?s1" by simp
      with True show ?thesis by (intro disjI1 exI [of _ "[]"] exI [of _ a] exI [of _ as]) simp
    next
      case False
      with Cons.prems have "dial_first E as ?s1 = (r, s')" by simp
      from Cons.IH [OF this] show ?thesis
      proof (elim disjE exE conjE, goal_cases)
        case (1 before addr after)
        with False show ?thesis
          by (intro disjI1 exI [of _ "a # before"] exI [of _ addr] exI [of _ after]) (auto simp: less_Suc_eq_0_disj)
      next
        case 2
        with False show ?thesis by (intro disjI2) (auto simp: less_Suc_eq_0_disj)
      qed
    qed
  qed simp
  then show ?thesis using One None by blast
qed

text \<open>
  The proxy dials the addresses the name resolves to in their order, up to the first that
  takes the connection, and only then relays; a name that does not resolve is not dialled, and when
  no address takes the connection all were dialled; in both cases the websocket gets one text with
  the address and is closed.
\<close>

theorem proxy_dials_in_order:
  assumes "s' = handle_socket E host port es" "addr_str = format_addr_from_url host port"
  shows "case resolve E addr_str of
      Some (a # addrs) \<Rightarrow>
        (\<exists>before addr after. a # addrs = before @ addr # after \<and> dials E (before @ [addr]) \<and>
           (\<forall>n < length before. \<not> dials E (take (Suc n) before)) \<and>
           s' = (let s = relay_new\<lparr>dialed := before @ [addr]\<rparr> in
                 if peer_addr_known E addr then relay_loop E es s else s\<lparr>phase := Panicked\<rparr>)) \<or>
        ((\<forall>n < length (a # addrs). \<not> dials E (take (Suc n) (a # addrs))) \<and>
           s' = (ws_send E (Text (''Could not connect to: '' @ addr_str)) (relay_new\<lparr>dialed := a # addrs\<rparr>))\<lparr>phase := Returned\<rparr>)
    | _ \<Rightarrow> s' = (ws_send E (Text (''Could not resolve addr '' @ addr_str)) relay_new)\<lparr>phase := Returned\<rparr>"
proof (cases "resolve E addr_str")
  case (Some addrs)
  show ?thesis
  proof (cases addrs)
    case (Cons a as)
    obtain r s where d: "dial_first E addrs relay_new = (r, s)" by fastforce
    from d show ?thesis
    proof (cases rule: dial_first_cases)
      case (One before addr after)
      show ?thesis
        unfolding Some Cons option.case list.case
        by (rule disjI1, rule exI [of _ before], rule exI [of _ addr], rule exI [of _ after])
          (use One d Some Cons assms in \<open>simp add: handle_socket_def Let_def relay_new_def\<close>)
    next
      case None
      with d Some Cons assms show ?thesis
        by (auto simp: handle_socket_def Let_def relay_new_def intro!: disjI2)
    qed
  qed (use Some assms in \<open>simp add: handle_socket_def\<close>)
qed (use assms in \<open>simp add: handle_socket_def\<close>)

section \<open>Relaying\<close>

fun ends :: "RelayEvent \<Rightarrow> bool" where
  "ends ClientClosed \<longleftrightarrow> True"
| "ends (NodeRead bs) \<longleftrightarrow> bs = []"
| "ends NodeError \<longleftrightarrow> True"
| "ends _ \<longleftrightarrow> False"

fun to_node :: "RelayEvent \<Rightarrow> bytes" where
  "to_node (ClientFrame (Binary msg)) = msg"
| "to_node _ = []"

fun from_node :: "RelayEvent \<Rightarrow> Message list" where
  "from_node (NodeRead bs) = (if bs = [] then [] else [Binary bs])"
| "from_node _ = []"

text \<open>Both sockets take all they are given.\<close>

definition lossless :: "'x relay_env_scheme \<Rightarrow> bool" where
  "lossless E \<longleftrightarrow> (\<forall>log m. ws_sends E log m) \<and> (\<forall>log data. tcp_writes E log data = length data)"

lemma relay_turn_spec:
  "lossless E \<Longrightarrow> phase s = Relaying \<Longrightarrow>
   relay_turn E e s = s\<lparr>tcp_out := tcp_out s @ to_node e, ws_out := ws_out s @ from_node e,
     phase := if ends e then Returned else Relaying\<rparr>"
  by (cases "(E, e, s)" rule: relay_turn.cases) (simp_all add: lossless_def tcp_write_def ws_send_def)

lemma relay_loop_spec:
  assumes "lossless E" "phase s = Relaying"
    and "seen = takeWhile (\<lambda>e. \<not> ends e) es"
  shows "relay_loop E es s = s\<lparr>tcp_out := tcp_out s @ concat (map to_node seen),
     ws_out := ws_out s @ concat (map from_node seen), phase := if \<exists>e \<in> set es. ends e then Returned else Relaying\<rparr>"
  using assms(2) unfolding assms(3)
proof (induction es arbitrary: s)
  case (Cons e es)
  have "ends e \<Longrightarrow> to_node e = [] \<and> from_node e = []" by (cases e) auto
  with Cons relay_turn_spec [OF assms(1) Cons.prems, of e] show ?case by (auto simp: Let_def)
qed simp

text \<open>
  While both sockets take what they are given, whatever the order of the turns, the node gets
  the bytes of the client's binary frames in their order and the client the bytes the node sent, a
  frame per read; other frames and errors of the websocket change nothing. The relaying ends when
  one side ends, with what came before passed on, and not before.
\<close>

theorem bytes_pass_both_ways:
  assumes "lossless E" "phase s = Relaying" "s' = relay_loop E es s"
    and "seen = takeWhile (\<lambda>e. \<not> ends e) es"
  shows "tcp_out s' = tcp_out s @ concat [msg. ClientFrame (Binary msg) \<leftarrow> seen] \<and>
    ws_out s' = ws_out s @ [Binary bs. NodeRead bs \<leftarrow> seen] \<and>
    (phase s' = Relaying \<longleftrightarrow> seen = es)"
proof -
  have "concat (map to_node es) = concat [msg. ClientFrame (Binary msg) \<leftarrow> es]" for es
    by (induction es) (auto split: RelayEvent.split Message.split)
  moreover have "\<forall>e \<in> set es. \<not> ends e \<Longrightarrow> concat (map from_node es) = [Binary bs. NodeRead bs \<leftarrow> es]" for es
    by (induction es) (auto split: RelayEvent.split)
  moreover have "\<forall>e \<in> set seen. \<not> ends e" using assms(4) by (auto dest: set_takeWhileD)
  moreover have "(\<exists>e \<in> set es. ends e) \<longleftrightarrow> seen \<noteq> es"
    unfolding assms(4) by (metis (mono_tags, lifting) set_takeWhileD takeWhile_eq_all_conv)
  ultimately show ?thesis
    using relay_loop_spec [OF assms(1,2,4)] assms(3) by simp
qed

section \<open>The wallet at the other end\<close>



definition reads :: "'x sock_env_scheme \<Rightarrow> tcp_socket \<Rightarrow> Message list \<Rightarrow> multi_socket \<Rightarrow> multi_socket" where
  "reads W t ms w = fold (\<lambda>m w. snd (after_read W (Sockets.Tcp t) (case message_of m of Some f \<Rightarrow> Got f | None \<Rightarrow> ReadFailed) w)) ms w"




text \<open>
  LDK never learns that the node cannot be reached: when the name does not resolve or nothing
  takes the connection, the wallet drops the proxy's text, its reader ends with the websocket, and
  LDK has been told nothing, so it still counts the peer as connected.
\<close>

theorem unreachable_node_is_not_reported:
  assumes "s' = handle_socket E host port es"
    and "resolve E (format_addr_from_url host port) \<in> {None, Some []} \<or> (\<forall>log. \<not> dials E log)"
    and "w1 = reads W t (ws_out s') w" "after_read W (Sockets.Tcp t) r w1 = (goes_on, w2)" "r = Ended \<or> r = ReadFailed"
  shows "phase s' = Returned \<and> (\<forall>m \<in> set (ws_out s'). \<exists>txt. m = Text txt) \<and> \<not> goes_on \<and> w2 = w"
proof -
  have none: "\<exists>x. dial_first E addrs s = (None, x) \<and> ws_out x = ws_out s" if "\<forall>log. \<not> dials E log" for addrs s
    using that
  proof (induction addrs arbitrary: s)
    case (Cons a addrs)
    from Cons.IH [of "s\<lparr>dialed := dialed s @ [a]\<rparr>"] Cons.prems show ?case by (simp add: Let_def)
  qed simp
  have s': "phase s' = Returned \<and> (ws_out s' = [] \<or> (\<exists>txt. ws_out s' = [Text txt]))"
  proof (cases "resolve E (format_addr_from_url host port) \<in> {None, Some []}")
    case True
    then show ?thesis using assms(1) by (auto simp: handle_socket_def Let_def ws_send_def relay_new_def)
  next
    case False
    with assms(2) none [of "the (resolve E (format_addr_from_url host port))" relay_new] obtain x where
      "dial_first E (the (resolve E (format_addr_from_url host port))) relay_new = (None, x)" "ws_out x = []"
      by (auto simp: relay_new_def)
    with assms(1) show ?thesis by (auto simp: handle_socket_def Let_def ws_send_def relay_new_def)
  qed
  moreover from s' have "w1 = w"
    using assms(3) by (auto simp: reads_def)
  ultimately show ?thesis using assms(4,5) by auto
qed

section \<open>A concrete proxy\<close>

text \<open>For the witnesses: a name with two addresses, of which the second takes connections.\<close>

definition demo_relay :: relay_env where
  "demo_relay = \<lparr>resolve = (\<lambda>a. if a = ''h.io:99'' then Some [''1'', ''2''] else None), dials = (\<lambda>log. last log = ''2''),
     peer_addr_known = (\<lambda>_. True), ws_sends = (\<lambda>_ _. True), tcp_writes = (\<lambda>_ d. length d)\<rparr>"

lemma demo_lossless: "lossless demo_relay"
  by (simp add: lossless_def demo_relay_def)

lemma demo_addr: "format_addr_from_url ''h_io'' ''99'' = ''h.io:99''"
  by (simp add: format_addr_from_url_def replace_char_def)

lemma proxy_dials_in_order_witness:
  "dialed (handle_socket demo_relay ''h_io'' ''99'' []) = [''1'', ''2'']"
proof -
  have "resolve demo_relay (format_addr_from_url ''h_io'' ''99'') = Some [''1'', ''2'']" "\<not> dials demo_relay [''1'']"
    "dials demo_relay [''1'', ''2'']" "peer_addr_known demo_relay a" for a
    by (simp_all add: demo_addr demo_relay_def)
  with proxy_dials_in_order [OF refl refl, of demo_relay "''h_io''" "''99''" "[]"] show ?thesis
    by (auto simp: Cons_eq_append_conv Let_def relay_new_def less_Suc_eq)
qed

lemma bytes_pass_both_ways_witness:
  "tcp_out (relay_loop demo_relay [ClientFrame (Binary [1]), NodeRead [7], ClientFrame Ping, ClientFrame (Binary [2]), ClientClosed] relay_new) = [1, 2]"
  using bytes_pass_both_ways [OF demo_lossless _ refl refl,
      of relay_new "[ClientFrame (Binary [1]), NodeRead [7], ClientFrame Ping, ClientFrame (Binary [2]), ClientClosed]"]
  by (simp add: relay_new_def)

definition demo_tcp :: tcp_socket where "demo_tcp = \<lparr>tcp_conn = 1, tcp_id = 0\<rparr>"


lemma unreachable_node_is_not_reported_witness:
  "\<exists>w2. snd (after_read demo_sock (Sockets.Tcp demo_tcp) Ended
      (reads demo_sock demo_tcp (ws_out (handle_socket demo_relay ''no'' ''1'' [])) (multi_new 0 [] 0))) = w2 \<and> told w2 = []"
proof -
  obtain g w2 where run: "after_read demo_sock (Sockets.Tcp demo_tcp) Ended
      (reads demo_sock demo_tcp (ws_out (handle_socket demo_relay ''no'' ''1'' [])) (multi_new 0 [] 0)) = (g, w2)" by fastforce
  have "resolve demo_relay (format_addr_from_url ''no'' ''1'') \<in> {None, Some []} \<or> (\<forall>log. \<not> dials demo_relay log)"
    by (simp add: demo_relay_def format_addr_from_url_def replace_char_def)
  from unreachable_node_is_not_reported [OF refl this refl run] run show ?thesis
    by (simp add: multi_new_def)
qed

end
