(* ===== verification/Server.thy ===== *)
theory Server
  imports Relay
begin

text \<open>
  The proxy as one server (\<open>main\<close>, \<open>ws_handler\<close> and \<open>mutiny_ws_handler\<close> of
  \<open>ln-websocket-proxy/src/main.rs\<close>): where it listens, which of its two ends a websocket is for, and that
  the URLs the wallet makes (\<open>node-manager/src/proxy.rs\<close>) lead there. A request here is one for a
  websocket; the router's decoding of a segment is a parameter.
\<close>

section \<open>Start\<close>

text \<open>\<open>u16::from_str\<close>: decimal digits after an optional plus.\<close>

fun parse_digits :: "string \<Rightarrow> nat \<Rightarrow> nat option" where
  "parse_digits [] n = Some n"
| "parse_digits (c # cs) n =
     (let d = of_char c; n' = 10 * n + (d - 48) in
      if 48 \<le> d \<and> d \<le> 57 \<and> n' < 65536 then parse_digits cs n' else None)"

definition parse_u16 :: "string \<Rightarrow> 16 word option" where
  "parse_u16 s =
     (let digits = (case s of c # cs \<Rightarrow> if c = CHR ''+'' then cs else s | [] \<Rightarrow> s) in
      if digits = [] then None else map_option of_nat (parse_digits digits 0))"

definition listen_port :: "string option \<Rightarrow> (16 word, unit) result" where
  "listen_port ln_proxy_port =
     (case ln_proxy_port of
        None \<Rightarrow> Ok 3001
      | Some p \<Rightarrow> (case parse_u16 p of Some port \<Rightarrow> Ok port | None \<Rightarrow> Panic))"

record server_env = proxy_env +
  decode_segment :: "string \<Rightarrow> string option"
  binds :: "16 word \<Rightarrow> bool"

text \<open>The shared map of \<open>mutiny_ws_handler\<close>, and the TCP relays started, each by host and port.\<close>

record web_server =
  wallets :: server
  relays :: "(string \<times> string) list"

definition server_start :: "'x server_env_scheme \<Rightarrow> string option \<Rightarrow> (web_server, unit) result" where
  "server_start E ln_proxy_port =
     and_then (listen_port ln_proxy_port) (\<lambda>port.
     if binds E port then Ok \<lparr>wallets = proxy_start, relays = []\<rparr> else Panic)"

section \<open>Routes\<close>

datatype Route = WsHandler string string | MutinyWsHandler string | NoRoute

text \<open>
  The literal segment \<open>mutiny\<close> goes before the parameter \<open>:ip\<close>; a parameter is not empty and ends
  at a slash.
\<close>

definition route :: "string \<Rightarrow> Route" where
  "route path =
     (case split_on CHR ''/'' path of
        [root, v1, a, b] \<Rightarrow>
          if root \<noteq> [] \<or> v1 \<noteq> ''v1'' \<or> a = [] \<or> b = [] then NoRoute
          else if a = ''mutiny'' then MutinyWsHandler b else WsHandler a b
      | _ \<Rightarrow> NoRoute)"

definition ws_handler :: "string \<Rightarrow> string \<Rightarrow> web_server \<Rightarrow> web_server" where
  "ws_handler ip port w = w\<lparr>relays := relays w @ [(ip, port)]\<rparr>"

definition mutiny_ws_handler :: "'x server_env_scheme \<Rightarrow> string \<Rightarrow> web_server \<Rightarrow> web_server" where
  "mutiny_ws_handler E identifier w = w\<lparr>wallets := open_ws (proxy_env.truncate E) identifier (wallets w)\<rparr>"

text \<open>A segment that does not decode is answered with an error and no websocket.\<close>

definition upgrade :: "'x server_env_scheme \<Rightarrow> string \<Rightarrow> web_server \<Rightarrow> web_server" where
  "upgrade E path w =
     (case route path of
        NoRoute \<Rightarrow> w
      | MutinyWsHandler i \<Rightarrow>
          (case decode_segment E i of Some identifier \<Rightarrow> mutiny_ws_handler E identifier w | None \<Rightarrow> w)
      | WsHandler i p \<Rightarrow>
          (case (decode_segment E i, decode_segment E p) of
             (Some ip, Some port) \<Rightarrow> ws_handler ip port w
           | _ \<Rightarrow> w))"

section \<open>The wallet's URLs\<close>

text \<open>Characters that stand for themselves in a segment.\<close>

definition plain_segment :: "string \<Rightarrow> bool" where
  "plain_segment s \<longleftrightarrow> s \<noteq> [] \<and> CHR ''/'' \<notin> set s \<and> CHR ''%'' \<notin> set s"

definition decodes_plain :: "'x server_env_scheme \<Rightarrow> bool" where
  "decodes_plain E \<longleftrightarrow> (\<forall>s. plain_segment s \<longrightarrow> decode_segment E s = Some s)"

lemma split_route:
  assumes "CHR ''/'' \<notin> set a" "CHR ''/'' \<notin> set b"
  shows "split_on CHR ''/'' (''/v1/'' @ a @ ''/'' @ b) = [[], ''v1'', a, b]"
proof -
  have "split_on CHR ''/'' (''v1'' @ CHR ''/'' # a @ CHR ''/'' # b) = [''v1'', a, b]"
    using assms by (subst split_on_append) (simp_all add: split_on_append split_on_no_delim)
  then show ?thesis by simp
qed

lemma route_two:
  assumes "plain_segment a" "plain_segment b"
  shows "route (''/v1/'' @ a @ ''/'' @ b) = (if a = ''mutiny'' then MutinyWsHandler b else WsHandler a b)"
  using assms split_route [of a b] by (simp add: route_def plain_segment_def)

lemma plain_replace: "plain_segment host \<Longrightarrow> plain_segment (replace_char CHR ''.'' CHR ''_'' host)"
  by (auto simp: plain_segment_def replace_char_def split: if_splits)

lemma upgrade_wallet:
  assumes "decodes_plain E" "plain_segment pk" "hex_id E pk = Some owner" "owner \<noteq> []"
  shows "upgrade E (''/v1/mutiny/'' @ pk) w = w\<lparr>wallets := (wallets w)
    \<lparr>registered := (registered (wallets w))(owner \<mapsto> next_task (wallets w)),
     tasks := (tasks (wallets w))(next_task (wallets w) := new_task owner),
     next_task := Suc (next_task (wallets w))\<rparr>\<rparr>"
proof -
  have "plain_segment ''mutiny''" by (simp add: plain_segment_def)
  from route_two [OF this assms(2)] have "route (''/v1/mutiny/'' @ pk) = MutinyWsHandler pk" by simp
  with assms show ?thesis
    by (simp add: upgrade_def mutiny_ws_handler_def decodes_plain_def open_ws_def proxy_env.truncate_def)
qed

lemma upgrade_tcp:
  assumes "decodes_plain E" "plain_segment ip" "plain_segment port" "ip \<noteq> ''mutiny''"
  shows "upgrade E (''/v1/'' @ ip @ ''/'' @ port) w = w\<lparr>relays := relays w @ [(ip, port)]\<rparr>"
  using route_two [OF assms(2,3)] assms by (simp add: upgrade_def ws_handler_def decodes_plain_def)

lemma replaced_mutiny: "replace_char CHR ''.'' CHR ''_'' host = ''mutiny'' \<longleftrightarrow> host = ''mutiny''"
proof
  assume m: "replace_char CHR ''.'' CHR ''_'' host = ''mutiny''"
  then have "CHR ''.'' \<notin> set host" by (auto simp: replace_char_def dest: arg_cong [where f = set])
  then have "replace_char CHR ''.'' CHR ''_'' host = host" by (auto simp: replace_char_def intro: map_idI)
  with m show "host = ''mutiny''" by simp
qed (simp add: replace_char_def)

lemma tcp_url_leads_to_relay:
  assumes "decodes_plain E" "plain_segment host" "plain_segment port" "CHR '':'' \<notin> set host" "CHR '':'' \<notin> set port"
  shows "\<exists>path. tcp_proxy_to_url base (host @ '':'' @ port) = Ok (base @ path) \<and>
    upgrade E path w =
      (if host = ''mutiny'' then mutiny_ws_handler E port w
       else w\<lparr>relays := relays w @ [(replace_char CHR ''.'' CHR ''_'' host, port)]\<rparr>)"
proof (intro exI conjI)
  let ?path = "''/v1/'' @ replace_char CHR ''.'' CHR ''_'' host @ ''/'' @ port"
  show "tcp_proxy_to_url base (host @ '':'' @ port) = Ok (base @ ?path)" by (rule tcp_url [OF assms(4,5)])
  have "plain_segment ''mutiny''" by (simp add: plain_segment_def)
  from route_two [OF this assms(3)] have "route (''/v1/mutiny/'' @ port) = MutinyWsHandler port" by simp
  then have "upgrade E (''/v1/mutiny/'' @ port) w = mutiny_ws_handler E port w"
    using assms(1,3) by (simp add: upgrade_def decodes_plain_def)
  moreover have same: "replace_char CHR ''.'' CHR ''_'' ''mutiny'' = ''mutiny''" by (simp add: replace_char_def)
  ultimately show "upgrade E ?path w = (if host = ''mutiny'' then mutiny_ws_handler E port w
      else w\<lparr>relays := relays w @ [(replace_char CHR ''.'' CHR ''_'' host, port)]\<rparr>)"
    using upgrade_tcp [OF assms(1) plain_replace [OF assms(2)] assms(3), of w]
    by (cases "host = ''mutiny''") (simp add: same, simp add: replaced_mutiny)
qed

text \<open>
  C32: the websockets the wallet opens reach the end of the proxy they are meant for. The one all
  wallets share registers the id that is the wallet's own key, as a running task; the websocket to a
  TCP peer starts a relay, which resolves the address of the connection string exactly when its
  host has no underscore; but a host called \<open>mutiny\<close> is taken for a wallet with the port as its id.
\<close>

theorem wallet_urls_reach_their_handlers:
  assumes "decodes_plain E" "plain_segment pk" "hex_id E pk = Some owner" "owner \<noteq> []"
    and "plain_segment host" "plain_segment port" "CHR '':'' \<notin> set host" "CHR '':'' \<notin> set port"
  shows "(\<exists>path t. mutiny_conn_proxy_to_url base pk = base @ path \<and>
      registered (wallets (upgrade E path w)) = (registered (wallets w))(owner \<mapsto> t) \<and>
      running (tasks (wallets (upgrade E path w)) t) \<and>
      owner_id_bytes (tasks (wallets (upgrade E path w)) t) = owner \<and> relays (upgrade E path w) = relays w) \<and>
    (\<exists>path ip. tcp_proxy_to_url base (host @ '':'' @ port) = Ok (base @ path) \<and>
      upgrade E path w =
        (if host = ''mutiny'' then mutiny_ws_handler E port w else w\<lparr>relays := relays w @ [(ip, port)]\<rparr>) \<and>
      (format_addr_from_url ip port = host @ '':'' @ port \<longleftrightarrow> CHR ''_'' \<notin> set host))"
proof
  show "\<exists>path t. mutiny_conn_proxy_to_url base pk = base @ path \<and>
      registered (wallets (upgrade E path w)) = (registered (wallets w))(owner \<mapsto> t) \<and>
      running (tasks (wallets (upgrade E path w)) t) \<and>
      owner_id_bytes (tasks (wallets (upgrade E path w)) t) = owner \<and> relays (upgrade E path w) = relays w"
    by (rule exI [of _ "''/v1/mutiny/'' @ pk"], rule exI [of _ "next_task (wallets w)"])
      (simp only: upgrade_wallet [OF assms(1-4)], simp add: mutiny_conn_proxy_to_url_def new_task_def)
next
  have "format_addr_from_url (replace_char CHR ''.'' CHR ''_'' host) port = host @ '':'' @ port \<longleftrightarrow> CHR ''_'' \<notin> set host"
    by (simp add: format_addr_from_url_def replace_char_same_iff)
  with tcp_url_leads_to_relay [OF assms(1,5-8), of base w]
  show "\<exists>path ip. tcp_proxy_to_url base (host @ '':'' @ port) = Ok (base @ path) \<and>
      upgrade E path w =
        (if host = ''mutiny'' then mutiny_ws_handler E port w else w\<lparr>relays := relays w @ [(ip, port)]\<rparr>) \<and>
      (format_addr_from_url ip port = host @ '':'' @ port \<longleftrightarrow> CHR ''_'' \<notin> set host)"
    by blast
qed

text \<open>The wallets' end only takes steps of \<open>Proxy\<close>, so what holds in its reachable states holds here.\<close>

lemma upgrade_reachable:
  assumes "reachable (proxy_env.truncate E) (wallets w)" "lock (wallets w) = None"
  shows "reachable (proxy_env.truncate E) (wallets (upgrade E path w))"
  using assms reachable.Step [OF assms(1) proxy_step.Open [OF assms(2)]]
  by (auto simp: upgrade_def mutiny_ws_handler_def ws_handler_def split: Route.split option.split)

section \<open>A concrete server\<close>

definition demo_server :: server_env where
  "demo_server = proxy_env.extend demo_proxy (server_env.fields Some (\<lambda>_. True))"

lemma demo_ports:
  "listen_port None = Ok 3001" "listen_port (Some ''+8080'') = Ok 8080" "listen_port (Some ''65536'') = Panic"
  "listen_port (Some ''-1'') = Panic" "listen_port (Some []) = Panic"
  by (simp_all add: listen_port_def parse_u16_def)

lemma wallet_urls_reach_their_handlers_witness:
  "(\<exists>path w t. mutiny_conn_proxy_to_url ''ws://p'' ''a'' = ''ws://p'' @ path \<and>
      server_start demo_server None = Ok w \<and> registered (wallets (upgrade demo_server path w)) id_a = Some t) \<and>
   (\<exists>path w ip. tcp_proxy_to_url ''ws://p'' ''h.io:99'' = Ok (''ws://p'' @ path) \<and>
      server_start demo_server None = Ok w \<and> relays (upgrade demo_server path w) = [(ip, ''99'')] \<and>
      format_addr_from_url ip ''99'' = ''h.io:99'')"
proof -
  let ?w = "\<lparr>wallets = proxy_start, relays = []\<rparr>"
  have start: "server_start demo_server None = Ok ?w"
    by (simp add: server_start_def listen_port_def demo_server_def proxy_env.defs server_env.defs)
  have env: "decodes_plain demo_server" "hex_id demo_server ''a'' = Some id_a"
    by (simp_all add: decodes_plain_def demo_server_def demo_proxy_def proxy_env.defs server_env.defs)
  have seg: "plain_segment ''a''" "plain_segment ''h.io''" "plain_segment ''99''" by (simp_all add: plain_segment_def)
  from wallet_urls_reach_their_handlers [OF env(1) seg(1) env(2) demo_ids(1) seg(2,3), of "''ws://p''" ?w]
  have "(\<exists>path t. mutiny_conn_proxy_to_url ''ws://p'' ''a'' = ''ws://p'' @ path \<and>
      registered (wallets (upgrade demo_server path ?w)) id_a = Some t) \<and>
    (\<exists>path ip. tcp_proxy_to_url ''ws://p'' ''h.io:99'' = Ok (''ws://p'' @ path) \<and>
      relays (upgrade demo_server path ?w) = [(ip, ''99'')] \<and> format_addr_from_url ip ''99'' = ''h.io:99'')"
    by fastforce
  with start show ?thesis by blast
qed

end
