(* ===== verification/Startup.thy ===== *)
theory Startup
  imports ChainSync NodeManager
begin

text \<open>
  A node from its keys to its running tasks: \<open>node-manager/src/keymanager.rs\<close>, the rest of
  \<open>Node::new\<close> (\<open>node.rs\<close>), and the calls of \<open>nodemanager.rs\<close> that create, list and disconnect. Here
  \<open>Node::new\<close> has, beside what \<open>NodeManager\<close> models of it, the key manager it makes, the channel
  monitors it gives back to LDK, the chain they register with and the tasks it starts.
\<close>

section \<open>Keys\<close>

text \<open>What LDK's key manager is made of.\<close>

record PhantomKeysManager =
  km_seed :: bytes
  starting_time_secs :: u64
  starting_time_nanos :: u32
  cross_node_seed :: bytes

text \<open>The libraries of the derivation: an extended key is a \<open>'k\<close>, a child number a \<open>'c\<close>.\<close>

record ('k, 'c) derivation =
  to_seed :: "Mnemonic \<Rightarrow> string \<Rightarrow> bytes"
  xprv_new :: "bytes \<Rightarrow> 'k option"
  child_number :: "u32 \<Rightarrow> bool \<Rightarrow> 'c option"
  derive_child :: "'k \<Rightarrow> 'c \<Rightarrow> 'k option"
  xprv_to_bytes :: "'k \<Rightarrow> bytes"
  node_secret :: "PhantomKeysManager \<Rightarrow> bytes option"
  public_key_of :: "bytes \<Rightarrow> PublicKey"

text \<open>\<open>nanos\<close> since the epoch. \<open>None\<close> is the panic of an \<open>unwrap\<close> or \<open>expect\<close>.\<close>

definition create_keys_manager ::
  "('k, 'c) derivation \<Rightarrow> Mnemonic \<Rightarrow> u32 \<Rightarrow> nat \<Rightarrow> PhantomKeysManager option" where
  "create_keys_manager K m index nanos =
     Option.bind (xprv_new K (to_seed K m [])) (\<lambda>master.
     Option.bind (child_number K 0 True) (\<lambda>zero.
     Option.bind (derive_child K master zero) (\<lambda>shared_key.
     Option.bind (child_number K index True) (\<lambda>child.
     Option.bind (derive_child K shared_key child) (\<lambda>xpriv.
     Some \<lparr>km_seed = xprv_to_bytes K xpriv,
       starting_time_secs = of_nat (nanos div 10 ^ 9),
       starting_time_nanos = of_nat (nanos mod 2 ^ 31),
       cross_node_seed = xprv_to_bytes K shared_key\<rparr>)))))"

definition pubkey_from_keys_manager :: "('k, 'c) derivation \<Rightarrow> PhantomKeysManager \<Rightarrow> PublicKey option" where
  "pubkey_from_keys_manager K km = map_option (public_key_of K) (node_secret K km)"

section \<open>Starting a node\<close>

text \<open>The tasks \<open>Node::new\<close> spawns: they run beside everything else from then on.\<close>

datatype Spawned =
    BackgroundProcessor MutinyNodePersister
  | ProxyReader PublicKey
  | ProxyReconnector PublicKey
  | PeerConnector MutinyNodePersister

text \<open>
  \<open>chain_monitors\<close>: the monitors given to LDK's chain monitors, with the node and the funding
  outpoint. \<open>clock_reads\<close> counts the readings of the clock.
\<close>

record start_state =
  st_net :: net_state
  st_chain :: MutinyChain
  clock_reads :: nat
  chain_monitors :: "(string \<times> bytes \<times> bytes) list"
  spawned :: "Spawned list"

type_synonym 'a start_prog = "(start_state, 'a, MutinyError) prog"

text \<open>
  \<open>outputs_to_watch\<close>: what \<open>load_outputs_to_watch\<close> registers for a monitor, which is the bytes
  \<open>decode_monitor\<close> makes of the stored ones.
\<close>

record start_env = nm_env +
  now_nanos :: "nat \<Rightarrow> nat"
  outputs_to_watch :: "bytes \<Rightarrow> Registration list"
  funding_txo :: "bytes \<Rightarrow> bytes"

definition on_net :: "'a net_prog \<Rightarrow> 'a start_prog" where
  "on_net m s = (let (r, n) = m (st_net s) in (r, s\<lparr>st_net := n\<rparr>))"

definition read_now :: "'x start_env_scheme \<Rightarrow> nat start_prog" where
  "read_now E s = (Ok (now_nanos E (clock_reads s)), s\<lparr>clock_reads := Suc (clock_reads s)\<rparr>)"

definition spawn_local :: "Spawned \<Rightarrow> unit start_prog" where
  "spawn_local t = pmodify (\<lambda>s. s\<lparr>spawned := spawned s @ [t]\<rparr>)"

text \<open>The seconds passed to LDK go through a \<open>u32\<close>; LDK's object itself is left out.\<close>

definition create_peer_manager ::
  "('k, 'c) derivation \<Rightarrow> 'x start_env_scheme \<Rightarrow> PhantomKeysManager \<Rightarrow> (bytes \<times> u32 \<times> bytes) start_prog" where
  "create_peer_manager K E km =
     pbind (read_now E) (\<lambda>nanos.
     pbind (on_net (on_browser (random_bytes E 32))) (\<lambda>ephemeral_bytes.
     pbind (pread (\<lambda>_. of_option (node_secret K km))) (\<lambda>secret.
     preturn (secret, of_nat (nanos div 10 ^ 9), ephemeral_bytes))))"

fun load_monitors ::
  "'x start_env_scheme \<Rightarrow> bytes list \<Rightarrow> (bytes \<times> bytes) list \<Rightarrow> start_state \<Rightarrow> (bytes \<times> bytes) list \<times> start_state" where
  "load_monitors E [] listeners s = (listeners, s)"
| "load_monitors E (m # ms) listeners s =
     load_monitors E ms (listeners @ [(funding_txo E m, m)])
       (s\<lparr>st_chain := fold register (outputs_to_watch E m) (st_chain s)\<rparr>)"

fun watch_channels :: "string \<Rightarrow> (bytes \<times> bytes) list \<Rightarrow> start_state \<Rightarrow> start_state" where
  "watch_channels node [] s = s"
| "watch_channels node ((funding_outpoint, m) # rest) s =
     watch_channels node rest (s\<lparr>chain_monitors := chain_monitors s @ [(node, funding_outpoint, m)]\<rparr>)"

definition restore_monitors ::
  "'x start_env_scheme \<Rightarrow> MutinyNodePersister \<Rightarrow> (bytes, bytes) ReadChannelManager \<Rightarrow> unit start_prog" where
  "restore_monitors E p rcm s =
     (Ok (), if is_restarting rcm
        then (let (listeners, s1) = load_monitors E (channel_monitors rcm) [] s in watch_channels (node_id p) listeners s1)
        else s)"

definition self_connection :: "'x nm_env_scheme \<Rightarrow> PublicKey \<Rightarrow> PubkeyConnectionInfo" where
  "self_connection E pk = \<lparr>pubkey = pk, connection_type = Mutiny (websocket_proxy_addr E),
     original_connection_string = ''mutiny:'' @ pubkey_to_string E pk @ ''@'' @ websocket_proxy_addr E\<rparr>"

text \<open>The scorer, the router and the invoice payer are LDK's objects.\<close>

definition node_start ::
  "('k, 'c) derivation \<Rightarrow> 'x start_env_scheme \<Rightarrow> NodeIndex \<Rightarrow> Mnemonic \<Rightarrow> MutinyBrowserStorage \<Rightarrow> Node start_prog" where
  "node_start K E node_index m strg =
     pbind (read_now E) (\<lambda>nanos.
     pbind (pread (\<lambda>_. of_option (create_keys_manager K m (child_index node_index) nanos))) (\<lambda>keys_manager.
     pbind (pread (\<lambda>_. of_option (pubkey_from_keys_manager K keys_manager))) (\<lambda>pk.
     let p = \<lparr>node_id = node_uuid node_index, storage = strg\<rparr> in
     pbind (on_net (pread (\<lambda>s. map_err (\<lambda>_. ReadError OtherStorageError)
       (read_channel_monitors E (decode_monitor E) p (net_store s))))) (\<lambda>monitors.
     pbind (on_net (pread (\<lambda>s. read_channel_manager E (decode_manager E) (fresh_manager E) p monitors
       (tip_height E (asked s)) (tip_hash E (asked s)) (net_store s)))) (\<lambda>rcm.
     pbind (create_peer_manager K E keys_manager) (\<lambda>_.
     pbind (restore_monitors E p rcm) (\<lambda>_.
     pbind (on_net (pread (\<lambda>s. read_network_graph E (decode_graph E) (fresh_graph E) p (net_store s)))) (\<lambda>_.
     pbind (spawn_local (BackgroundProcessor p)) (\<lambda>_.
     pbind (on_net (ws_proxy_new E (websocket_proxy_addr E) (self_connection E pk))) (\<lambda>_.
     pbind (spawn_local (ProxyReader pk)) (\<lambda>_.
     pbind (spawn_local (ProxyReconnector pk)) (\<lambda>_.
     pbind (spawn_local (PeerConnector p)) (\<lambda>_.
     preturn \<lparr>uuid = node_uuid node_index, node_pubkey = pk, persister = p\<rparr>)))))))))))))"

fun start_all ::
  "('k, 'c) derivation \<Rightarrow> 'x start_env_scheme \<Rightarrow> Mnemonic \<Rightarrow> MutinyBrowserStorage \<Rightarrow> (string \<times> NodeIndex) list \<Rightarrow>
   (string \<times> Node) list \<Rightarrow> (string \<times> Node) list start_prog" where
  "start_all K E m strg [] started = preturn started"
| "start_all K E m strg ((_, node_index) # rest) started =
     pbind (node_start K E node_index m strg) (\<lambda>n.
     start_all K E m strg rest (AList.update (pubkey_to_string E (node_pubkey n)) n started))"

section \<open>What starting does beyond the model of the wallet\<close>

definition drawn :: "nat \<Rightarrow> net_state \<Rightarrow> net_state" where
  "drawn k s = s\<lparr>net_store := (net_store s)\<lparr>draws := draws (net_store s) + k\<rparr>\<rparr>"

lemma drawn_simps [simp]: "asked (drawn k s) = asked s" "raw_item (net_store (drawn k s)) = raw_item (net_store s)"
    "items (net_store (drawn k s)) = items (net_store s)" "drawn 0 s = s" "drawn k (drawn j s) = drawn (j + k) s"
  by (simp_all add: drawn_def add.assoc)

lemma scan_loop_drawn [simp]: "scan_loop W c self p sfx (net_store (drawn k s)) keys m = scan_loop W c self p sfx (net_store s) keys m"
  by (induction keys arbitrary: m) (auto simp: mbs_get_def ls_get_def split: result.split)

lemma reads_drawn [simp]:
  "read_channel_monitors E decode p (net_store (drawn k s)) = read_channel_monitors E decode p (net_store s)"
  "read_value E p key (net_store (drawn k s)) = read_value E p key (net_store s)"
  by (simp_all add: read_channel_monitors_def mbs_scan_def read_value_def mbs_get_def ls_get_def)

lemma managers_drawn [simp]:
  "read_channel_manager E d f p ms h t (net_store (drawn k s)) = read_channel_manager E d f p ms h t (net_store s)"
  "read_network_graph E dg fg p (net_store (drawn k s)) = read_network_graph E dg fg p (net_store s)"
  by (simp_all add: read_channel_manager_def read_network_graph_def read_or_new_def)

lemma ask_drawn: "Connection.ask e f (drawn k s) = (case Connection.ask e f s of (r, s') \<Rightarrow> (r, drawn k s'))"
  by (simp add: Connection.ask_def Let_def drawn_def)

lemma ws_drawn: "ws_proxy_new E u i (drawn k s) = (case ws_proxy_new E u i s of (r, s') \<Rightarrow> (r, drawn k s'))"
  by (auto simp: ws_proxy_new_def pbind_def pread_def preturn_def perr_def ask_drawn
      split: ConnectionType.split result.split prod.split)

lemma node_new_drawn:
  "node_new E idx m strg (drawn k s) = (case node_new E idx m strg s of (r, s') \<Rightarrow> (r, drawn k s'))"
  by (auto simp: node_new_def Let_def of_option_def pbind_def ws_drawn split: option.split result.split prod.split)

lemma on_net_apply [simp]: "on_net q s = (case q (st_net s) of (r, n) \<Rightarrow> (r, s\<lparr>st_net := n\<rparr>))"
  by (simp add: on_net_def)

lemma load_monitors_all: "load_monitors E ms l s =
    (l @ map (\<lambda>m. (funding_txo E m, m)) ms, s\<lparr>st_chain := fold (\<lambda>m. fold register (outputs_to_watch E m)) ms (st_chain s)\<rparr>)"
  by (induction ms arbitrary: l s) auto

lemma watch_channels_all: "watch_channels x l s = s\<lparr>chain_monitors := chain_monitors s @ map (\<lambda>(f, m). (x, f, m)) l\<rparr>"
  by (induction x l s rule: watch_channels.induct) auto

text \<open>What LDK gets back: every monitor, and what each of them watches.\<close>

definition restored :: "'x start_env_scheme \<Rightarrow> string \<Rightarrow> bytes list \<Rightarrow> start_state \<Rightarrow> start_state" where
  "restored E node ms s = s\<lparr>st_chain := fold (\<lambda>m. fold register (outputs_to_watch E m)) ms (st_chain s),
     chain_monitors := chain_monitors s @ map (\<lambda>m. (node, funding_txo E m, m)) ms\<rparr>"

lemma restored_simps [simp]: "st_net (restored E x ms s) = st_net s" "spawned (restored E x ms s) = spawned s"
    "clock_reads (restored E x ms s) = clock_reads s"
  by (simp_all add: restored_def)

lemma restore_monitors_all [simp]:
  "restore_monitors E p rcm s = (Ok (), if is_restarting rcm then restored E (node_id p) (channel_monitors rcm) s else s)"
  by (simp add: restore_monitors_def load_monitors_all watch_channels_all restored_def o_def)

text \<open>The keys of the wallet's model are those the key manager has.\<close>

definition derives :: "('k, 'c) derivation \<Rightarrow> 'x nm_env_scheme \<Rightarrow> bool" where
  "derives K E \<longleftrightarrow> (\<forall>m i t. Option.bind (create_keys_manager K m i t) (pubkey_from_keys_manager K) = node_key E m i)"

lemma peer_manager_runs:
  assumes "node_secret K km = Some x"
  shows "\<exists>v. create_peer_manager K E km s = (Ok v, s\<lparr>clock_reads := Suc (clock_reads s), st_net := drawn 1 (st_net s)\<rparr>)"
  by (simp add: create_peer_manager_def read_now_def pbind_def on_browser_def random_bytes_def assms of_option_def drawn_def)

definition tasks_of :: "Node \<Rightarrow> Spawned list" where
  "tasks_of n = [BackgroundProcessor (persister n), ProxyReader (node_pubkey n), ProxyReconnector (node_pubkey n), PeerConnector (persister n)]"

text \<open>
  How a start ends once the processor runs: \<open>q\<close> is how the opening of the websocket ended.
\<close>

definition after_opening ::
  "'x start_env_scheme \<Rightarrow> Node \<Rightarrow> (bytes, bytes) ReadChannelManager \<Rightarrow> (unit, MutinyError) result \<times> net_state \<Rightarrow>
   start_state \<Rightarrow> (Node, MutinyError) result \<times> start_state" where
  "after_opening E n rcm opened s =
     (let s1 = (if is_restarting rcm then restored E (uuid n) (channel_monitors rcm) s else s)
          \<lparr>clock_reads := Suc (Suc (clock_reads s)), st_net := drawn 1 (snd opened)\<rparr> in
      (and_then (fst opened) (\<lambda>_. Ok n),
       s1\<lparr>spawned := spawned s @ (case fst opened of Ok _ \<Rightarrow> tasks_of n | _ \<Rightarrow> [BackgroundProcessor (persister n)])\<rparr>))"

text \<open>Every way a start can go.\<close>

lemma node_start_cases:
  fixes E :: "'x start_env_scheme" and K :: "('k, 'c) derivation"
  assumes "derives K E" and p: "p = \<lparr>node_id = node_uuid idx, storage = strg\<rparr>" and b: "b = net_store (st_net s)"
  obtains
    (Stops) r k s' where "node_start K E idx m strg s = (r, s')"
      "r \<in> {Panic, Err (ReadError OtherStorageError), Err ChainAccessFailed}" "node_new E idx m strg (st_net s) = (r, st_net s)"
      "st_net s' = drawn k (st_net s)" "spawned s' = spawned s"
  | (Opens) pk ms rcm n where "node_key E m (child_index idx) = Some pk" "n = \<lparr>uuid = node_uuid idx, node_pubkey = pk, persister = p\<rparr>"
      "read_channel_monitors E (decode_monitor E) p b = Ok ms"
      "read_channel_manager E (decode_manager E) (fresh_manager E) p ms (tip_height E (asked (st_net s))) (tip_hash E (asked (st_net s))) b = Ok rcm"
      "node_start K E idx m strg s =
        after_opening E n rcm (ws_proxy_new E (websocket_proxy_addr E) (self_connection E pk) (st_net s)) s"
      "node_new E idx m strg (st_net s) =
        (case ws_proxy_new E (websocket_proxy_addr E) (self_connection E pk) (st_net s) of (q, n1) \<Rightarrow> (and_then q (\<lambda>_. Ok n), n1))"
proof -
  have key: "Option.bind (create_keys_manager K m (child_index idx) (now_nanos E (clock_reads s))) (pubkey_from_keys_manager K) =
      node_key E m (child_index idx)"
    using assms(1) by (simp add: derives_def)
  let ?s = "s\<lparr>clock_reads := Suc (clock_reads s)\<rparr>"
  show thesis
  proof (cases "node_key E m (child_index idx)")
    case None
    show thesis
      by (rule Stops [of Panic ?s 0])
        (use None key in \<open>auto simp: node_start_def node_new_def read_now_def pbind_def of_option_def split: option.split\<close>)
  next
    case (Some pk)
    with key obtain km x where km: "create_keys_manager K m (child_index idx) (now_nanos E (clock_reads s)) = Some km"
      "node_secret K km = Some x" "pubkey_from_keys_manager K km = Some pk"
      by (auto simp: pubkey_from_keys_manager_def split: bind_splits)
    have id: "node_id p = node_uuid idx" by (simp add: p)
    note run = node_start_def node_new_def read_now_def pbind_simps of_option_def km Some p [symmetric] b [symmetric] Let_def
    show thesis
    proof (cases "read_channel_monitors E (decode_monitor E) p b")
      case ms: (Ok ms)
      let ?rcm = "read_channel_manager E (decode_manager E) (fresh_manager E) p ms (tip_height E (asked (st_net s)))
          (tip_hash E (asked (st_net s))) b"
      show thesis
      proof (cases ?rcm)
        case (Err e)
        then have "e \<in> {ReadError OtherStorageError, ChainAccessFailed}"
          by (auto simp: read_channel_manager_def split: result.splits option.splits)
        then show thesis by (intro Stops [of "Err e" ?s 0]) (use ms Err in \<open>auto simp: run\<close>)
      next
        case rcm: (Ok rcm)
        obtain v where peer: "create_peer_manager K E km ?s = (Ok v, ?s\<lparr>clock_reads := Suc (clock_reads ?s), st_net := drawn 1 (st_net ?s)\<rparr>)"
          using peer_manager_runs [OF km(2)] by blast
        have graph: "read_network_graph E (decode_graph E) (fresh_graph E) p b \<noteq> Err e" for e
          by (auto simp: read_network_graph_def read_or_new_def split: result.split option.split)
        obtain q n1 where q: "ws_proxy_new E (websocket_proxy_addr E) (self_connection E pk) (st_net s) = (q, n1)" by fastforce
        show thesis
        proof (cases "read_network_graph E (decode_graph E) (fresh_graph E) p b")
          case (Ok g)
          let ?n = "\<lparr>uuid = node_uuid idx, node_pubkey = pk, persister = p\<rparr>"
          show thesis
          proof (rule Opens [OF Some refl ms rcm])
            show "node_start K E idx m strg s = after_opening E ?n rcm (ws_proxy_new E (websocket_proxy_addr E) (self_connection E pk) (st_net s)) s"
              using ms rcm peer Ok q
              by (cases q) (simp_all add: run ws_drawn after_opening_def spawn_local_def tasks_of_def restored_def id)
            show "node_new E idx m strg (st_net s) =
              (case ws_proxy_new E (websocket_proxy_addr E) (self_connection E pk) (st_net s) of (q, n1) \<Rightarrow> (and_then q (\<lambda>_. Ok ?n), n1))"
              using ms rcm Ok q by (cases q) (simp_all add: run self_connection_def)
          qed
        next
          case Panic
          let ?u = "?s\<lparr>clock_reads := Suc (clock_reads ?s), st_net := drawn 1 (st_net ?s)\<rparr>"
          show thesis
            by (rule Stops [of Panic "if is_restarting rcm then restored E (node_id p) (channel_monitors rcm) ?u else ?u" 1])
              (use ms rcm peer Panic in \<open>simp_all add: run\<close>)
        qed (simp add: graph)
      qed (rule Stops [of _ ?s 0]; use ms in \<open>simp add: run\<close>)+
    qed (rule Stops [of _ ?s 0]; simp add: run)+
  qed
qed

lemma node_start_new:
  assumes "derives K E"
  shows "\<exists>k s'. node_start K E idx m strg s = (fst (node_new E idx m strg (st_net s)), s') \<and>
    st_net s' = drawn k (snd (node_new E idx m strg (st_net s)))"
proof (rule node_start_cases [OF assms refl refl, of idx m strg s], goal_cases)
  case (2 pk ms rcm n)
  then show ?thesis
    by (auto simp: after_opening_def Let_def split: prod.split intro: exI [of _ 1])
qed auto

lemma start_nodes_drawn:
  "start_nodes E m strg xs started (drawn k s) = (case start_nodes E m strg xs started s of (r, s') \<Rightarrow> (r, drawn k s'))"
  by (induction xs arbitrary: started s k) (auto simp: pbind_def node_new_drawn split: prod.split result.split)

lemma start_all_new:
  assumes "derives K E" "start_nodes E m strg xs started (st_net s) = (r, n)"
  shows "\<exists>k s'. start_all K E m strg xs started s = (r, s') \<and> st_net s' = drawn k n"
  using assms(2)
proof (induction xs arbitrary: started s n)
  case (Cons x xs)
  obtain key idx where x: "x = (key, idx)" by fastforce
  obtain q n1 where new: "node_new E idx m strg (st_net s) = (q, n1)" by fastforce
  obtain k s1 where one: "node_start K E idx m strg s = (q, s1)" "st_net s1 = drawn k n1"
    using node_start_new [OF assms(1), of idx m strg s] by (auto simp: new)
  show ?case
  proof (cases q)
    case (Ok node)
    let ?started = "AList.update (pubkey_to_string E (node_pubkey node)) node started"
    have "start_nodes E m strg xs ?started (st_net s1) = (r, drawn k n)"
      using Cons.prems by (simp add: x pbind_def new Ok one(2) start_nodes_drawn split: prod.split)
    from Cons.IH [OF this] one Ok show ?thesis by (auto simp: x pbind_def)
  qed (use Cons.prems one in \<open>auto simp: x pbind_def new\<close>)
qed (auto intro: exI [of _ 0])


lemma start_all_tasks:
  assumes "derives K E" "start_all K E m strg xs started s = (Ok l, s')"
  shows "spawned s' = spawned s @ concat (map (\<lambda>(_, i). tasks_of (node_of E m strg i)) xs)"
  using assms(2)
proof (induction xs arbitrary: started s)
  case (Cons x xs)
  obtain key idx where x: "x = (key, idx)" by fastforce
  with Cons.prems obtain n s1 where one: "node_start K E idx m strg s = (Ok n, s1)"
    and rest: "start_all K E m strg xs (AList.update (pubkey_to_string E (node_pubkey n)) n started) s1 = (Ok l, s')"
    by (auto elim!: pbind_OkE)
  have "spawned s1 = spawned s @ tasks_of (node_of E m strg idx)"
  proof (rule node_start_cases [OF assms(1) refl refl, of idx m strg s], goal_cases)
    case (2 pk ms rcm n')
    with one show ?thesis
      by (auto simp: after_opening_def Let_def node_of_def split: result.splits)
  qed (use one in auto)
  with Cons.IH [OF rest] show ?case by (simp add: x)
qed (simp add: preturn_def)

lemma one_processor:
  assumes "distinct (map (node_uuid \<circ> snd) xs)" "(k, i) \<in> set xs"
  shows "count_list (concat (map (\<lambda>(_, i). tasks_of (node_of E m strg i)) xs)) (BackgroundProcessor (persister (node_of E m strg i))) = 1"
  using assms
proof (induction xs)
  case (Cons x xs)
  have other: "count_list (concat (map (\<lambda>(_, i). tasks_of (node_of E m strg i)) ys)) (BackgroundProcessor (persister (node_of E m strg i))) = 0"
    if "node_uuid i \<notin> set (map (node_uuid \<circ> snd) ys)" for ys
    using that by (induction ys) (auto simp: tasks_of_def node_of_def)
  show ?case
  proof (cases "x = (k, i)")
    case True
    with Cons.prems other [of xs] show ?thesis by (simp add: tasks_of_def)
  next
    case False
    obtain k' i' where x: "x = (k', i')" by fastforce
    with Cons.prems False have "node_uuid i' \<noteq> node_uuid i" "(k, i) \<in> set xs" by (auto simp: image_iff)
    with Cons x show ?thesis by (simp add: tasks_of_def node_of_def)
  qed
qed simp

text \<open>
  Opening the wallet starts for each stored node its four tasks, once and in the order of
  the nodes: with different ids, no two background processors work on the same node.
\<close>

theorem opening_starts_each_node_once:
  assumes "derives K E" "start_all K E m strg xs started s = (Ok l, s')"
  shows "spawned s' = spawned s @ concat (map (\<lambda>(_, i). tasks_of (node_of E m strg i)) xs) \<and>
    (distinct (map (node_uuid \<circ> snd) xs) \<and> spawned s = [] \<longrightarrow>
      (\<forall>(_, i) \<in> set xs. count_list (spawned s') (BackgroundProcessor (persister (node_of E m strg i))) = 1))"
  using start_all_tasks [OF assms] one_processor by auto

section \<open>A start that fails\<close>

lemma node_start_no_connection:
  assumes "derives K E" "node_start K E idx m strg s = (Err ConnectionFailed, s')"
  shows "spawned s' = spawned s @ [BackgroundProcessor (persister (node_of E m strg idx))]"
proof (rule node_start_cases [OF assms(1) refl refl, of idx m strg s], goal_cases)
  case (2 pk ms rcm n)
  with assms(2) show ?thesis
    by (auto simp: after_opening_def Let_def node_of_def split: result.splits)
qed (use assms(2) in auto)

lemma start_all_no_connection:
  assumes "derives K E" "start_all K E m strg xs started s = (Err ConnectionFailed, s')"
  shows "\<exists>(k, i) \<in> set xs. BackgroundProcessor (persister (node_of E m strg i)) \<in> set (spawned s')"
  using assms(2)
proof (induction xs arbitrary: started s)
  case (Cons x xs)
  obtain key idx where x: "x = (key, idx)" by fastforce
  show ?case
  proof (cases "node_start K E idx m strg s")
    case (Pair q s1)
    show ?thesis
    proof (cases q)
      case (Ok n)
      with Pair Cons.prems x have "start_all K E m strg xs (AList.update (pubkey_to_string E (node_pubkey n)) n started) s1 = (Err ConnectionFailed, s')"
        by (simp add: pbind_def)
      from Cons.IH [OF this] show ?thesis by auto
    next
      case (Err e)
      with Pair Cons.prems x have "node_start K E idx m strg s = (Err ConnectionFailed, s')" by (simp add: pbind_def)
      from node_start_no_connection [OF assms(1) this] show ?thesis by (auto simp: x)
    qed (use Pair Cons.prems x in \<open>simp add: pbind_def\<close>)
  qed
qed simp

lemma count_list_pos: "x \<in> set xs \<Longrightarrow> 1 \<le> count_list xs x"
  by (induction xs) auto

text \<open>
  C36: when the websocket to the proxy cannot be opened, the opening of the wallet fails, but the
  background processor of the node at which it failed is already running and goes on: opening the
  wallet again in the same page gives a node that two processors work on, both storing its channel
  manager under the same key.
\<close>

theorem retried_opening_doubles_a_processor:
  assumes "derives K E" "start_all K E m strg xs started s1 = (Err ConnectionFailed, s2)"
    and "spawned s3 = spawned s2" "start_all K E m strg xs started s3 = (Ok l, s4)"
  shows "\<exists>(k, i) \<in> set xs. 2 \<le> count_list (spawned s4) (BackgroundProcessor (persister (node_of E m strg i)))"
proof -
  obtain k i where i: "(k, i) \<in> set xs" "BackgroundProcessor (persister (node_of E m strg i)) \<in> set (spawned s2)"
    using start_all_no_connection [OF assms(1,2)] by blast
  let ?t = "BackgroundProcessor (persister (node_of E m strg i))"
  have "?t \<in> set (concat (map (\<lambda>(_, i). tasks_of (node_of E m strg i)) xs))"
    using i(1) by (force simp: tasks_of_def)
  from count_list_pos [OF this] count_list_pos [OF i(2)] have "2 \<le> count_list (spawned s4) ?t"
    by (simp add: start_all_tasks [OF assms(1,4)] assms(3))
  with i(1) show ?thesis by blast
qed

section \<open>Channels after a restart\<close>

fun tracked :: "Registration \<Rightarrow> MutinyChain \<Rightarrow> bool" where
  "tracked (RegisterTx t) s = (t \<in> tracked_txs s)"
| "tracked (RegisterOutput w) s = (w \<in> tracked_outputs s)"

lemma tracked_register: "tracked r (register r s)" "tracked r s \<Longrightarrow> tracked r (register r' s)"
  by (cases r; auto simp: tracked_txs_def tracked_outputs_def register_tx_def register_output_def)
    (cases r; cases r'; auto simp: tracked_txs_def tracked_outputs_def register_tx_def register_output_def)

lemma tracked_fold: "r \<in> set rs \<or> tracked r s \<Longrightarrow> tracked r (fold register rs s)"
  by (induction rs arbitrary: s) (auto simp: tracked_register)

lemma tracked_monitors:
  "(\<exists>x \<in> set ms. r \<in> set (f x)) \<or> tracked r s \<Longrightarrow> tracked r (fold (\<lambda>x. fold register (f x)) ms s)"
  by (induction ms arbitrary: s) (auto simp: tracked_fold)

lemma collect_results_elems: "collect_results f xs = Ok ys \<Longrightarrow> x \<in> set xs \<Longrightarrow> \<exists>y \<in> set ys. f x = Ok y"
  by (induction xs arbitrary: ys) (auto simp: and_then_Ok_iff)

lemma monitors_read:
  assumes "read_channel_monitors E decode p b = Ok ms"
    and "mbs_get E (json_bytes E) (storage p) (get_key p (MONITORS_PREFIX_KEY @ name)) b = Ok enc" "decode enc = Some mon"
  shows "mon \<in> set ms"
proof -
  let ?k = "get_key p (MONITORS_PREFIX_KEY @ name)"
  have "raw_item b ?k \<noteq> None" using mbs.get_absent [of b ?k E "json_bytes E" "storage p"] assms(2) by auto
  moreover have "scan_matches MONITORS_PREFIX_KEY (Some (node_id p)) ?k"
    using starts_with_append [of MONITORS_PREFIX_KEY "name @ ''_'' @ node_id p"]
      ends_with_append [of "MONITORS_PREFIX_KEY @ name @ ''_''" "node_id p"]
    by (simp add: scan_matches_def get_key_def)
  moreover obtain l where l: "mbs_scan E (json_bytes E) (storage p) MONITORS_PREFIX_KEY (Some (node_id p)) b = Some l"
    "collect_results (\<lambda>(_, data). case decode data of Some m \<Rightarrow> Ok m | None \<Rightarrow> Err IoError) l = Ok ms"
    using assms(1) by (auto simp: read_channel_monitors_def of_option_def and_then_Ok_iff split: option.splits)
  moreover have "case mbs_scan E (json_bytes E) (storage p) MONITORS_PREFIX_KEY (Some (node_id p)) b of
     Some m \<Rightarrow> \<forall>k v. map_of m k = Some v \<longleftrightarrow> raw_item b k \<noteq> None \<and> scan_matches MONITORS_PREFIX_KEY (Some (node_id p)) k \<and>
       mbs_get E (json_bytes E) (storage p) k b = Ok v
   | None \<Rightarrow> \<exists>k. raw_item b k \<noteq> None \<and> scan_matches MONITORS_PREFIX_KEY (Some (node_id p)) k \<and>
       (\<forall>v. mbs_get E (json_bytes E) (storage p) k b \<noteq> Ok v)"
    by (rule mbs_scan_spec)
  ultimately have "map_of l ?k = Some enc" using assms(2) by simp
  from collect_results_elems [OF l(2) map_of_SomeD [OF this]] assms(3) show ?thesis by auto
qed

text \<open>
  C27: a node that starts from its stored channel manager gives LDK back every channel monitor
  that is stored for it, under its funding outpoint, and everything such a monitor watches is
  registered with the chain. A node whose channel manager cannot be read starts without one, and
  then no stored monitor is watched.
\<close>

theorem restart_watches_the_channels:
  assumes "derives K E" "node_start K E idx m strg s = (Ok n, s')" "b = net_store (st_net s)"
  shows "case read_value E (persister n) CHANNEL_MANAGER_KEY b of
      Ok _ \<Rightarrow> \<exists>ms. chain_monitors s' = chain_monitors s @ map (\<lambda>mon. (uuid n, funding_txo E mon, mon)) ms \<and>
        (\<forall>name enc mon. mbs_get E (json_bytes E) strg (get_key (persister n) (MONITORS_PREFIX_KEY @ name)) b = Ok enc \<and>
           decode_monitor E enc = Some mon \<longrightarrow> mon \<in> set ms) \<and>
        (\<forall>mon \<in> set ms. \<forall>r \<in> set (outputs_to_watch E mon). tracked r (st_chain s'))
    | _ \<Rightarrow> chain_monitors s' = chain_monitors s \<and> st_chain s' = st_chain s"
proof (rule node_start_cases [OF assms(1) refl assms(3), of idx m strg], goal_cases)
  case (2 pk ms rcm n')
  let ?p = "\<lparr>node_id = node_uuid idx, storage = strg\<rparr>"
  let ?s = "if is_restarting rcm then restored E (uuid n) (channel_monitors rcm) s else s"
  have n: "n = n'" "chain_monitors s' = chain_monitors ?s" "st_chain s' = st_chain ?s"
    using 2(5) assms(2) by (auto simp: after_opening_def Let_def split: result.splits)
  have p: "persister n = ?p" "uuid n = node_uuid idx" using 2(2) n(1) by simp_all
  show ?case
  proof (cases "read_value E ?p CHANNEL_MANAGER_KEY b")
    case (Ok kv)
    with 2(4) have rcm: "is_restarting rcm" "channel_monitors rcm = ms"
      by (auto simp: read_channel_manager_def split: option.splits)
    have "mon \<in> set ms" if "mbs_get E (json_bytes E) strg (get_key ?p (MONITORS_PREFIX_KEY @ name)) b = Ok enc"
      "decode_monitor E enc = Some mon" for name enc mon
      using monitors_read [OF 2(3), of name enc mon] that by simp
    moreover have "tracked r (st_chain s')" if "mon \<in> set ms" "r \<in> set (outputs_to_watch E mon)" for mon r
      using that rcm tracked_monitors [of ms r "outputs_to_watch E" "st_chain s"]
      by (auto simp: n(3) restored_def)
    moreover have "chain_monitors s' = chain_monitors s @ map (\<lambda>mon. (uuid n, funding_txo E mon, mon)) ms"
      by (simp add: n(2) rcm restored_def)
    ultimately show ?thesis using Ok p(1) by auto
  next
    case (Err e)
    with 2(4) have "\<not> is_restarting rcm"
      by (auto simp: read_channel_manager_def split: option.splits)
    with Err p n show ?thesis by simp
  next
    case Panic
    with 2(4) show ?thesis by (simp add: read_channel_manager_def)
  qed
qed (use assms(2) in auto)

section \<open>Keys of the nodes\<close>

text \<open>
  BIP32's hardened child numbers are below \<open>2 ^ 31\<close>, and LDK derives a node's secret from the seed
  of its key manager alone; deriving a child fails with negligible probability, which is left out.
\<close>

definition bip32_ok :: "('k, 'c) derivation \<Rightarrow> bool" where
  "bip32_ok K \<longleftrightarrow> (\<forall>i. child_number K i True \<noteq> None \<longleftrightarrow> i < 0x80000000) \<and>
     (\<forall>i j c. child_number K i True = Some c \<and> child_number K j True = Some c \<longrightarrow> i = j) \<and>
     (\<forall>m. xprv_new K (to_seed K m []) \<noteq> None) \<and> (\<forall>x c. derive_child K x c \<noteq> None) \<and>
     (\<forall>km km'. km_seed km = km_seed km' \<longrightarrow> node_secret K km = node_secret K km') \<and>
     (\<forall>km. node_secret K km \<noteq> None)"

lemma bip32_okD:
  assumes "bip32_ok K"
  shows "child_number K i True \<noteq> None \<longleftrightarrow> i < 0x80000000"
    "child_number K i True = Some c \<Longrightarrow> child_number K j True = Some c \<Longrightarrow> i = j"
    "\<exists>x. xprv_new K (to_seed K m []) = Some x" "\<exists>y. derive_child K x c = Some y"
    "km_seed km = km_seed km' \<Longrightarrow> node_secret K km = node_secret K km'"
  using assms unfolding bip32_ok_def by blast+

text \<open>
  The key of a node depends on the seed and the index of the node alone, not on the time it
  is started at. All nodes of a wallet share the secret for phantom payments. An index beyond the
  hardened range panics. When children of a key differ, so do the seeds of different nodes.
\<close>

theorem nodes_share_the_phantom_key:
  assumes "bip32_ok K"
  shows "(create_keys_manager K m i t = None \<longleftrightarrow> \<not> i < 0x80000000) \<and>
    Option.bind (create_keys_manager K m i t) (pubkey_from_keys_manager K) =
      Option.bind (create_keys_manager K m i t') (pubkey_from_keys_manager K) \<and>
    (\<forall>a b. create_keys_manager K m i t = Some a \<and> create_keys_manager K m j t' = Some b \<longrightarrow>
       cross_node_seed a = cross_node_seed b \<and>
       ((\<forall>x c d. map_option (xprv_to_bytes K) (derive_child K x c) = map_option (xprv_to_bytes K) (derive_child K x d) \<longrightarrow> c = d) \<and>
        i \<noteq> j \<longrightarrow> km_seed a \<noteq> km_seed b))"
proof -
  note ok = bip32_okD [OF assms]
  obtain master where m: "xprv_new K (to_seed K m []) = Some master" using ok(3) by blast
  have "child_number K 0 True \<noteq> None" using ok(1) [of 0] by simp
  then obtain zero where z: "child_number K 0 True = Some zero" by blast
  obtain shared where sh: "derive_child K master zero = Some shared" using ok(4) by blast
  have keys: "create_keys_manager K m k u = (case child_number K k True of None \<Rightarrow> None | Some c \<Rightarrow>
      Some \<lparr>km_seed = xprv_to_bytes K (the (derive_child K shared c)), starting_time_secs = of_nat (u div 10 ^ 9),
        starting_time_nanos = of_nat (u mod 2 ^ 31), cross_node_seed = xprv_to_bytes K shared\<rparr>)" for k u
  proof (cases "child_number K k True")
    case (Some c)
    obtain x where "derive_child K shared c = Some x" using ok(4) by blast
    with Some show ?thesis by (simp add: create_keys_manager_def m z sh)
  qed (simp add: create_keys_manager_def m z sh)
  have apart: "km_seed a \<noteq> km_seed b"
    if made: "create_keys_manager K m i t = Some a" "create_keys_manager K m j t' = Some b" "i \<noteq> j"
      and inj: "\<forall>x c d. map_option (xprv_to_bytes K) (derive_child K x c) = map_option (xprv_to_bytes K) (derive_child K x d) \<longrightarrow> c = d"
    for a b
  proof
    assume same: "km_seed a = km_seed b"
    obtain c d where cd: "child_number K i True = Some c" "child_number K j True = Some d"
      using made(1,2) unfolding keys by (cases "child_number K i True"; cases "child_number K j True") auto
    moreover obtain x y where "derive_child K shared c = Some x" "derive_child K shared d = Some y"
      using ok(4) by blast
    ultimately have "c = d" using made(1,2) same inj [rule_format, of shared c d] by (auto simp: keys)
    with cd ok(2) made(3) show False by blast
  qed
  have "create_keys_manager K m i t = None \<longleftrightarrow> \<not> i < 0x80000000"
    using ok(1) [of i] by (cases "child_number K i True") (simp_all add: keys)
  moreover have "Option.bind (create_keys_manager K m i t) (pubkey_from_keys_manager K) =
      Option.bind (create_keys_manager K m i t') (pubkey_from_keys_manager K)"
  proof (cases "child_number K i True")
    case (Some c)
    then show ?thesis by (simp add: keys pubkey_from_keys_manager_def) (intro arg_cong [of _ _ "map_option _"] ok(5), simp)
  qed (simp add: keys)
  moreover have "cross_node_seed a = cross_node_seed b"
    if "create_keys_manager K m i t = Some a" "create_keys_manager K m j t' = Some b" for a b
    using that unfolding keys by (cases "child_number K i True"; cases "child_number K j True") auto
  ultimately show ?thesis using apart by blast
qed

section \<open>Calls of the frontend\<close>

definition new_node ::
  "'x nm_env_scheme \<Rightarrow> NodeManager \<Rightarrow> net_state \<Rightarrow> (string \<times> PublicKey, MutinyJsError) result \<times> NodeManager \<times> net_state" where
  "new_node E nm s = (case create_new_node E nm s of (r, nm', s') \<Rightarrow> (map_err js_of_mutiny r, nm', s'))"

text \<open>The order of the list is that of the hash map of the nodes.\<close>

definition list_nodes :: "'x nm_env_scheme \<Rightarrow> NodeManager \<Rightarrow> string list" where
  "list_nodes E nm = map (\<lambda>(_, n). pubkey_to_string E (node_pubkey n)) (nodes nm)"

definition node_disconnect_peer :: "PublicKey \<Rightarrow> unit net_prog" where
  "node_disconnect_peer node_id_of_peer = Connection.ask (DisconnectByNodeId node_id_of_peer) (\<lambda>_. ())"

definition disconnect_peer ::
  "'x nm_env_scheme \<Rightarrow> NodeManager \<Rightarrow> string \<Rightarrow> string \<Rightarrow> (net_state, unit, MutinyJsError) prog" where
  "disconnect_peer E nm self_node_pubkey peer =
     (case map_of (nodes nm) self_node_pubkey of
        Some n \<Rightarrow>
          (case pubkey_from_str E peer of
             Some node_id_of_peer \<Rightarrow> pmap_err js_of_mutiny (node_disconnect_peer node_id_of_peer)
           | None \<Rightarrow> perr JsPubkeyInvalid)
      | None \<Rightarrow> perr JsWalletOperationFailed)"

text \<open>Every node is filed under its own key.\<close>

definition filed_by_key :: "'x nm_env_scheme \<Rightarrow> (string \<times> Node) list \<Rightarrow> bool" where
  "filed_by_key E ns \<longleftrightarrow> distinct (map fst ns) \<and> (\<forall>(k, n) \<in> set ns. k = pubkey_to_string E (node_pubkey n))"

lemma filed_update: "filed_by_key E ns \<Longrightarrow> filed_by_key E (AList.update (pubkey_to_string E (node_pubkey n)) n ns)"
  using distinct_update [of ns "pubkey_to_string E (node_pubkey n)" n]
  by (auto simp: filed_by_key_def update_conv' dest!: map_of_is_SomeI [rotated] split: if_splits)

lemma filed_start: "filed_by_key E started \<Longrightarrow> start_nodes E m strg xs started s = (Ok l, s') \<Longrightarrow> filed_by_key E l"
proof (induction xs arbitrary: started s)
  case (Cons x xs)
  obtain k i where x: "x = (k, i)" by fastforce
  with Cons.prems(2) obtain n u where
    "start_nodes E m strg xs (AList.update (pubkey_to_string E (node_pubkey n)) n started) u = (Ok l, s')"
    by (auto elim!: pbind_OkE)
  from Cons.IH [OF filed_update [OF Cons.prems(1)] this] show ?case .
qed (simp add: preturn_def)

lemma filed_open:
  assumes "node_manager_new E pw given s = (Ok nm, s')"
  shows "filed_by_key E (nodes nm)"
proof -
  from assms obtain m strg xs u t where "start_nodes E m strg xs [] u = (Ok (nodes nm), t)"
    unfolding node_manager_new_def Let_def pmap_err_Ok_iff by (elim pbind_OkE) (auto simp: preturn_def)
  then show ?thesis by (rule filed_start [rotated]) (simp add: filed_by_key_def)
qed

lemma filed_create: "filed_by_key E (nodes nm) \<Longrightarrow> create_new_node E nm s = (r, nm', s') \<Longrightarrow> filed_by_key E (nodes nm')"
  by (auto simp: create_new_node_def Let_def filed_update split: result.splits prod.splits)

text \<open>The managers the frontend can have: opened, and then with new nodes.\<close>

inductive opened :: "'x nm_env_scheme \<Rightarrow> NodeManager \<Rightarrow> bool" for E where
  Open: "node_manager_new E pw given s = (Ok nm, s') \<Longrightarrow> opened E nm"
| New: "opened E nm \<Longrightarrow> new_node E nm s = (r, nm', s') \<Longrightarrow> opened E nm'"

lemma opened_filed: "opened E nm \<Longrightarrow> filed_by_key E (nodes nm)"
  by (induction rule: opened.induct) (auto simp: new_node_def filed_open split: prod.splits intro: filed_create)

text \<open>
  The keys the frontend is shown for the nodes are all different, and each of them is the
  name under which the other calls find the node with this key; a call for any other key is refused.
\<close>

theorem listed_nodes_are_found:
  assumes "opened E nm"
  shows "distinct (list_nodes E nm) \<and>
    (\<forall>key \<in> set (list_nodes E nm). \<exists>n. map_of (nodes nm) key = Some n \<and> pubkey_to_string E (node_pubkey n) = key) \<and>
    (\<forall>key peer s. key \<notin> set (list_nodes E nm) \<longrightarrow>
       disconnect_peer E nm key peer s = (Err JsWalletOperationFailed, s) \<and>
       delete_peer nm key peer s = (Err JsWalletOperationFailed, s) \<and>
       connect_to_peer E nm key peer s = (Err JsWalletOperationFailed, s))"
proof -
  have filed: "filed_by_key E (nodes nm)" using assms by (rule opened_filed)
  have keys: "list_nodes E nm = map fst (nodes nm)"
    using filed by (auto simp: list_nodes_def filed_by_key_def)
  have "map_of (nodes nm) key = None" if "key \<notin> set (list_nodes E nm)" for key
    using that by (simp add: keys map_of_eq_None_iff)
  moreover have "\<exists>n. map_of (nodes nm) key = Some n \<and> pubkey_to_string E (node_pubkey n) = key"
    if "key \<in> set (list_nodes E nm)" for key
  proof -
    from that obtain n where "(key, n) \<in> set (nodes nm)" by (auto simp: keys)
    with filed show ?thesis by (auto simp: filed_by_key_def intro: map_of_is_SomeI)
  qed
  moreover have "distinct (list_nodes E nm)" using filed by (simp add: keys filed_by_key_def)
  ultimately show ?thesis
    by (simp add: disconnect_peer_def delete_peer_def connect_to_peer_def pmap_err_def)
qed

text \<open>
  Disconnecting a peer does not forget it: its connection string stays stored, so the next
  round of the node's reconnection loop, once LDK no longer lists the peer, tries to connect to it again.
\<close>

theorem disconnected_peer_is_redialled:
  assumes "map_of (nodes nm) self = Some n" "pubkey_from_str E peer = Some pk"
    and "disconnect_peer E nm self peer s = (r, s1)"
    and "list_peer_connection_info E (persister n) (net_store s) = Some peers" "(pk, str) \<in> set peers"
    and "connection_info_new (pubkey_from_str E) str = Ok info"
    and "master_connected E (asked s1)" "pk \<notin> set (peer_node_ids E (asked s1))"
  shows "r = Ok () \<and> asked s1 = asked s @ [DisconnectByNodeId pk] \<and>
    (\<exists>s2 more. auto_connect_round E (persister n) s1 = (Ok (), s2) \<and> asked s2 = asked s1 @ more \<and>
      (\<exists>e \<in> set more. attempted E info e))"
proof -
  have s1: "r = Ok ()" "s1 = s\<lparr>asked := asked s @ [DisconnectByNodeId pk]\<rparr>"
    using assms(1-3) by (auto simp: disconnect_peer_def node_disconnect_peer_def Connection.ask_def Let_def pmap_err_def)
  then have "list_peer_connection_info E (persister n) (net_store s1) = Some peers" using assms(4) by simp
  moreover obtain q s2 where q: "auto_connect_round E (persister n) s1 = (q, s2)" by fastforce
  ultimately have "q = Ok () \<and> (\<exists>more. asked s2 = asked s1 @ more \<and> (\<exists>e \<in> set more. attempted E info e))"
    using auto_connect_tries_every_peer [OF assms(7), of "persister n" peers q s2] assms(5,6,8) by auto
  with q s1 show ?thesis by auto
qed

section \<open>A concrete start\<close>

text \<open>A derivation whose keys are the index, and one that is hardened as BIP32 has it.\<close>

definition demo_keys :: "(bytes, u32) derivation" where
  "demo_keys = \<lparr>to_seed = \<lambda>m _. entropy m, xprv_new = Some, child_number = \<lambda>i _. Some i,
     derive_child = \<lambda>_ c. Some [ucast c], xprv_to_bytes = \<lambda>k. k, node_secret = \<lambda>km. Some (km_seed km),
     public_key_of = PublicKey\<rparr>"

definition demo_bip32 :: "(bytes, u32) derivation" where
  "demo_bip32 = demo_keys\<lparr>child_number := \<lambda>i _. if i < 0x80000000 then Some i else None,
     derive_child := \<lambda>_ c. Some (be_bytes32 c)\<rparr>"

definition demo_starts :: start_env where
  "demo_starts = nm_env.extend demo_nm (start_env.fields (\<lambda>_. 0) (\<lambda>_. [RegisterTx (Txid [9])]) (\<lambda>m. m))"

lemmas demo_starts_defs = demo_starts_def start_env.defs nm_env.extend_def

definition demo_index :: NodeIndex where "demo_index = \<lparr>node_uuid = replicate 36 CHR ''a'', child_index = 0\<rparr>"

definition demo_idle :: "browser \<Rightarrow> start_state" where
  "demo_idle b = \<lparr>st_net = \<lparr>net_store = b, asked = []\<rparr>, st_chain = chain_new, clock_reads = 0, chain_monitors = [], spawned = []\<rparr>"

lemma demo_derives: "derives demo_keys (demo_starts\<lparr>opens := f\<rparr>)" "derives demo_keys demo_starts"
  by (simp_all add: derives_def create_keys_manager_def pubkey_from_keys_manager_def demo_keys_def demo_starts_defs demo_nm_defs)


abbreviation demo_nodes_to_start :: "(string \<times> NodeIndex) list" where
  "demo_nodes_to_start \<equiv> [(''u'', demo_index)]"

lemma demo_first_start:
  "\<exists>l s'. start_all demo_keys demo_starts seed_one plain demo_nodes_to_start [] (demo_idle demo_browser) = (Ok l, s')"
proof -
  have "is_ok (fst (start_nodes demo_starts seed_one plain demo_nodes_to_start [] demo_start))" by code_simp
  then obtain l n where "start_nodes demo_starts seed_one plain demo_nodes_to_start [] (st_net (demo_idle demo_browser)) = (Ok l, n)"
    by (cases "start_nodes demo_starts seed_one plain demo_nodes_to_start [] demo_start";
        cases "fst (start_nodes demo_starts seed_one plain demo_nodes_to_start [] demo_start)") (auto simp: demo_idle_def demo_start_def)
  from start_all_new [OF demo_derives(2) this] show ?thesis by blast
qed

lemma opening_starts_each_node_once_witness:
  "\<exists>l s'. start_all demo_keys demo_starts seed_one plain demo_nodes_to_start [] (demo_idle demo_browser) = (Ok l, s') \<and>
     count_list (spawned s') (BackgroundProcessor (persister (node_of demo_starts seed_one plain demo_index))) = 1"
proof -
  obtain l s' where run: "start_all demo_keys demo_starts seed_one plain demo_nodes_to_start [] (demo_idle demo_browser) = (Ok l, s')"
    using demo_first_start by blast
  have "spawned (demo_idle demo_browser) = []" by (simp add: demo_idle_def)
  with opening_starts_each_node_once [OF demo_derives(2) run]
  have "count_list (spawned s') (BackgroundProcessor (persister (node_of demo_starts seed_one plain demo_index))) = 1" by auto
  with run show ?thesis by blast
qed

definition demo_closed_once :: start_env where
  "demo_closed_once = demo_starts\<lparr>opens := \<lambda>log. 1 < length log\<rparr>"

lemma demo_closed_derives: "derives demo_keys demo_closed_once"
  unfolding demo_closed_once_def by (rule demo_derives(1))

lemma demo_fails:
  "\<exists>s2 l s4. start_all demo_keys demo_closed_once seed_one plain demo_nodes_to_start [] (demo_idle demo_browser) = (Err ConnectionFailed, s2) \<and>
     start_all demo_keys demo_closed_once seed_one plain demo_nodes_to_start [] s2 = (Ok l, s4)"
proof -
  let ?run = "start_nodes demo_closed_once seed_one plain demo_nodes_to_start []"
  have runs: "fst (?run demo_start) = Err ConnectionFailed" "is_ok (fst (?run (snd (?run demo_start))))"
    by code_simp+
  have "?run (st_net (demo_idle demo_browser)) = (Err ConnectionFailed, snd (?run demo_start))"
    using runs(1) by (simp add: demo_idle_def demo_start_def prod_eq_iff)
  from start_all_new [OF demo_closed_derives this] obtain k s2 where
    one: "start_all demo_keys demo_closed_once seed_one plain demo_nodes_to_start [] (demo_idle demo_browser) = (Err ConnectionFailed, s2)"
      "st_net s2 = drawn k (snd (?run demo_start))" by blast
  obtain l n where "?run (snd (?run demo_start)) = (Ok l, n)"
    using runs(2) by (cases "?run (snd (?run demo_start))"; cases "fst (?run (snd (?run demo_start)))") auto
  then have "?run (st_net s2) = (Ok l, drawn k n)" unfolding one(2) start_nodes_drawn by simp
  from start_all_new [OF demo_closed_derives this] one(1) show ?thesis by blast
qed

lemma retried_opening_doubles_a_processor_witness:
  "\<exists>s2 l s4. start_all demo_keys demo_closed_once seed_one plain demo_nodes_to_start [] (demo_idle demo_browser) = (Err ConnectionFailed, s2) \<and>
     start_all demo_keys demo_closed_once seed_one plain demo_nodes_to_start [] s2 = (Ok l, s4) \<and>
     2 \<le> count_list (spawned s4) (BackgroundProcessor (persister (node_of demo_closed_once seed_one plain demo_index)))"
proof -
  obtain s2 l s4 where one: "start_all demo_keys demo_closed_once seed_one plain demo_nodes_to_start [] (demo_idle demo_browser) = (Err ConnectionFailed, s2)"
    and two: "start_all demo_keys demo_closed_once seed_one plain demo_nodes_to_start [] s2 = (Ok l, s4)"
    using demo_fails by blast
  from retried_opening_doubles_a_processor [OF demo_closed_derives one refl two] one two
  show ?thesis by (simp del: start_all.simps)
qed

lemma demo_bip32_ok: "bip32_ok demo_bip32"
  by (auto simp: bip32_ok_def demo_bip32_def demo_keys_def split: if_splits)

lemma nodes_share_the_phantom_key_witness:
  "create_keys_manager demo_bip32 seed_one 0x80000000 5 = None \<and>
   (\<exists>a b. create_keys_manager demo_bip32 seed_one 0 5 = Some a \<and> create_keys_manager demo_bip32 seed_one 1 7 = Some b \<and>
      cross_node_seed a = cross_node_seed b \<and> km_seed a \<noteq> km_seed b)"
proof -
  have inj: "\<forall>x c d. map_option (xprv_to_bytes demo_bip32) (derive_child demo_bip32 x c) =
      map_option (xprv_to_bytes demo_bip32) (derive_child demo_bip32 x d) \<longrightarrow> c = d"
    by (simp add: demo_bip32_def demo_keys_def)
  have "create_keys_manager demo_bip32 seed_one 0 5 \<noteq> None" "create_keys_manager demo_bip32 seed_one 1 7 \<noteq> None"
    by (simp_all add: create_keys_manager_def demo_bip32_def demo_keys_def)
  then obtain x y where xy: "create_keys_manager demo_bip32 seed_one 0 5 = Some x" "create_keys_manager demo_bip32 seed_one 1 7 = Some y"
    by blast
  note both = nodes_share_the_phantom_key [OF demo_bip32_ok, where m = seed_one and i = 0 and t = 5 and t' = 7 and j = 1]
  have "cross_node_seed x = cross_node_seed y \<and> km_seed x \<noteq> km_seed y"
    using both [THEN conjunct2, THEN conjunct2, rule_format, OF conjI [OF xy]] inj by simp
  moreover have "create_keys_manager demo_bip32 seed_one 0x80000000 5 = None"
    using nodes_share_the_phantom_key [OF demo_bip32_ok, where m = seed_one and i = "0x80000000" and t = 5 and t' = 5 and j = 0,
        THEN conjunct1] by simp
  ultimately show ?thesis using xy by blast
qed

lemma listed_nodes_are_found_witness:
  "\<exists>nm s'. demo_open = (Ok nm, s') \<and> distinct (list_nodes demo_nm nm)"
proof -
  obtain nm s' where one: "node_manager_new demo_nm [] (Some ''AB'') demo_start = (Ok nm, s')"
    using demo_opens(1) by (cases demo_open; cases "fst demo_open") (auto simp: demo_open_def)
  from listed_nodes_are_found [OF opened.Open [OF this]] this show ?thesis by (simp add: demo_open_def)
qed

definition demo_channels :: browser where
  "demo_channels = snd (persist demo_starts demo_persister (MONITORS_PREFIX_KEY @ ''m'') [1, 2]
     (snd (persist demo_starts demo_persister CHANNEL_MANAGER_KEY [1, 2] demo_browser)))"

lemma demo_channels_stored:
  "read_value demo_starts demo_persister CHANNEL_MANAGER_KEY demo_channels = Ok [1, 2]"
  "mbs_get demo_starts (json_bytes demo_starts) plain (get_key demo_persister (MONITORS_PREFIX_KEY @ ''m'')) demo_channels = Ok [1, 2]"
  "fst (node_new demo_starts demo_index seed_one plain \<lparr>net_store = demo_channels, asked = []\<rparr>) =
     Ok (node_of demo_starts seed_one plain demo_index)"
  by code_simp+

lemma restart_watches_the_channels_witness:
  "\<exists>n s'. node_start demo_keys demo_starts demo_index seed_one plain (demo_idle demo_channels) = (Ok n, s') \<and>
     (uuid n, [1, 2], [1, 2]) \<in> set (chain_monitors s') \<and> tracked (RegisterTx (Txid [9])) (st_chain s')"
proof -
  let ?n = "node_of demo_starts seed_one plain demo_index"
  have fields: "funding_txo demo_starts = (\<lambda>m. m)" "outputs_to_watch demo_starts = (\<lambda>_. [RegisterTx (Txid [9])])"
    "decode_monitor demo_starts = Some" by (simp_all add: demo_starts_defs demo_nm_defs)
  have p: "persister ?n = demo_persister" by (simp add: node_of_def demo_index_def demo_persister_def)
  have net: "st_net (demo_idle demo_channels) = \<lparr>net_store = demo_channels, asked = []\<rparr>" by (simp add: demo_idle_def)
  obtain s' where run: "node_start demo_keys demo_starts demo_index seed_one plain (demo_idle demo_channels) = (Ok ?n, s')"
    using node_start_new [OF demo_derives(2), of demo_index seed_one plain "demo_idle demo_channels"] demo_channels_stored(3)
    unfolding net by auto
  have "demo_channels = net_store (st_net (demo_idle demo_channels))" by (simp add: net)
  from restart_watches_the_channels [OF demo_derives(2) run this] obtain ms where
    ms: "chain_monitors s' = chain_monitors (demo_idle demo_channels) @ map (\<lambda>mon. (uuid ?n, mon, mon)) ms"
      "\<And>name enc. mbs_get demo_starts (json_bytes demo_starts) plain (get_key demo_persister (MONITORS_PREFIX_KEY @ name)) demo_channels = Ok enc \<Longrightarrow> enc \<in> set ms"
      "\<And>mon. mon \<in> set ms \<Longrightarrow> tracked (RegisterTx (Txid [9])) (st_chain s')"
    unfolding p fields demo_channels_stored(1) by auto
  from ms(2) [OF demo_channels_stored(2)] ms(1,3) run show ?thesis by force
qed

definition demo_one_node :: NodeManager where
  "demo_one_node = \<lparr>mnemonic = seed_one, nm_storage = plain, node_storage = \<lparr>ns_nodes = demo_nodes_to_start\<rparr>,
     nodes = [(''00'', node_of demo_starts seed_one plain demo_index)]\<rparr>"

lemma demo_peers_known:
  "list_peer_connection_info demo_starts demo_persister demo_peers = Some [(PublicKey [2], ''02@h.io:99'')]"
  "pubkey_from_str demo_starts ''02'' = Some (PublicKey [2])"
  by code_simp+

lemma disconnected_peer_is_redialled_witness:
  "\<exists>s1 s2 more e. disconnect_peer demo_starts demo_one_node ''00'' ''02'' \<lparr>net_store = demo_peers, asked = []\<rparr> = (Ok (), s1) \<and>
     auto_connect_round demo_starts demo_persister s1 = (Ok (), s2) \<and> asked s2 = asked s1 @ more \<and>
     e \<in> set more \<and> attempted demo_starts demo_peer e"
proof -
  let ?n = "node_of demo_starts seed_one plain demo_index" and ?s = "\<lparr>net_store = demo_peers, asked = []\<rparr>"
  have p: "persister ?n = demo_persister" by (simp add: node_of_def demo_index_def demo_persister_def)
  obtain r s1 where run: "disconnect_peer demo_starts demo_one_node ''00'' ''02'' ?s = (r, s1)" by fastforce
  have "connection_info_new (pubkey_from_str demo_starts) ''02@h.io:99'' = Ok demo_peer"
    using demo_peer_parsed by (simp add: demo_starts_defs demo_nm_defs)
  moreover have "master_connected demo_starts (asked s1)" "PublicKey [2] \<notin> set (peer_node_ids demo_starts (asked s1))"
    by (simp_all add: demo_starts_defs demo_nm_defs)
  ultimately show ?thesis
    using disconnected_peer_is_redialled [of demo_one_node "''00''" ?n demo_starts "''02''" "PublicKey [2]" ?s r s1
        "[(PublicKey [2], ''02@h.io:99'')]" "''02@h.io:99''" demo_peer] demo_peers_known run p
    by (auto simp: demo_one_node_def)
qed

end
