(* ===== verification/Typing.thy ===== *)
theory Typing
  imports PaymentFlows
begin

text \<open>
  The browser storage is one untyped table of strings that all parts of the wallet write to:
  \<open>MutinyBrowserStorage::set\<close> takes any serializable value and any key, and a scan panics on the
  first value it cannot read (\<open>localstorage.rs\<close>). This theory gives the keys types and shows that
  every writer of the wallet keeps to them, so that no scan panics.
\<close>

section \<open>Types of keys\<close>

text \<open>What stands under a key of a node can be read at the type its prefix asks for.\<close>

definition typed_entry :: "'x ldk_env_scheme \<Rightarrow> MutinyBrowserStorage \<Rightarrow> string \<Rightarrow> browser \<Rightarrow> bool" where
  "typed_entry E strg k b \<longleftrightarrow>
     (\<forall>i. starts_with k (payment_prefix i) \<longrightarrow> (\<exists>v. mbs_get E (json_payment E) strg k b = Ok v)) \<and>
     (starts_with k PEER_PREFIX_KEY \<longrightarrow> (\<exists>v. mbs_get E (json_string E) strg k b = Ok v)) \<and>
     (starts_with k MONITORS_PREFIX_KEY \<longrightarrow> (\<exists>v. mbs_get E (json_bytes E) strg k b = Ok v))"

definition well_typed :: "'x ldk_env_scheme \<Rightarrow> MutinyBrowserStorage \<Rightarrow> browser \<Rightarrow> bool" where
  "well_typed E strg b \<longleftrightarrow> (\<forall>k. raw_item b k \<noteq> None \<longrightarrow> typed_entry E strg k b)"

definition untyped_key :: "string \<Rightarrow> bool" where
  "untyped_key k \<longleftrightarrow> (\<forall>i. \<not> starts_with k (payment_prefix i)) \<and> \<not> starts_with k PEER_PREFIX_KEY \<and>
     \<not> starts_with k MONITORS_PREFIX_KEY"

lemma typed_entry_cong: "raw_item b' k = raw_item b k \<Longrightarrow> typed_entry E strg k b' = typed_entry E strg k b"
  unfolding typed_entry_def by (metis mbs_get_cong)

lemma untyped_entry: "untyped_key k \<Longrightarrow> typed_entry E strg k b"
  by (simp add: untyped_key_def typed_entry_def)

text \<open>The prefixes exclude each other.\<close>

lemma prefix_clash:
  "starts_with k (payment_prefix i) \<Longrightarrow> \<not> starts_with k PEER_PREFIX_KEY"
  "starts_with k (payment_prefix i) \<Longrightarrow> \<not> starts_with k MONITORS_PREFIX_KEY"
  "starts_with k PEER_PREFIX_KEY \<Longrightarrow> \<not> starts_with k MONITORS_PREFIX_KEY"
  "starts_with k PEER_PREFIX_KEY \<Longrightarrow> \<not> starts_with k (payment_prefix i)"
  "starts_with k MONITORS_PREFIX_KEY \<Longrightarrow> \<not> starts_with k (payment_prefix i)"
  "starts_with k MONITORS_PREFIX_KEY \<Longrightarrow> \<not> starts_with k PEER_PREFIX_KEY"
  by (auto simp: starts_with_iff payment_prefix_def storage_key_defs split: if_splits)

lemma entry_typed_by:
  "starts_with k (payment_prefix i) \<Longrightarrow> mbs_get E (json_payment E) strg k b = Ok v1 \<Longrightarrow> typed_entry E strg k b"
  "starts_with k PEER_PREFIX_KEY \<Longrightarrow> mbs_get E (json_string E) strg k b = Ok v2 \<Longrightarrow> typed_entry E strg k b"
  "starts_with k MONITORS_PREFIX_KEY \<Longrightarrow> mbs_get E (json_bytes E) strg k b = Ok v3 \<Longrightarrow> typed_entry E strg k b"
  unfolding typed_entry_def using prefix_clash by blast+

section \<open>Writers\<close>

definition stays_typed :: "'x ldk_env_scheme \<Rightarrow> MutinyBrowserStorage \<Rightarrow> (browser, 'a, 'e) prog \<Rightarrow> bool" where
  "stays_typed E strg m \<longleftrightarrow> (\<forall>b. well_typed E strg b \<longrightarrow> well_typed E strg (snd (m b)))"

lemma changes_typed:
  assumes "well_typed E strg b" "\<And>x. x \<noteq> k \<Longrightarrow> raw_item b' x = raw_item b x"
    and "raw_item b' k = raw_item b k \<or> raw_item b' k = None \<or> typed_entry E strg k b'"
  shows "well_typed E strg b'"
  using assms typed_entry_cong [of b' _ b E strg] unfolding well_typed_def by metis

lemma set_keeps_types:
  assumes "mbs_set W c self k v b = (r, b')" "well_typed E strg b" "r = Ok () \<Longrightarrow> typed_entry E strg k b'"
  shows "well_typed E strg b'"
proof (rule changes_typed [OF assms(2), of k])
  show "raw_item b' x = raw_item b x" if "x \<noteq> k" for x by (rule mbs.put_frame [OF assms(1) that])
  show "raw_item b' k = raw_item b k \<or> raw_item b' k = None \<or> typed_entry E strg k b'"
    using mbs.put_fail [OF assms(1)] assms(3) by metis
qed

lemma set_untyped: "untyped_key k \<Longrightarrow> stays_typed E strg (mbs_set W c self k v)"
  unfolding stays_typed_def by (metis prod.collapse set_keeps_types untyped_entry)

lemma stays_typed_pmap_err [simp]: "stays_typed E strg (pmap_err f m) = stays_typed E strg m"
  by (simp add: stays_typed_def)

lemma stays_typed_pbind [intro]:
  assumes "stays_typed E strg m" "\<And>v. stays_typed E strg (k v)"
  shows "stays_typed E strg (pbind m k)"
  using assms unfolding stays_typed_def pbind_def
  by (auto split: prod.split result.split)

lemma stays_typed_basic [simp]:
  "stays_typed E strg (preturn v)" "stays_typed E strg (perr e)" "stays_typed E strg (pread f)"
  by (simp_all add: stays_typed_def)

lemma delete_typed: "well_typed E strg b \<Longrightarrow> well_typed E strg (mbs_delete k b)"
  by (rule changes_typed [where k = k]) (simp_all add: mbs_delete_def)

lemma persist_payment_info_typed:
  assumes "ldk_ok E" "storage p = strg"
  shows "stays_typed E strg (persist_payment_info E p h info i)"
  unfolding stays_typed_def
proof (intro allI impI)
  fix b assume t: "well_typed E strg b"
  let ?k = "get_key p (payment_key E i h)"
  obtain r b' where s: "mbs_set E (json_payment E) strg ?k info b = (r, b')" by fastforce
  have "typed_entry E strg ?k b'" if "r = Ok ()"
  proof (rule entry_typed_by(1))
    show "starts_with ?k (payment_prefix i)" by (cases h) (simp add: get_key_def)
    show "mbs_get E (json_payment E) strg ?k b' = Ok info"
      using s that ldk_okD [OF assms(1)] by (intro mbs.put_get) auto
  qed
  from set_keeps_types [OF s t this] show "well_typed E strg (snd (persist_payment_info E p h info i b))"
    using s assms(2) by (simp add: persist_payment_info_def)
qed

lemma persist_peer_typed:
  assumes "ldk_ok E" "storage p = strg"
  shows "stays_typed E strg (persist_peer_connection_info E p pk c)"
  unfolding stays_typed_def
proof (intro allI impI)
  fix b assume t: "well_typed E strg b"
  let ?k = "get_key p (peer_key pk)"
  obtain r b' where s: "mbs_set E (json_string E) strg ?k c b = (r, b')" by fastforce
  have "typed_entry E strg ?k b'" if "r = Ok ()"
  proof (rule entry_typed_by(2))
    show "starts_with ?k PEER_PREFIX_KEY" by (simp add: get_key_def peer_key_def)
    show "mbs_get E (json_string E) strg ?k b' = Ok c"
      using s that ldk_okD [OF assms(1)] by (intro mbs.put_get) auto
  qed
  from set_keeps_types [OF s t this] show "well_typed E strg (snd (persist_peer_connection_info E p pk c b))"
    using s assms(2) by (simp add: persist_peer_connection_info_def)
qed

text \<open>LDK's keys: the objects of the node, or a monitor.\<close>

definition ldk_object_key :: "string \<Rightarrow> bool" where
  "ldk_object_key key \<longleftrightarrow> \<not> starts_with key ''pa'' \<and> \<not> starts_with key ''pe''"

lemma two_chars: "starts_with (get_key p key) [a, c] \<longleftrightarrow> starts_with key [a, c] \<or> (key = [a] \<and> c = CHR ''_'') \<or> (key = [] \<and> a = CHR ''_'' \<and> starts_with (node_id p) [c])"
  by (cases key; cases "tl key") (auto simp: get_key_def starts_with_iff)

lemma persist_typed:
  assumes "ldk_ok E" "storage p = strg" "ldk_object_key key"
  shows "stays_typed E strg (persist E p key bs)"
  unfolding stays_typed_def
proof (intro allI impI)
  fix b assume t: "well_typed E strg b"
  let ?k = "get_key p key"
  obtain r b' where s: "mbs_set E (json_bytes E) strg ?k bs b = (r, b')" by fastforce
  have "\<not> starts_with ?k ''pa''" "\<not> starts_with ?k ''pe''"
    using assms(3) unfolding two_chars by (simp_all add: ldk_object_key_def)
  then have other: "\<not> starts_with ?k (payment_prefix i)" "\<not> starts_with ?k PEER_PREFIX_KEY" for i
    by (auto simp: starts_with_iff payment_prefix_def storage_key_defs split: if_splits)
  have "typed_entry E strg ?k b'" if "r = Ok ()"
  proof -
    have "mbs_get E (json_bytes E) strg ?k b' = Ok bs"
      using s that ldk_okD [OF assms(1)] by (intro mbs.put_get) auto
    with other show ?thesis by (simp add: typed_entry_def)
  qed
  from set_keeps_types [OF s t this] show "well_typed E strg (snd (persist E p key bs b))"
    using s assms(2) by (simp add: persist_def)
qed

section \<open>Nodes\<close>

text \<open>A program on a node that keeps its storage typed.\<close>

definition node_typed :: "'x ldk_env_scheme \<Rightarrow> MutinyBrowserStorage \<Rightarrow> 'a node_prog \<Rightarrow> bool" where
  "node_typed E strg m \<longleftrightarrow> (\<forall>s. well_typed E strg (store s) \<longrightarrow> well_typed E strg (store (snd (m s))))"

interpretation typed: run_preorder "\<lambda>s s'. well_typed E strg (store s) \<longrightarrow> well_typed E strg (store s')"
  for E :: "'x ldk_env_scheme" and strg
  by standard auto

named_theorems typed_intros \<open>programs that keep the storage typed\<close>

lemma node_typed_pbind [typed_intros]:
  "node_typed E strg m \<Longrightarrow> (\<And>v. node_typed E strg (k v)) \<Longrightarrow> node_typed E strg (pbind m k)"
  unfolding node_typed_def by (intro allI typed.run_pbind) auto

lemma same_store_typed: "(\<And>s. store (snd (m s)) = store s) \<Longrightarrow> node_typed E strg m"
  by (simp add: node_typed_def)

lemma node_typed_basic [typed_intros]:
  "node_typed E strg (preturn v)" "node_typed E strg (perr e)" "node_typed E strg (pread f)"
  "node_typed E strg (call c a)" "node_typed E strg (read_clock E')" "node_typed E strg (expect x)"
  "node_typed E strg (read_payment E' p h i)"
  by (intro same_store_typed; simp add: read_clock_def read_payment_def on_store_def)+

lemma node_typed_cases [typed_intros]:
  "(x = None \<Longrightarrow> node_typed E strg m) \<Longrightarrow> (\<And>v. x = Some v \<Longrightarrow> node_typed E strg (f v)) \<Longrightarrow>
   node_typed E strg (case x of None \<Rightarrow> m | Some v \<Rightarrow> f v)"
  "node_typed E strg m1 \<Longrightarrow> node_typed E strg m2 \<Longrightarrow> node_typed E strg (if c then m1 else m2)"
  "node_typed E strg m3 \<Longrightarrow> node_typed E strg (ignore_err m3)"
  "node_typed E strg m4 \<Longrightarrow> node_typed E strg (pmap_err g m4)"
  by (auto simp: node_typed_def ignore_err_def split: option.split prod.split result.split)

lemma persist_payment_typed:
  assumes "ldk_ok E" "storage p = strg"
  shows "node_typed E strg (persist_payment E p h info i)"
  using persist_payment_info_typed [OF assms, of h info i]
  by (auto simp: node_typed_def persist_payment_def on_store_def stays_typed_def pmap_err_def split: prod.split)

text \<open>Handling events, making invoices and paying.\<close>

lemma node_operations_typed:
  assumes "ldk_ok E" "storage p = strg"
  shows "node_typed E strg (handle_event E p net ev)" "node_typed E strg (create_invoice E p net amount descr hints)"
    "node_typed E strg (pay_invoice E p invo amount)" "node_typed E strg (keysend E p to_node sats)"
proof -
  note intros = typed_intros persist_payment_typed [OF assms]
  show "node_typed E strg (handle_event E p net ev)"
    by (cases ev)
      (simp_all add: on_payment_claimed_def on_payment_sent_def on_payment_failed_def intros same_store_typed on_store_none)
  show "node_typed E strg (create_invoice E p net amount descr hints)"
    unfolding create_invoice_def Let_def by (intro intros)
  have "node_typed E strg (send_payment E p invo attempt m)" for attempt m
    unfolding send_payment_def by (intro intros)
  then show "node_typed E strg (pay_invoice E p invo amount)"
    unfolding pay_invoice_def by (intro intros) 
  show "node_typed E strg (keysend E p to_node sats)"
    unfolding keysend_def Let_def by (intro intros)
qed

section \<open>The database and the wallet's own keys\<close>

lemma map_key_untyped:
  assumes "bdk_ok E"
  shows "untyped_key (as_map_key E k)"
proof -
  obtain x xs where "as_prefix E k @ serialize_content E k = x # xs" by (cases k) auto
  then have "length (as_map_key E k) = 2 * Suc (length xs)" "set (as_map_key E k) \<subseteq> set hex_digits"
    using bdk_okD(7,8) [OF assms] by (simp_all add: as_map_key_def)
  then obtain c cs where "as_map_key E k = c # cs" "c \<in> set hex_digits" by (cases "as_map_key E k") auto
  then show ?thesis
    by (auto simp: untyped_key_def starts_with_iff payment_prefix_def storage_key_defs hex_digits_def)
qed

lemma db_set_typed: "bdk_ok E \<Longrightarrow> stays_typed E strg (db_set E c self k v)"
  by (simp add: db_set_def set_untyped map_key_untyped)

lemma db_take_typed: "stays_typed E strg (db_take E c self k)"
  by (auto simp: db_take_def stays_typed_def delete_typed [unfolded mbs_delete_def] split: result.split)

lemma stays_typed_cases:
  "stays_typed E strg m \<Longrightarrow> (\<And>v. stays_typed E strg (f v)) \<Longrightarrow> stays_typed E strg (case x of None \<Rightarrow> m | Some v \<Rightarrow> f v)"
  "stays_typed E strg m1 \<Longrightarrow> stays_typed E strg m2 \<Longrightarrow> stays_typed E strg (if c then m1 else m2)"
  by (auto split: option.split)

lemmas stays_typed_intros = stays_typed_pbind stays_typed_cases stays_typed_basic db_set_typed db_take_typed

lemma set_tx_typed: "bdk_ok E \<Longrightarrow> stays_typed E strg (set_tx E self td)"
  unfolding set_tx_def set_raw_tx_def by (intro stays_typed_intros)

lemma del_tx_typed: "stays_typed E strg (del_tx E self tid raw)"
  unfolding del_tx_def del_raw_tx_def by (intro stays_typed_intros)

lemma set_script_typed: "bdk_ok E \<Longrightarrow> stays_typed E strg (set_script_pubkey E self sc kc path)"
  unfolding set_script_pubkey_def by (intro stays_typed_intros)

lemma checksum_typed: "bdk_ok E \<Longrightarrow> stays_typed E strg (check_descriptor_checksum E self kc bs)"
  unfolding check_descriptor_checksum_def by (intro stays_typed_intros)

lemma increment_typed: "bdk_ok E \<Longrightarrow> stays_typed E strg (increment_last_index E self kc)"
  unfolding increment_last_index_def Let_def by (intro stays_typed_intros)

lemma del_path_typed: "stays_typed E strg (del_path_from_script_pubkey E self sc)"
  unfolding del_path_from_script_pubkey_def by (intro stays_typed_intros)

lemma stays_typedD: "stays_typed E strg m \<Longrightarrow> well_typed E strg b \<Longrightarrow> well_typed E strg (snd (m b))"
  by (simp add: stays_typed_def)

lemma db_step_typed: "bdk_ok E \<Longrightarrow> well_typed E strg b \<Longrightarrow> well_typed E strg (db_step E self c b)"
  by (cases c)
    (simp_all add: stays_typedD set_tx_typed del_tx_typed set_script_typed checksum_typed increment_typed del_path_typed
      set_utxo_def set_raw_tx_def set_last_index_def set_sync_time_def del_script_pubkey_from_path_def
      del_utxo_def del_raw_tx_def del_last_index_def del_sync_time_def db_set_typed db_take_typed)

lemma ls_set_untyped: "untyped_key k \<Longrightarrow> stays_typed E strg (ls_set W c k v)"
  unfolding stays_typed_def
proof (intro allI impI)
  fix b assume k: "untyped_key k" and t: "well_typed E strg b"
  obtain r b' where s: "ls_set W c k v b = (r, b')" by fastforce
  have "well_typed E strg b'"
    by (rule changes_typed [OF t, of k]) (simp_all add: ls.put_frame [OF s] untyped_entry [OF k])
  with s show "well_typed E strg (snd (ls_set W c k v b))" by simp
qed

lemma own_keys_untyped: "untyped_key nodes_key" "untyped_key fee_estimates_key" "untyped_key mnemonic_key"
  by (auto simp: untyped_key_def starts_with_iff payment_prefix_def storage_key_defs nodes_key_def fee_estimates_key_def
      mnemonic_key_def)

section \<open>The wallet's storage over time\<close>

text \<open>
  Everything in the wallet that writes to the storage, as a step from one storage to the next: a
  node's events and payments in whatever state it is, its peers, LDK's persister, bdk, and the
  wallet's seed, nodes and fees.
\<close>

inductive storage_step :: "'x pay_env_scheme \<Rightarrow> MutinyBrowserStorage \<Rightarrow> browser \<Rightarrow> browser \<Rightarrow> bool" for E strg where
  Event: "storage p = strg \<Longrightarrow> storage_step E strg (store s) (store (snd (handle_event E p net ev s)))"
| CreateInvoice: "storage p = strg \<Longrightarrow> storage_step E strg (store s) (store (snd (create_invoice E p net amount descr hints s)))"
| Pay: "storage p = strg \<Longrightarrow> storage_step E strg (store s) (store (snd (pay_invoice E p invo amount s)))"
| Keysend: "storage p = strg \<Longrightarrow> storage_step E strg (store s) (store (snd (keysend E p to_node sats s)))"
| Peer: "storage p = strg \<Longrightarrow> storage_step E strg b (snd (persist_peer_connection_info E p pk conn b))"
| DeletePeer: "storage p = strg \<Longrightarrow> storage_step E strg b (delete_peer_connection_info p pk b)"
| Persist: "storage p = strg \<Longrightarrow> ldk_object_key k \<Longrightarrow> storage_step E strg b (snd (persist E p k bs b))"
| Database: "storage_step E strg b (db_step E self c b)"
| Nodes: "storage_step E strg b (snd (insert_nodes E ns b))"
| Fees: "storage_step E strg b (snd (insert_fee_estimates E fees b))"
| Seed: "storage_step E strg b (snd (mbs_set E (json_string E) self mnemonic_key words b))"

lemma storage_step_typed:
  assumes "storage_step E strg b b'" "ldk_ok E" "well_typed E strg b"
  shows "well_typed E strg b'"
  using assms(1)
proof cases
  case (Event p s net ev)
  then show ?thesis using node_operations_typed(1) [OF assms(2)] assms(3) by (auto simp: node_typed_def)
next
  case (CreateInvoice p s net amount descr hints)
  then show ?thesis using node_operations_typed(2) [OF assms(2)] assms(3) by (auto simp: node_typed_def)
next
  case (Pay p s invo amount)
  then show ?thesis using node_operations_typed(3) [OF assms(2)] assms(3) by (auto simp: node_typed_def)
next
  case (Keysend p s to_node sats)
  then show ?thesis using node_operations_typed(4) [OF assms(2)] assms(3) by (auto simp: node_typed_def)
next
  case (Peer p pk conn)
  then show ?thesis using persist_peer_typed [OF assms(2)] assms(3) by (auto simp: stays_typed_def)
next
  case (DeletePeer p pk)
  then show ?thesis using delete_typed [OF assms(3)] by (simp add: delete_peer_connection_info_def)
next
  case (Persist p k bs)
  then show ?thesis using persist_typed [OF assms(2)] assms(3) by (auto simp: stays_typed_def)
next
  case (Database self c)
  then show ?thesis using db_step_typed [OF ldk_okD(1) [OF assms(2)] assms(3)] by simp
next
  case (Nodes ns)
  then show ?thesis using ls_set_untyped [OF own_keys_untyped(1), of E strg E "json_nodes E" ns] assms(3) by (auto simp: insert_nodes_def stays_typed_def)
next
  case (Fees fees)
  then show ?thesis using ls_set_untyped [OF own_keys_untyped(2), of E strg E "json_fees E" fees] assms(3) by (auto simp: insert_fee_estimates_def stays_typed_def)
next
  case (Seed self words)
  then show ?thesis using set_untyped [OF own_keys_untyped(3), of E strg E "json_string E" self words] assms(3) by (auto simp: stays_typed_def)
qed

lemma and_then_Panic_iff: "and_then r k = Panic \<longleftrightarrow> r = Panic \<or> (\<exists>v. r = Ok v \<and> k v = Panic)"
  by (cases r) auto

lemma scan_of_typed:
  assumes "well_typed E strg b"
  shows "mbs_scan E (json_payment E) strg (payment_prefix i) sfx b \<noteq> None" "mbs_scan E (json_string E) strg PEER_PREFIX_KEY sfx b \<noteq> None"
    "mbs_scan E (json_bytes E) strg MONITORS_PREFIX_KEY sfx b \<noteq> None"
proof -
  have readable: "raw_item b k \<noteq> None \<Longrightarrow> typed_entry E strg k b" for k using assms by (simp add: well_typed_def)
  show "mbs_scan E (json_payment E) strg (payment_prefix i) sfx b \<noteq> None"
    by (rule mbs_scan_cases [of E "json_payment E" strg "payment_prefix i" sfx b])
      (use readable in \<open>auto simp: scan_matches_def typed_entry_def\<close>)
  show "mbs_scan E (json_string E) strg PEER_PREFIX_KEY sfx b \<noteq> None"
    by (rule mbs_scan_cases [of E "json_string E" strg PEER_PREFIX_KEY sfx b])
      (use readable in \<open>auto simp: scan_matches_def typed_entry_def\<close>)
  show "mbs_scan E (json_bytes E) strg MONITORS_PREFIX_KEY sfx b \<noteq> None"
    by (rule mbs_scan_cases [of E "json_bytes E" strg MONITORS_PREFIX_KEY sfx b])
      (use readable in \<open>auto simp: scan_matches_def typed_entry_def\<close>)
qed

text \<open>
  C15: types are preserved, and typed storage is safe to list: from a storage whose entries can be
  read at the types of their keys, as an empty one, every sequence of writes of the wallet leads
  to such a storage, and in it no payment list, no list of invoices, no scan of peers or monitors
  and no reading of a payment ends in a panic.
\<close>

theorem storage_stays_typed:
  assumes "ldk_ok E" "(storage_step E strg)\<^sup>*\<^sup>* b0 b" "well_typed E strg b0" "storage p = strg"
  shows "well_typed E strg b \<and> list_payment_info E p i b \<noteq> None \<and> fst (list_invoices E p (s\<lparr>store := b\<rparr>)) \<noteq> Panic \<and>
    mbs_scan E (json_string E) strg PEER_PREFIX_KEY (Some (node_id p)) b \<noteq> None \<and>
    (read_channel_monitors E decode p b \<noteq> Panic) \<and> (read_payment_info E p h i b :: (PaymentInfo option, unit) result) \<noteq> Panic"
proof -
  have t: "well_typed E strg b"
    using assms(2,3) by (induction rule: rtranclp_induct) (auto intro: storage_step_typed [OF _ assms(1)])
  note scans = scan_of_typed [OF t]
  have lists: "list_payment_info E p j b \<noteq> None" for j
    using scans(1) assms(4) by (simp add: list_payment_info_def)
  then obtain x y where "list_payment_info E p True b = Some x" "list_payment_info E p False b = Some y" by blast
  then have "fst (list_invoices E p (s\<lparr>store := b\<rparr>)) \<noteq> Panic"
    by (auto simp: list_invoices_def list_payment_info_from_persisters_def pbind_def pread_def read_clock_def of_option_def
        split: option.split)
  moreover have "collect_results (\<lambda>(x, data). case decode data of Some m \<Rightarrow> Ok m | None \<Rightarrow> Err IoError) l \<noteq> Panic" for l :: "(string \<times> bytes) list"
    by (induction l) (auto simp: and_then_Panic_iff split: option.splits)
  moreover have "(read_payment_info E p h i b :: (PaymentInfo option, unit) result) \<noteq> Panic"
  proof (cases "raw_item b (get_key p (payment_key E i h))")
    case None
    then have "\<exists>e. mbs_get E (json_payment E) (storage p) (get_key p (payment_key E i h)) b = Err e"
      by (rule mbs.get_absent)
    then show ?thesis by (auto simp: read_payment_info_def)
  next
    case (Some x)
    moreover have "starts_with (get_key p (payment_key E i h)) (payment_prefix i)" by (cases h) (simp add: get_key_def)
    ultimately have "\<exists>v. mbs_get E (json_payment E) strg (get_key p (payment_key E i h)) b = Ok v"
      using t by (auto simp: well_typed_def typed_entry_def)
    then show ?thesis using assms(4) by (auto simp: read_payment_info_def)
  qed
  moreover have "read_channel_monitors E decode p b \<noteq> Panic"
  proof -
    obtain l where "mbs_scan E (json_bytes E) strg MONITORS_PREFIX_KEY (Some (node_id p)) b = Some l"
      using scans(3) [of "Some (node_id p)"] by blast
    then have "read_channel_monitors E decode p b =
        collect_results (\<lambda>(x, data). case decode data of Some m \<Rightarrow> Ok m | None \<Rightarrow> Err IoError) l"
      using assms(4) by (simp add: read_channel_monitors_def)
    then show ?thesis using calculation(2) by simp
  qed
  moreover have "mbs_scan E (json_string E) strg PEER_PREFIX_KEY (Some (node_id p)) b \<noteq> None" by (rule scans(2))
  ultimately show ?thesis using t lists by blast
qed

lemma storage_stays_typed_witness:
  "\<exists>b. storage_step (demo_pay [demo_sent] True) plain demo_browser b \<and> list_payment_info (demo_pay [demo_sent] True) demo_persister True b \<noteq> None"
proof -
  let ?E = "demo_pay [demo_sent] True"
  have p: "storage demo_persister = plain" by (simp add: demo_uuids)
  let ?b = "snd (persist_peer_connection_info ?E demo_persister ''02'' ''a'' demo_browser)"
  have step: "storage_step ?E plain demo_browser ?b" by (rule storage_step.Peer [OF p])
  have "well_typed ?E plain demo_browser" by (simp add: well_typed_def raw_item_def demo_browser_def)
  from storage_stays_typed [OF demo_pay_ok r_into_rtranclp [of "storage_step ?E plain", OF step] this p] step
  show ?thesis by blast
qed

end
