(* ===== verification/Amounts.thy ===== *)
theory Amounts
  imports Errors "HOL-Library.Log_Nat"
begin

text \<open>
  The amounts the frontend converts (\<open>get_bitcoin_price\<close>, \<open>convert_btc_to_sats\<close> and
  \<open>convert_sats_to_btc\<close> of \<open>node-manager/src/nodemanager.rs\<close>), over Rust's \<open>f64\<close>: IEEE 754 binary64
  with a sign, rounding to the nearest with ties to even, subnormals and overflow. \<open>bitcoin::Amount\<close>
  and the HTTP client are parameters.
\<close>

section \<open>Floating-point numbers\<close>

text \<open>An \<open>f64\<close>: a sign (true for negative, also of zero) and a magnitude.\<close>

datatype float64 = Finite bool rat | Infinite bool | NaN

definition half_even :: "rat \<Rightarrow> int" where
  "half_even x =
     (let low = \<lfloor>x\<rfloor>; rest = x - of_int low in
      if rest < 1 / 2 \<or> (rest = 1 / 2 \<and> even low) then low else low + 1)"

text \<open>
  The nearest \<open>f64\<close>. Counted in units of 2^-1074, the least subnormal, the magnitude keeps its 53
  leading bits.
\<close>

definition nearest_f64 :: "bool \<Rightarrow> rat \<Rightarrow> float64" where
  "nearest_f64 neg x =
     (let units = x * 2 ^ 1074;
          dropped = floorlog 2 (nat \<lfloor>units\<rfloor>) - 53;
          kept = of_int (half_even (units / 2 ^ dropped)) * 2 ^ dropped in
      if kept < 2 ^ 2098 then Finite neg (kept / 2 ^ 1074) else Infinite neg)"

fun f64_mul :: "float64 \<Rightarrow> float64 \<Rightarrow> float64" where
  "f64_mul (Finite s a) (Finite t b) = nearest_f64 (s \<noteq> t) (a * b)"
| "f64_mul (Infinite s) (Finite t b) = (if b = 0 then NaN else Infinite (s \<noteq> t))"
| "f64_mul (Finite s a) (Infinite t) = (if a = 0 then NaN else Infinite (s \<noteq> t))"
| "f64_mul (Infinite s) (Infinite t) = Infinite (s \<noteq> t)"
| "f64_mul _ _ = NaN"

fun f64_div :: "float64 \<Rightarrow> float64 \<Rightarrow> float64" where
  "f64_div (Finite s a) (Finite t b) =
     (if b \<noteq> 0 then nearest_f64 (s \<noteq> t) (a / b) else if a = 0 then NaN else Infinite (s \<noteq> t))"
| "f64_div (Infinite s) (Finite t b) = Infinite (s \<noteq> t)"
| "f64_div (Finite s a) (Infinite t) = Finite (s \<noteq> t) 0"
| "f64_div _ _ = NaN"

text \<open>\<open>f64::round\<close>: to the nearest integer, half-way cases away from zero.\<close>

fun f64_round :: "float64 \<Rightarrow> float64" where
  "f64_round (Finite s a) = Finite s (of_int \<lfloor>a + 1 / 2\<rfloor>)"
| "f64_round x = x"

definition f64_of_i32 :: "32 word \<Rightarrow> float64" where
  "f64_of_i32 i = nearest_f64 (sint i < 0) (of_int \<bar>sint i\<bar>)"

section \<open>The conversions\<close>

text \<open>\<open>from_btc\<close> and \<open>to_btc\<close> of \<open>bitcoin::Amount\<close>, whose value is a number of satoshis.\<close>

record amount_lib =
  from_btc :: "float64 \<Rightarrow> u64 option"
  to_btc :: "u64 \<Rightarrow> float64"

definition convert_btc_to_sats :: "'x amount_lib_scheme \<Rightarrow> float64 \<Rightarrow> (u64, MutinyJsError) result" where
  "convert_btc_to_sats L btc =
     (let truncated = f64_of_i32 (10 ^ 8);
          btc = f64_div (f64_round (f64_mul btc truncated)) truncated in
      case from_btc L btc of Some amount \<Rightarrow> Ok amount | None \<Rightarrow> Err JsBadAmountError)"

definition convert_sats_to_btc :: "'x amount_lib_scheme \<Rightarrow> u64 \<Rightarrow> float64" where
  "convert_sats_to_btc L sats = to_btc L sats"

section \<open>The price\<close>

record 'p CoingeckoPrice =
  usd :: 'p

record 'p CoingeckoResponse =
  bitcoin :: "'p CoingeckoPrice"

text \<open>\<open>send\<close> gives a response or fails; the response has a status and a body that can be read or not.\<close>

record 'p http =
  client_builds :: bool
  http_get :: "string \<Rightarrow> (bool \<times> 'p CoingeckoResponse option) option"

definition get_bitcoin_price :: "('p, 'x) http_scheme \<Rightarrow> ('p, MutinyJsError) result" where
  "get_bitcoin_price E =
     (if \<not> client_builds E then Panic
      else
        case http_get E ''https://api.coingecko.com/api/v3/simple/price?ids=bitcoin&vs_currencies=usd'' of
          None \<Rightarrow> Err (js_of_source FromReqwest)
        | Some (status_ok, json) \<Rightarrow>
            if \<not> status_ok then Err (js_of_source FromReqwest)
            else (case json of None \<Rightarrow> Err (js_of_source FromReqwest) | Some response \<Rightarrow> Ok (usd (bitcoin response))))"

section \<open>Rounding\<close>

lemma half_even_near: "\<bar>of_int (half_even x) - x\<bar> \<le> 1 / 2"
  using floor_correct [of x] unfolding half_even_def Let_def by (auto simp: abs_le_iff)

lemma half_even_nonneg: "0 \<le> x \<Longrightarrow> 0 \<le> half_even x"
  by (simp add: half_even_def Let_def)

lemma half_even_int [simp]: "half_even (of_int n) = n"
  by (simp add: half_even_def)

text \<open>Below 2^k the nearest number is at most 2^(k - 54) away.\<close>

lemma nearest_f64_near:
  assumes "0 \<le> x" "x < 2 ^ k" "k \<le> 1000"
  obtains y where "nearest_f64 neg x = Finite neg y" "0 \<le> y" "\<bar>y - x\<bar> \<le> 2 ^ k / 2 ^ 54"
proof -
  define units :: rat where "units = x * 2 ^ 1074"
  define d where "d = floorlog 2 (nat \<lfloor>units\<rfloor>) - 53"
  define kept :: rat where "kept = of_int (half_even (units / 2 ^ d)) * 2 ^ d"
  have u: "0 \<le> units" "units < 2 ^ (k + 1074)" using assms by (simp_all add: units_def power_add)
  then have "\<lfloor>units\<rfloor> < 2 ^ (k + 1074)" by (simp add: floor_less_iff)
  then have "nat \<lfloor>units\<rfloor> < 2 ^ (k + 1074)" using u(1) by (simp add: nat_less_iff)
  then have "floorlog 2 (nat \<lfloor>units\<rfloor>) \<le> k + 1074" by (intro floorlog_leI) simp_all
  then have d: "d \<le> k + 1021" by (simp add: d_def)
  have "kept - units = (of_int (half_even (units / 2 ^ d)) - units / 2 ^ d) * 2 ^ d"
    by (simp add: kept_def left_diff_distrib)
  then have "\<bar>kept - units\<bar> = \<bar>of_int (half_even (units / 2 ^ d)) - units / 2 ^ d\<bar> * 2 ^ d"
    by (simp add: abs_mult)
  also have "\<dots> \<le> 1 / 2 * 2 ^ d" by (intro mult_right_mono half_even_near) simp
  also have "\<dots> \<le> 1 / 2 * 2 ^ (k + 1021)" using d by (simp add: power_increasing)
  also have "\<dots> = 2 ^ (k + 1020)" by (simp add: power_add)
  finally have near: "\<bar>kept - units\<bar> \<le> 2 ^ (k + 1020)" .
  have "(2 :: rat) ^ (k + 1020) \<le> 2 ^ 2097" "(2 :: rat) ^ (k + 1074) \<le> 2 ^ 2097"
    using assms(3) by (intro power_increasing; simp)+
  moreover have "(2 :: rat) ^ 2098 = 2 ^ 2097 + 2 ^ 2097" by (simp only: power_Suc [symmetric] flip: mult_2) simp
  ultimately have small: "kept < 2 ^ 2098" using near u(2) by linarith
  have "0 \<le> kept" using u(1) by (simp add: kept_def half_even_nonneg)
  then have y: "0 \<le> kept / 2 ^ 1074" by simp
  have "kept / c - x = (kept - x * c) / c" if "c \<noteq> 0" for c using that by (simp add: diff_divide_distrib)
  then have "kept / 2 ^ 1074 - x = (kept - units) / 2 ^ 1074" unfolding units_def by (metis power_not_zero zero_neq_numeral)
  then have "\<bar>kept / 2 ^ 1074 - x\<bar> = \<bar>kept - units\<bar> / 2 ^ 1074" by (simp only: abs_divide power_abs abs_numeral)
  also have "\<dots> \<le> 2 ^ (k + 1020) / 2 ^ 1074" using near by (intro divide_right_mono) simp_all
  also have "\<dots> = 2 ^ k / 2 ^ 54"
  proof -
    have "(2 :: rat) ^ (k + 1020) = 2 ^ k * 2 ^ 1020" "(2 :: rat) ^ 1074 = 2 ^ 54 * 2 ^ 1020"
      by (simp_all only: power_add [symmetric]) simp
    moreover have "(2 :: rat) ^ 1020 \<noteq> 0" by (intro power_not_zero) simp
    moreover have "a * c / (b * c) = a / b" if "c \<noteq> 0" for a b c :: rat using that by simp
    ultimately show ?thesis by metis
  qed
  finally have "\<bar>kept / 2 ^ 1074 - x\<bar> \<le> 2 ^ k / 2 ^ 54" .
  moreover have "nearest_f64 neg x = Finite neg (kept / 2 ^ 1074)"
    using small unfolding nearest_f64_def Let_def units_def [symmetric] d_def [symmetric] kept_def [symmetric] by (simp only: if_True)
  ultimately show ?thesis using that y by blast
qed

text \<open>The nearest number of one that is not tiny is at least its half.\<close>

lemma nearest_f64_big:
  assumes "1 \<le> x * 2 ^ 1074"
  shows "nearest_f64 neg x = Infinite neg \<or> (\<exists>y. nearest_f64 neg x = Finite neg y \<and> x / 2 \<le> y)"
proof -
  define units :: rat where "units = x * 2 ^ 1074"
  define d where "d = floorlog 2 (nat \<lfloor>units\<rfloor>) - 53"
  define v where "v = units / 2 ^ d"
  define kept :: rat where "kept = of_int (half_even v) * 2 ^ d"
  have "1 \<le> units" using assms by (simp only: units_def)
  have "1 \<le> v"
  proof (cases "d = 0")
    case False
    then have "2 ^ (52 + d) \<le> nat \<lfloor>units\<rfloor>" using floorlog_geD [of "53 + d" 2 "nat \<lfloor>units\<rfloor>"] by (simp add: d_def)
    then have "of_nat (2 ^ (52 + d)) \<le> (of_nat (nat \<lfloor>units\<rfloor>) :: rat)" by (simp only: of_nat_le_iff)
    also have "\<dots> \<le> units" using \<open>1 \<le> units\<close> by simp
    finally have "4503599627370496 * 2 ^ d \<le> units" by (simp add: power_add)
    with zero_less_power [of "2 :: rat" d, OF zero_less_numeral] have "2 ^ d \<le> units" by linarith
    then show ?thesis by (simp add: v_def)
  qed (simp add: v_def \<open>1 \<le> units\<close>)
  then have "v / 2 \<le> of_int (half_even v)" using half_even_near [of v] by linarith
  then have "v / 2 * 2 ^ d \<le> kept" unfolding kept_def by (rule mult_right_mono) simp
  then have "units / 2 \<le> kept" by (simp add: v_def)
  then have "units / 2 / 2 ^ 1074 \<le> kept / 2 ^ 1074" by (rule divide_right_mono) simp
  moreover have "units / 2 / 2 ^ 1074 = x / 2"
  proof -
    have "x * c / 2 / c = x / 2" if "c \<noteq> 0" for c using that by simp
    then show ?thesis unfolding units_def by (metis power_not_zero zero_neq_numeral)
  qed
  moreover have "nearest_f64 neg x = (if kept < 2 ^ 2098 then Finite neg (kept / 2 ^ 1074) else Infinite neg)"
    unfolding nearest_f64_def Let_def units_def [symmetric] d_def [symmetric] v_def [symmetric] kept_def [symmetric] ..
  ultimately show ?thesis by (cases "kept < 2 ^ 2098") (simp_all only: if_True if_False, blast+)
qed

text \<open>Integers of 53 bits are numbers.\<close>

lemma nearest_f64_nat:
  assumes "n < 2 ^ 53"
  shows "nearest_f64 neg (of_nat n) = Finite neg (of_nat n)"
proof -
  define units :: rat where "units = of_nat n * 2 ^ 1074"
  define d where "d = floorlog 2 (nat \<lfloor>units\<rfloor>) - 53"
  have int: "units = of_nat (n * 2 ^ 1074)" by (simp only: units_def of_nat_mult of_nat_power of_nat_numeral)
  have "n * 2 ^ 1074 < 2 ^ 53 * 2 ^ 1074" using assms by (rule mult_strict_right_mono) (simp only: zero_less_power zero_less_numeral)
  then have "n * 2 ^ 1074 < 2 ^ 1127" by (simp only: power_add [symmetric]) simp
  then have "floorlog 2 (n * 2 ^ 1074) \<le> 1127" by (intro floorlog_leI) (simp_all only: one_less_numeral_iff semiring_norm zero_le)
  then have d: "d \<le> 1074" unfolding d_def int floor_of_nat nat_int by simp
  have "units = of_int (int n * 2 ^ (1074 - d)) * 2 ^ d"
    using d unfolding units_def by (simp only: of_int_mult of_int_power of_int_of_nat_eq of_int_numeral mult.assoc power_add [symmetric] le_add_diff_inverse2)
  then have whole: "units / 2 ^ d = of_int (int n * 2 ^ (1074 - d))" by (simp add: field_simps)
  have kept: "of_int (half_even (units / 2 ^ d)) * 2 ^ d = units"
    using \<open>units = of_int (int n * 2 ^ (1074 - d)) * 2 ^ d\<close> unfolding whole half_even_int by simp
  have "units < 2 ^ 2098"
  proof -
    have "n * 2 ^ 1074 < 2 ^ 2098" using \<open>n * 2 ^ 1074 < 2 ^ 1127\<close> power_increasing [of 1127 2098 "2 :: nat"] by linarith
    then have "(of_nat (n * 2 ^ 1074) :: rat) < of_nat (2 ^ 2098)" by (simp only: of_nat_less_iff)
    then show ?thesis unfolding int by (simp only: of_nat_power of_nat_numeral)
  qed
  moreover have "units / 2 ^ 1074 = of_nat n"
  proof -
    have "of_nat n * c / c = of_nat n" if "c \<noteq> 0" for c :: rat using that by simp
    then show ?thesis unfolding units_def by (metis power_not_zero zero_neq_numeral)
  qed
  ultimately show ?thesis
    unfolding nearest_f64_def Let_def units_def [symmetric] d_def [symmetric] kept by (simp only: if_True)
qed

lemma truncated_exact: "f64_of_i32 100000000 = Finite False 100000000"
  using nearest_f64_nat [of 100000000 False] by (simp add: f64_of_i32_def)

section \<open>Converting back and forth\<close>

text \<open>21 million bitcoins.\<close>

definition MAX_SATS :: nat where
  "MAX_SATS = 2100000000000000"

text \<open>
  What the code relies on: both conversions of \<open>bitcoin::Amount\<close> know the \<open>f64\<close> nearest to a whole
  number of satoshis, and negative and infinite amounts are refused.
\<close>

definition amounts_ok :: "'x amount_lib_scheme \<Rightarrow> bool" where
  "amounts_ok L \<longleftrightarrow>
     (\<forall>s. unat s \<le> MAX_SATS \<longrightarrow> from_btc L (nearest_f64 False (of_nat (unat s) / 10 ^ 8)) = Some s \<and>
        to_btc L s = nearest_f64 False (of_nat (unat s) / 10 ^ 8)) \<and>
     (\<forall>m > 0. from_btc L (Finite True m) = None) \<and> (\<forall>neg. from_btc L (Infinite neg) = None) \<and> from_btc L NaN = None"

lemma rounds_to:
  fixes y :: rat
  assumes "\<bar>y - of_nat n\<bar> < 1 / 2"
  shows "\<lfloor>y + 1 / 2\<rfloor> = int n"
  by (rule floor_unique; use abs_less_iff [THEN iffD1, OF assms] in simp)

lemma product_rounds:
  assumes "0 \<le> b" "\<bar>b * 10 ^ 8 - of_nat n\<bar> < 3 / 8" "n \<le> MAX_SATS"
  shows "f64_round (f64_mul (Finite neg b) (Finite False 100000000)) = Finite neg (of_nat n)"
proof -
  have "(of_nat n :: rat) \<le> of_nat MAX_SATS" using assms(3) by (simp only: of_nat_le_iff)
  then have "of_nat n \<le> (2100000000000000 :: rat)" by (simp add: MAX_SATS_def)
  moreover have near: "\<bar>b * 100000000 - of_nat n\<bar> < 3 / 8" using assms(2) by simp
  ultimately have "b * 100000000 < 2251799813685248" by linarith
  then have small: "b * 100000000 < 2 ^ 51" by simp
  obtain y where y: "nearest_f64 neg (b * 100000000) = Finite neg y" "\<bar>y - b * 100000000\<bar> \<le> 2 ^ 51 / 2 ^ 54"
    by (rule nearest_f64_near [of "b * 100000000" 51 neg]) (use assms(1) small in simp_all)
  then have "\<bar>y - b * 100000000\<bar> \<le> 1 / 8" by simp
  with near have "\<bar>y - of_nat n\<bar> < 1 / 2" by linarith
  from rounds_to [OF this] y(1) show ?thesis by simp
qed

lemma sats_near:
  assumes "n \<le> MAX_SATS"
  obtains y where "nearest_f64 False (of_nat n / 10 ^ 8) = Finite False y" "0 \<le> y" "\<bar>y * 10 ^ 8 - of_nat n\<bar> < 3 / 8"
proof -
  let ?x = "of_nat n / 10 ^ 8 :: rat"
  have "(of_nat n :: rat) \<le> of_nat MAX_SATS" using assms by (simp only: of_nat_le_iff)
  then have "?x < 2 ^ 25" by (simp add: MAX_SATS_def)
  then obtain y where y: "nearest_f64 False ?x = Finite False y" "0 \<le> y" "\<bar>y - ?x\<bar> \<le> 2 ^ 25 / 2 ^ 54"
    by (rule nearest_f64_near [of ?x 25, rotated]) simp_all
  moreover have "\<bar>y * c - z\<bar> = \<bar>y - z / c\<bar> * c" if "c > 0" for c z using that by (simp add: abs_mult_pos left_diff_distrib)
  ultimately have "\<bar>y * 10 ^ 8 - of_nat n\<bar> < 3 / 8" by simp
  with y(1,2) that show ?thesis by blast
qed

lemma convert_near:
  assumes "amounts_ok L" "0 \<le> b" "\<bar>b * 10 ^ 8 - of_nat (unat s)\<bar> < 3 / 8" "unat s \<le> MAX_SATS"
  shows "convert_btc_to_sats L (Finite False b) = Ok s"
  using assms(1,4) product_rounds [OF assms(2-4), of False]
  by (simp add: convert_btc_to_sats_def truncated_exact Let_def amounts_ok_def del: f64_mul.simps f64_round.simps)

lemma convert_negative:
  assumes "amounts_ok L" "1 \<le> b * 10 ^ 8"
  shows "convert_btc_to_sats L (Finite True b) = Err JsBadAmountError"
proof -
  have big: "1 \<le> x * 2 ^ 1074" if "1 / 10 ^ 8 \<le> x" for x :: rat
  proof -
    have "(1 :: rat) \<le> 1 / 10 ^ 8 * 2 ^ 1074" by simp
    also have "\<dots> \<le> x * 2 ^ 1074" using that by (intro mult_right_mono) simp_all
    finally show ?thesis .
  qed
  have refuse: "from_btc L (nearest_f64 True x) = None" if "1 / 10 ^ 8 \<le> x" for x
    using nearest_f64_big [OF big [OF that], of True] that assms(1) by (auto simp: amounts_ok_def)
  have "b * 100000000 \<ge> 1 / 10 ^ 8" using assms(2) by simp
  from nearest_f64_big [OF big [OF this], of True] show ?thesis
  proof (elim disjE exE conjE)
    assume "nearest_f64 True (b * 100000000) = Infinite True"
    with assms(1) show ?thesis by (simp add: convert_btc_to_sats_def truncated_exact Let_def amounts_ok_def)
  next
    fix y assume y: "nearest_f64 True (b * 100000000) = Finite True y" "b * 100000000 / 2 \<le> y"
    then have "1 \<le> \<lfloor>y + 1 / 2\<rfloor>" using assms(2) by (simp add: le_floor_iff)
    then have "(1 :: rat) \<le> of_int \<lfloor>y + 1 / 2\<rfloor>" by (metis of_int_1 of_int_le_iff)
    then have "1 / 10 ^ 8 \<le> of_int \<lfloor>y + 1 / 2\<rfloor> / (100000000 :: rat)" by simp
    from refuse [OF this] y(1) show ?thesis by (simp add: convert_btc_to_sats_def truncated_exact Let_def)
  qed
qed

text \<open>
  C31: amounts are converted without losing a satoshi. Up to 21 million bitcoins every amount within
  3/8 of a satoshi of a whole number of them becomes this number, whatever the multiplication and
  the division lose; what \<open>convert_sats_to_btc\<close> shows is converted back to the same number; and
  negative amounts of a satoshi or more, infinite ones and those that are no number are refused.
\<close>

theorem btc_conversion_keeps_satoshis:
  assumes "amounts_ok L"
  shows "(\<forall>s b. unat s \<le> MAX_SATS \<longrightarrow> 0 \<le> b \<longrightarrow> \<bar>b * 10 ^ 8 - of_nat (unat s)\<bar> < 3 / 8 \<longrightarrow>
        convert_btc_to_sats L (Finite False b) = Ok s) \<and>
    (\<forall>s. unat s \<le> MAX_SATS \<longrightarrow> convert_btc_to_sats L (convert_sats_to_btc L s) = Ok s) \<and>
    (\<forall>b. 1 \<le> b * 10 ^ 8 \<longrightarrow> convert_btc_to_sats L (Finite True b) = Err JsBadAmountError) \<and>
    (\<forall>neg. convert_btc_to_sats L (Infinite neg) = Err JsBadAmountError) \<and>
    convert_btc_to_sats L NaN = Err JsBadAmountError"
proof (intro conjI allI impI)
  fix s :: u64 assume s: "unat s \<le> MAX_SATS"
  then obtain y where y: "nearest_f64 False (of_nat (unat s) / 10 ^ 8) = Finite False y" "0 \<le> y"
    "\<bar>y * 10 ^ 8 - of_nat (unat s)\<bar> < 3 / 8"
    by (rule sats_near)
  from convert_near [OF assms y(2,3) s] y(1) assms s
  show "convert_btc_to_sats L (convert_sats_to_btc L s) = Ok s"
    by (simp add: convert_sats_to_btc_def amounts_ok_def)
qed (use assms convert_near convert_negative in
  \<open>simp_all add: convert_btc_to_sats_def truncated_exact Let_def amounts_ok_def\<close>)

section \<open>A concrete library\<close>

definition demo_amounts :: amount_lib where
  "demo_amounts =
     \<lparr>from_btc = (\<lambda>f. case f of
         Finite False m \<Rightarrow> let n = \<lfloor>m * 10 ^ 8 + 1 / 2\<rfloor> in if nat n \<le> MAX_SATS then Some (word_of_int n) else None
       | _ \<Rightarrow> None),
      to_btc = (\<lambda>s. nearest_f64 False (of_nat (unat s) / 10 ^ 8))\<rparr>"

lemma demo_amounts_ok: "amounts_ok demo_amounts"
proof -
  have "from_btc demo_amounts (nearest_f64 False (of_nat (unat s) / 10 ^ 8)) = Some s" if s: "unat s \<le> MAX_SATS" for s
  proof -
    obtain y where y: "nearest_f64 False (of_nat (unat s) / 10 ^ 8) = Finite False y" "\<bar>y * 10 ^ 8 - of_nat (unat s)\<bar> < 3 / 8"
      using s by (rule sats_near)
    from y(2) have "\<bar>y * 10 ^ 8 - of_nat (unat s)\<bar> < 1 / 2" by linarith
    from rounds_to [OF this] y(1) s show ?thesis by (simp add: demo_amounts_def)
  qed
  then show ?thesis by (simp add: amounts_ok_def demo_amounts_def)
qed

text \<open>A tenth of a bitcoin, in the nearest \<open>f64\<close>.\<close>

lemma btc_conversion_keeps_satoshis_witness:
  "convert_btc_to_sats demo_amounts (Finite False (3602879701896397 / 36028797018963968)) = Ok 10000000 \<and>
   convert_btc_to_sats demo_amounts (convert_sats_to_btc demo_amounts 2100000000000000) = Ok 2100000000000000"
  using btc_conversion_keeps_satoshis [OF demo_amounts_ok, THEN conjunct1, rule_format, of 10000000 "3602879701896397 / 36028797018963968"]
    btc_conversion_keeps_satoshis [OF demo_amounts_ok, THEN conjunct2, THEN conjunct1, rule_format, of 2100000000000000]
  by (simp add: MAX_SATS_def)

end
