(* ===== verification/Spec2Isabelle.thy ===== *)
theory Spec2Isabelle
  imports WalletRuns Sockets OnChain Server Startup Typing Amounts
begin

text \<open>
  A model of the Mutiny wallet: the Rust crate \<open>node-manager\<close>, a Lightning and on-chain wallet that
  runs in the browser as WebAssembly, and the crate \<open>ln-websocket-proxy\<close>, the server its websockets
  go through. The definitions are translations of the Rust code under \<open>src/node-manager/src\<close> and
  \<open>src/ln-websocket-proxy/src\<close>; the lemmas and properties are about these definitions.

  The program and its parts. The frontend calls a \<open>NodeManager\<close> (\<open>nodemanager.rs\<close>). It holds the
  seed, an on-chain wallet (\<open>wallet.rs\<close>, over bdk) and any number of Lightning nodes (\<open>node.rs\<close>,
  over LDK). Everything lasting goes into the browser's local storage (\<open>localstorage.rs\<close>), encrypted
  with the password (\<open>encrypt.rs\<close>): the seed, the list of nodes, bdk's database (\<open>bdkstorage.rs\<close>),
  and for each node its payments, peers and LDK's objects (\<open>ldkstorage.rs\<close>). The chain is followed
  over an Esplora server (\<open>chain.rs\<close>). LDK's events are booked by \<open>event.rs\<close>, called from the
  background processor (\<open>background.rs\<close>). A browser has no TCP: a node reaches other nodes over the
  proxy, by one websocket per TCP peer or by one websocket shared by all peers that are Mutiny wallets
  (\<open>proxy.rs\<close>, \<open>socket.rs\<close>; on the server \<open>main.rs\<close>, \<open>lib.rs\<close>).

  Conventions. \<open>Prelude\<close> has a result with three outcomes, \<open>Ok\<close>,
  \<open>Err\<close> and \<open>Panic\<close>, so that every \<open>unwrap\<close>,
  \<open>expect\<close> and index out of range of the code is a branch of the model, and programs
  \<open>('s, 'a, 'e) prog = 's \<Rightarrow> ('a, 'e) result \<times> 's\<close> with
  \<open>pbind\<close> for \<open>?\<close>. The state is explicit and is kept when a program fails,
  as in the code. Integers are words of their width and wrap. Hash maps are association lists
  (\<open>AList\<close>); where the code iterates over one, the order is a parameter of the
  environment. Code that is not in the repository (bdk, LDK, Esplora, the browser, cryptography,
  serde, sockets, the clock) is a parameter, a field of an environment record that is extended from
  theory to theory (\<open>crypto\<close>, \<open>web\<close>, \<open>bdk_env\<close>,
  \<open>ldk_env\<close>, \<open>pay_env\<close>, \<open>bg_env\<close>, \<open>net_env\<close>,
  \<open>nm_env\<close>, \<open>api_env\<close>, \<open>oc_env\<close>, and \<open>esplora\<close>,
  \<open>proxy_env\<close>, \<open>sock_env\<close>, \<open>relay_env\<close>,
  \<open>server_env\<close>, \<open>amount_lib\<close>, \<open>http\<close>). Where its answers can
  change they depend on a counter or on the log of the calls made, so nothing is assumed to answer
  twice the same. What the code relies on is a named predicate (\<open>crypto_ok\<close>,
  \<open>web_ok\<close>, \<open>bdk_ok\<close>, \<open>ldk_ok\<close>, \<open>codec_ok\<close>,
  \<open>orders_ok\<close>, \<open>steady\<close>, \<open>amounts_ok\<close>,
  \<open>decodes_plain\<close>) and has a concrete instance (\<open>demo_...\<close>) at the end of
  each theory, where the properties are applied.

  The theories, in the order they build on each other.

  \<^item> \<open>Prelude\<close>: the above, Rust's string functions, association lists, and the locale
    \<open>run_preorder\<close>: a reflexive transitive relation between the states before and after a program,
    kept by every composition. Its interpretations say what the parts of the program leave alone.
  \<^item> \<open>Errors\<close> (\<open>error.rs\<close>): every error type and every \<open>From\<close> conversion.
  \<^item> \<open>Encrypt\<close> (\<open>encrypt.rs\<close>): layout, key derivation, every panic; the round trip.
  \<^item> \<open>LocalStorage\<close> (\<open>localstorage.rs\<close>): the browser storage with its quota, the encrypted typed store,
    scans, the mnemonic and the node list. The locales \<open>kv_table\<close>, \<open>taking_table\<close> and \<open>kv_table_for\<close>
    state the contract of a typed table; they are interpreted on the plain and the encrypted storage.
  \<^item> \<open>BdkStorage\<close> (\<open>bdkstorage.rs\<close>): bdk's \<open>Database\<close> and its batches; distinct data have distinct
    keys, every table is a \<open>taking_table\<close>, listings are the tables.
  \<^item> \<open>ChainSync\<close> (\<open>chain.rs\<close>): \<open>sync\<close> with its loop, registrations that arrive while it waits, the
    order of confirmations, reorganisations and the fee estimates. The loop has fuel: \<open>None\<close> is a loop
    that still runs. \<open>sync_terminates\<close> gives the fuel that is enough for a client that answers
    consistently; for a client that does not, \<open>sync_spins_on_permanent_failure\<close> shows that no fuel is.
  \<^item> \<open>Invoices\<close> (\<open>invoice.rs\<close>): which channels become route hints, and invoices.
  \<^item> \<open>LdkStorage\<close> (\<open>ldkstorage.rs\<close>): the keys and values a node stores.
  \<^item> \<open>Payments\<close>, \<open>PaymentFlows\<close> (\<open>event.rs\<close>, \<open>node.rs\<close>): the event handler, which refines a step on
    the abstract map of payments, and creating, paying and listing invoices, with the life of a payment
    from its start over LDK's event to what the wallet shows.
  \<^item> \<open>Ledger\<close>: runs of all nodes of a wallet, \<open>wallet_run\<close>: their events and calls in any order, and
    between them whatever leaves their payments alone. What is shown as paid was reported by LDK, and
    no payment is forgotten.
  \<^item> \<open>Connection\<close> (\<open>node.rs\<close>, \<open>proxy.rs\<close>, \<open>main.rs\<close>): connection strings, the proxy's URLs,
    connecting, and the round of the loop that connects to stored peers.
  \<^item> \<open>Proxy\<close> (\<open>main.rs\<close>, \<open>lib.rs\<close>): the server between wallets as a step relation \<open>proxy_step\<close>: tasks,
    the shared map and its lock, queues of 32 commands (\<open>QUEUE_LEN\<close>), listeners. Its invariant holds in
    every reachable state, by rule induction.
  \<^item> \<open>NodeManager\<close>, \<open>WalletApi\<close> (\<open>nodemanager.rs\<close>, \<open>keymanager.rs\<close>, \<open>wallet.rs\<close>): opening the
    wallet, new nodes, peers; the frontend's calls about invoices, payments and channels.
  \<^item> \<open>Sockets\<close> (\<open>socket.rs\<close>): the wallet's end of the shared websocket as a step relation \<open>sock_step\<close>:
    the reader, the sender, subsockets and reconnection; descriptors count modulo 2^64. Composed with
    \<open>Proxy\<close>: data and a hang-up travel from one wallet to another.
  \<^item> \<open>Background\<close> (\<open>background.rs\<close>): a turn of the processor with its four timers, the loop and the
    loop around it. Both loops have fuel; what is shown of them either holds for every fuel or names the
    turn at which the loop ends.
  \<^item> \<open>WalletRuns\<close>: the background task of a node, through turns and restarts, and the calls of the frontend
    are runs in the sense of \<open>Ledger\<close>.
  \<^item> \<open>OnChain\<close> (\<open>wallet.rs\<close>, \<open>nodemanager.rs\<close>): sending, sweeping, syncing, listing, BIP21 data, fees,
    composed with \<open>ChainSync\<close> and \<open>BdkStorage\<close>.
  \<^item> \<open>Relay\<close> (\<open>main.rs\<close>): the server between a wallet and a TCP node, \<open>handle_socket\<close>, with its buffer of
    65536 bytes, composed with the wallet's descriptor of such a connection.
  \<^item> \<open>Server\<close> (\<open>main.rs\<close>): the port, the routes and both ends of the server, with the URLs of the wallet.
  \<^item> \<open>Startup\<close> (\<open>keymanager.rs\<close>, \<open>node.rs\<close>, \<open>nodemanager.rs\<close>): a node's keys, the channel monitors it
    gives back to LDK and registers with the chain of \<open>ChainSync\<close>, and the tasks it starts; this refines
    the construction in \<open>NodeManager\<close>, which sees the storage and the network only. New nodes, the list
    of nodes and disconnecting, composed with the reconnection of \<open>Connection\<close>.
  \<^item> \<open>Typing\<close>: the storage is one table of untyped strings; what every writer stores under a key can be
    read at the type of the key, so the scans do not panic.

  \<^item> \<open>Amounts\<close> (\<open>nodemanager.rs\<close>): IEEE 754 binary64 numbers as a sign and a rational, and the
    conversions between bitcoins and satoshis with the error that two roundings make.

  What the properties show. Storage: what is written is read back, by every table, and one table
  never disturbs another; typed entries stay typed. Chain: a registered transaction or output is
  tracked until it is confirmed beyond reorganisation, a sync that says \<open>Ok\<close> has told
  LDK the tip and the confirmations, and a sync ends. Payments: every event and every call is a step
  on the map of payments, with each error path, and over a whole run paid means that LDK said so.
  Network: what goes through the proxy arrives once, unchanged and in order, or not at all; what
  happens when either side goes away. Processor: each timer is served in time, each event is handled
  once. Opening: the same wallet, or an error; never an index used twice; restored channels are
  watched again. Several properties show where the code does not do what it means to: a seed
  replaced, a payment's proof forgotten, a proxy frozen, a wallet on signet that cannot spend.

  Not modelled. Logging (\<open>logging.rs\<close>) and every \<open>info!\<close>, \<open>debug!\<close>, \<open>trace!\<close>; the trait of
  \<open>peermanager.rs\<close>, whose methods delegate to LDK; conversions to JavaScript values and the getters that
  only copy a field; the panic hook and the browser's timer (\<open>utils.rs\<close>, \<open>lib.rs\<close>); the tasks that
  \<open>WsProxy\<close> (\<open>proxy.rs\<close>) spawns to write to a websocket of the browser, which is a parameter; the
  TypeScript frontend. LDK's and bdk's own objects are parameters. Tests are not modelled.
\<close>

end
